(* ===== verification/Prelude.thy ===== *)
theory Prelude
  imports Main "HOL-Library.Word" "HOL-Library.Multiset"
begin

text \<open>
  Shared vocabulary of the development: names for the machine integers of the C code, the
  error numbers the program distinguishes, results of system calls, and generic facts on
  words and lists that the component theories rest on.
\<close>

unbundle bit_operations_syntax

type_synonym u8 = "8 word"
type_synonym u16 = "16 word"
type_synonym u32 = "32 word"
type_synonym u64 = "64 word"

named_theorems ring_simps \<open>rewrite rules for descriptor-ring states\<close>
named_theorems pool_simps \<open>rewrite rules for the socket_info pool\<close>

section \<open>Error numbers and system-call results\<close>

text \<open>
  The values of \<open>errno\<close> that the sources name. \<open>EOTHER n\<close> is any other value a system
  call may leave there.
\<close>

datatype errno =
    ENOENT | EINTR | EAGAIN | EBUSY | EINVAL | ENFILE | ENOSPC | ENOTSOCK | ENOPROTOOPT
  | EPROTONOSUPPORT | ESOCKTNOSUPPORT | EAFNOSUPPORT | EADDRINUSE | EADDRNOTAVAIL
  | ENETUNREACH | ENOBUFS | ENOTCONN | EHOSTUNREACH | ENOMEM | EOTHER nat

text \<open>A system call returns its value or fails with an \<open>errno\<close>.\<close>

type_synonym 'a sysres = "errno + 'a"

section \<open>Words\<close>

lemma unat_of_nat_u32: "n < 2 ^ 32 \<Longrightarrow> unat (of_nat n :: u32) = n"
  by (simp add: unat_of_nat)

lemma unat_of_nat_u64: "n < 2 ^ 64 \<Longrightarrow> unat (of_nat n :: u64) = n"
  by (simp add: unat_of_nat)

lemma unat_plus_of_nat_mod:
  fixes a :: u32
  assumes "k \<le> 32"
  shows "unat (a + of_nat i) mod 2 ^ k = (unat a + i) mod 2 ^ k"
proof -
  have dvd: "(2::nat) ^ k dvd 2 ^ 32"
    using assms by (rule le_imp_power_dvd)
  have "unat (a + of_nat i) = (unat a + i) mod 2 ^ 32"
    by (simp add: unat_word_ariths unat_of_nat mod_add_right_eq)
  then show ?thesis
    using dvd by (simp add: mod_mod_cancel)
qed

lemma unat_pow2:
  assumes "k < 32"
  shows "unat ((2::u32) ^ k) = 2 ^ k"
proof -
  have "(2::nat) ^ k < 2 ^ 32"
    using assms by (intro power_strict_increasing) auto
  then have "unat (of_nat (2 ^ k) :: u32) = 2 ^ k"
    by (simp only: unat_of_nat len_num1 len_bit0, simp)
  then show ?thesis by simp
qed

lemma unat_and_pow2_minus_1:
  fixes x :: u32
  shows "unat (x AND (2 ^ k - 1)) = unat x mod 2 ^ k"
proof -
  have "x AND (2 ^ k - 1) = take_bit k x"
    by (simp only: take_bit_eq_mask mask_eq_exp_minus_1)
  then have "unat (x AND (2 ^ k - 1)) = take_bit k (unat x)"
    by (simp only: unsigned_take_bit_eq)
  then show ?thesis
    by (simp only: take_bit_eq_mod)
qed

lemma sint_eq_unat_u32:
  fixes x :: u32
  assumes "unat x < 2 ^ 31"
  shows "sint x = int (unat x)"
proof -
  have ux: "uint x = int (unat x)"
    by (rule uint_nat)
  have "int (unat x) < int (2 ^ 31)"
    using assms by (simp only: of_nat_less_iff)
  moreover have "- (2 ^ 31) \<le> (0::int)" by simp
  ultimately have "signed_take_bit 31 (int (unat x)) = int (unat x)"
    by (intro signed_take_bit_int_eq_self order_trans [OF _ of_nat_0_le_iff])
      (simp_all only: of_nat_power of_nat_numeral)
  moreover have "sint x = signed_take_bit 31 (uint x)"
    by (simp only: sint_uint len_num1 len_bit0 len_bit1, simp)
  ultimately show ?thesis
    by (simp only: ux)
qed

section \<open>Remainders in a window\<close>

lemma mod_window_inj:
  fixes a i j n :: nat
  assumes "i < n" and "j < n" and "(a + i) mod n = (a + j) mod n"
  shows "i = j"
proof -
  have "int n dvd (int a + int i) - (int a + int j)"
    using assms(3) by (metis mod_eq_dvd_iff of_nat_add of_nat_mod)
  then have "int n dvd int i - int j" by simp
  moreover have "\<bar>int i - int j\<bar> < int n"
    using assms(1,2) by linarith
  ultimately have "int i - int j = 0"
    by (metis zdvd_not_zless abs_dvd_iff dvd_abs_iff zero_less_abs_iff)
  then show ?thesis by simp
qed

section \<open>Lists\<close>

lemma mset_map_split:
  "mset (map f (take n xs)) + mset (map f (drop n xs)) = mset (map f xs)"
  by (metis append_take_drop_id map_append mset_append)

lemma map_upt_shift: "map f [a..<a + n] = map (\<lambda>i. f (a + i)) [0..<n]"
  by (induction n) auto

end
