(* ===== verification/Xdp_Fifo.thy ===== *)
theory Xdp_Fifo
  imports Xdp_Ring
begin

text \<open>
  The contract of the descriptor rings. The abstract state of a ring is the list of entries
  between its published consumer and producer index (\<open>in_flight\<close>); the user's operations
  refine appending to and taking from that list. Two locales state the interfaces a client
  relies on (a bounded FIFO to produce into, a FIFO to consume from), and the ring operations
  interpret them. The environment's moves on the shared indices are \<open>kernel_consumed\<close> and
  \<open>kernel_produced\<close>.
\<close>

section \<open>Well-formed rings\<close>

definition ring_ok :: "'d uqueue \<Rightarrow> bool" where
  "ring_ok q \<longleftrightarrow> (\<exists>k<32. length (ring q) = 2 ^ k \<and> qsize q = 2 ^ k \<and> qmask q = 2 ^ k - 1)"

definition slots :: "'d uqueue \<Rightarrow> u32 \<Rightarrow> nat \<Rightarrow> 'd list" where
  "slots q a n = map (\<lambda>i. ring q ! unat ((a + of_nat i) AND qmask q)) [0..<n]"

definition in_flight :: "'d uqueue \<Rightarrow> 'd list" where
  "in_flight q = slots q (consumer q) (unat (producer q - consumer q))"

definition capacity :: "'d uqueue \<Rightarrow> nat" where
  "capacity q = unat (qsize q)"

text \<open>A ring the user fills (fill ring, TX ring), and one it drains (RX ring, completion
  ring), between two operations of the user.\<close>

definition prod_inv :: "'d uqueue \<Rightarrow> bool" where
  "prod_inv q \<longleftrightarrow> ring_ok q \<and> producer q = cached_prod q
     \<and> unat (producer q - consumer q) \<le> capacity q
     \<and> unat (cached_cons q - cached_prod q) \<le> capacity q - unat (producer q - consumer q)"

definition cons_inv :: "'d uqueue \<Rightarrow> bool" where
  "cons_inv q \<longleftrightarrow> ring_ok q \<and> consumer q = cached_cons q
     \<and> unat (producer q - consumer q) \<le> capacity q
     \<and> unat (cached_prod q - cached_cons q) \<le> unat (producer q - consumer q)"

lemma ring_okE:
  assumes "ring_ok q"
  obtains k where "k < 32" "length (ring q) = 2 ^ k" "qsize q = 2 ^ k" "qmask q = 2 ^ k - 1"
    "capacity q = 2 ^ k"
proof -
  obtain k where k: "k < 32" "length (ring q) = 2 ^ k" "qsize q = 2 ^ k" "qmask q = 2 ^ k - 1"
    using assms by (auto simp: ring_ok_def)
  have "unat ((2::u32) ^ k) = 2 ^ k"
    using k(1) by (rule unat_pow2)
  with k show thesis by (intro that) (auto simp: capacity_def)
qed

lemma ring_ok_cong:
  "length (ring q') = length (ring q) \<Longrightarrow> qsize q' = qsize q \<Longrightarrow> qmask q' = qmask q \<Longrightarrow>
   ring_ok q' = ring_ok q"
  by (simp add: ring_ok_def)

text \<open>Every slot the code addresses lies inside the ring.\<close>

lemma slot_in_bounds: "ring_ok q \<Longrightarrow> unat (x AND qmask q) < length (ring q)"
  by (elim ring_okE) (simp add: unat_and_pow2_minus_1)

lemma slot_index:
  assumes "ring_ok q"
  shows "unat ((a + of_nat i) AND qmask q) = (unat a + i) mod capacity q"
  using assms by (elim ring_okE) (simp add: unat_and_pow2_minus_1 unat_plus_of_nat_mod)

lemma length_slots [simp]: "length (slots q a n) = n"
  by (simp add: slots_def)

lemma length_in_flight [simp]: "length (in_flight q) = unat (producer q - consumer q)"
  by (simp add: in_flight_def)

lemma slots_0 [simp]: "slots q a 0 = []"
  by (simp add: slots_def)

lemma slots_add: "slots q a (m + n) = slots q a m @ slots q (a + of_nat m) n"
proof -
  have "[0..<m + n] = [0..<m] @ map (\<lambda>i. m + i) [0..<n]"
    by (induction n) auto
  then show ?thesis by (simp add: slots_def add.assoc)
qed

lemma slots_Suc_front:
  "slots q a (Suc n) = ring q ! unat (a AND qmask q) # slots q (a + 1) n"
  using slots_add [of q a 1 n] by (simp add: slots_def)

lemma slots_cong:
  "ring q' = ring q \<Longrightarrow> qmask q' = qmask q \<Longrightarrow> slots q' a n = slots q a n"
  by (simp add: slots_def)

text \<open>A store behind the window leaves the window alone, and the next slot shows it.\<close>

lemma slots_store:
  assumes ok: "ring_ok q" and n: "n < capacity q"
    and q': "ring q' = (ring q)[unat ((a + of_nat n) AND qmask q) := x]" "qmask q' = qmask q"
  shows "slots q' a (Suc n) = slots q a n @ [x]"
proof -
  have cap: "length (ring q) = capacity q"
    using ok by (elim ring_okE) simp
  have other: "ring q' ! unat ((a + of_nat i) AND qmask q) = ring q ! unat ((a + of_nat i) AND qmask q)"
    if "i < n" for i
    using that n mod_window_inj [of i "capacity q" n "unat a"]
    by (simp add: q' slot_index [OF ok]) (metis nat_neq_iff nth_list_update_neq)
  have new: "ring q' ! unat ((a + of_nat n) AND qmask q) = x"
    using n by (simp add: q' slot_index [OF ok] cap)
  show ?thesis
    using other new by (auto simp: slots_def q')
qed

section \<open>Free and available entries\<close>

definition free_slots :: "'d uqueue \<Rightarrow> nat" where
  "free_slots q = capacity q - length (in_flight q)"

lemma xq_nb_free_eq [ring_simps]: "xq_nb_free = umem_nb_free"
  by (simp add: fun_eq_iff xq_nb_free_def umem_nb_free_def)

lemma xq_nb_avail_eq [ring_simps]: "xq_nb_avail = umem_nb_avail"
  by (simp add: fun_eq_iff xq_nb_avail_def umem_nb_avail_def)

lemma unat_refreshed_free:
  fixes p c s :: u32
  assumes "unat (p - c) \<le> unat s"
  shows "unat (c + s - p) = unat s - unat (p - c)"
proof -
  have "c + s - p = s - (p - c)" by simp
  moreover have "unat (s - (p - c)) = unat s - unat (p - c)"
    using assms by (intro unat_sub) (simp only: word_le_nat_alt)
  ultimately show ?thesis by (simp only:)
qed

text \<open>Refreshing the cached index of a producing ring yields exactly the free entries; the
  answer reaches \<open>nb\<close> exactly if \<open>nb\<close> entries fit.\<close>

lemma nb_free_spec:
  assumes inv: "prod_inv q" and eq: "umem_nb_free q nb = (f, q')"
  shows "\<exists>cc. q' = q\<lparr>cached_cons := cc\<rparr>" "prod_inv q'"
    "unat nb \<le> unat f \<longleftrightarrow> unat nb \<le> free_slots q" "unat f \<le> free_slots q"
proof -
  have fresh: "unat (consumer q + qsize q - cached_prod q) = free_slots q"
    using inv by (auto simp: prod_inv_def free_slots_def capacity_def unat_refreshed_free)
  have cached: "unat (cached_cons q - cached_prod q) \<le> free_slots q"
    using inv by (auto simp: prod_inv_def free_slots_def)
  show "\<exists>cc. q' = q\<lparr>cached_cons := cc\<rparr>"
    using eq by (auto simp: umem_nb_free_def Let_def split: if_splits
        intro: exI [of _ "cached_cons q"] exI [of _ "consumer q + qsize q"])
  show "unat nb \<le> unat f \<longleftrightarrow> unat nb \<le> free_slots q" "unat f \<le> free_slots q"
    using eq fresh cached by (auto simp: umem_nb_free_def Let_def word_le_nat_alt split: if_splits)
  show "prod_inv q'"
    using eq inv fresh
    by (auto simp: umem_nb_free_def Let_def prod_inv_def ring_ok_def capacity_def free_slots_def
        split: if_splits)
qed

text \<open>The answer of \<open>nb_avail\<close> never exceeds what is in flight, and is zero only if nothing is
  (or nothing was asked for).\<close>

lemma nb_avail_spec:
  assumes inv: "cons_inv q" and eq: "umem_nb_avail q nb = (e, q')"
  shows "\<exists>cp. q' = q\<lparr>cached_prod := cp\<rparr>" "cons_inv q'"
    "unat e \<le> length (in_flight q)" "unat e \<le> unat nb"
    "e = 0 \<longleftrightarrow> nb = 0 \<or> in_flight q = []"
proof -
  show "\<exists>cp. q' = q\<lparr>cached_prod := cp\<rparr>"
    using eq by (auto simp: umem_nb_avail_def Let_def split: if_splits
        intro: exI [of _ "cached_prod q"] exI [of _ "producer q"])
  have z: "in_flight q = [] \<longleftrightarrow> producer q = cached_cons q"
    using inv length_in_flight [of q]
    by (metis cons_inv_def length_0_conv right_minus_eq unat_eq_0)
  show "cons_inv q'"
    using eq inv by (auto simp: umem_nb_avail_def Let_def cons_inv_def ring_ok_def capacity_def
        split: if_splits)
  show "unat e \<le> length (in_flight q)"
    using eq inv by (auto simp: umem_nb_avail_def Let_def cons_inv_def word_less_nat_alt
        split: if_splits)
  show "unat e \<le> unat nb"
    using eq by (auto simp: umem_nb_avail_def Let_def word_less_nat_alt not_less split: if_splits)
  have "cached_prod q = cached_cons q" if "in_flight q = []"
    using inv that z by (auto simp: cons_inv_def unsigned_eq_0_iff)
  then show "e = 0 \<longleftrightarrow> nb = 0 \<or> in_flight q = []"
    using eq inv z
    by (auto simp: umem_nb_avail_def Let_def cons_inv_def word_gt_0 split: if_splits)
qed

section \<open>The copy loops\<close>

lemma produce_frame [simp]:
  "cached_prod (produce put xs q) = cached_prod q + of_nat (length xs)"
  "cached_cons (produce put xs q) = cached_cons q"
  "qmask (produce put xs q) = qmask q"
  "qsize (produce put xs q) = qsize q"
  "producer (produce put xs q) = producer q"
  "consumer (produce put xs q) = consumer q"
  "length (ring (produce put xs q)) = length (ring q)"
  by (induction xs arbitrary: q) (simp_all add: Let_def)

lemma ring_ok_produce [simp]: "ring_ok (produce put xs q) = ring_ok q"
  by (rule ring_ok_cong) simp_all

text \<open>As long as the entries fit behind the window, the loop appends them to it. What the
  store writes is seen through \<open>view\<close>.\<close>

lemma produce_slots:
  assumes "ring_ok q" and "cached_prod q = a + of_nat p" and "p + length xs \<le> capacity q"
    and view: "\<And>x d. view (put x d) = val x"
  shows "map view (slots (produce put xs q) a (p + length xs))
       = map view (slots q a p) @ map val xs"
  using assms(1-3)
proof (induction xs arbitrary: q p)
  case Nil
  then show ?case by simp
next
  case (Cons x xs)
  let ?idx = "unat (cached_prod q AND qmask q)"
  let ?q = "q\<lparr>cached_prod := cached_prod q + 1, ring := (ring q)[?idx := put x (ring q ! ?idx)]\<rparr>"
  have ok: "ring_ok ?q"
    using Cons.prems(1) by (simp add: ring_ok_def)
  have win: "slots ?q a (Suc p) = slots q a p @ [put x (ring q ! ?idx)]"
    using Cons.prems by (intro slots_store) simp_all
  have "map view (slots (produce put xs ?q) a (Suc p + length xs))
      = map view (slots ?q a (Suc p)) @ map val xs"
    using Cons.prems ok by (intro Cons.IH) (simp_all add: capacity_def)
  with win view show ?case by (simp add: Let_def del: upt_Suc)
qed

lemma consume_eq [ring_simps]:
  "consume n q = (slots q (cached_cons q) n, q\<lparr>cached_cons := cached_cons q + of_nat n\<rparr>)"
proof (induction n arbitrary: q)
  case 0
  then show ?case by simp
next
  case (Suc n)
  let ?q = "q\<lparr>cached_cons := cached_cons q + 1\<rparr>"
  have "slots ?q (cached_cons ?q) n = slots q (cached_cons q + 1) n"
    by (simp add: slots_def)
  moreover have "cached_cons q + 1 + of_nat n = cached_cons q + of_nat (Suc n)"
    by simp
  ultimately show ?case
    by (simp add: Suc.IH Let_def slots_Suc_front del: of_nat_Suc)
qed

section \<open>The common shape of the operations\<close>

definition enqueue :: "('x \<Rightarrow> 'd \<Rightarrow> 'd) \<Rightarrow> 'd uqueue \<Rightarrow> 'x list \<Rightarrow> unit sysres \<times> 'd uqueue" where
  "enqueue put q xs =
     (let (free, q) = umem_nb_free q (of_nat (length xs)) in
      if unat free < length xs then (Inl ENOSPC, q)
      else let q = produce put xs q in (Inr (), q\<lparr>producer := cached_prod q\<rparr>))"

definition dequeue :: "'d uqueue \<Rightarrow> nat \<Rightarrow> 'd list \<times> 'd uqueue" where
  "dequeue q n =
     (let (entries, q) = umem_nb_avail q (of_nat n);
          (d, q) = consume (unat entries) q
      in (d, if entries > 0 then q\<lparr>consumer := cached_cons q\<rparr> else q))"

lemma umem_fill_to_kernel_eq: "umem_fill_to_kernel = enqueue (\<lambda>a _. a)"
  by (simp add: fun_eq_iff umem_fill_to_kernel_def enqueue_def)

lemma umem_fill_to_kernel_ex_eq: "umem_fill_to_kernel_ex = enqueue (\<lambda>desc _. addr desc)"
  by (simp add: fun_eq_iff umem_fill_to_kernel_ex_def enqueue_def)

lemma xq_enq_eq:
  "length descs < 2 ^ 32 \<Longrightarrow>
   xq_enq uq descs = enqueue (\<lambda>desc r. r\<lparr>addr := addr desc, dlen := dlen desc\<rparr>) uq descs"
  by (simp add: xq_enq_def enqueue_def ring_simps word_less_nat_alt unat_of_nat_u32)

lemma xq_enq_tx_only_eq:
  "xq_enq_tx_only uq fid n =
   enqueue (\<lambda>i r. r\<lparr>addr := ucast (push_bit FRAME_SHIFT (fid + of_nat i)),
                    dlen := of_nat PKT_LEN\<rparr>) uq [0..<unat n]"
  by (simp add: xq_enq_tx_only_def enqueue_def ring_simps word_less_nat_alt)

lemma umem_complete_from_kernel_eq: "umem_complete_from_kernel = dequeue"
  by (simp add: fun_eq_iff umem_complete_from_kernel_def dequeue_def)

lemma enqueue_spec:
  assumes inv: "prod_inv q" and len: "length xs < 2 ^ 32"
    and view: "\<And>x d. view (put x d) = val x"
    and eq: "enqueue put q xs = (r, q')"
  shows "prod_inv q'" "capacity q' = capacity q" "consumer q' = consumer q"
    "r = (if length (in_flight q) + length xs \<le> capacity q then Inr () else Inl ENOSPC)"
    "map view (in_flight q')
       = map view (in_flight q) @ (if r = Inr () then map val xs else [])"
proof -
  obtain f q1 where f: "umem_nb_free q (of_nat (length xs)) = (f, q1)"
    by fastforce
  note spec = nb_free_spec [OF inv f]
  obtain cc where q1: "q1 = q\<lparr>cached_cons := cc\<rparr>"
    using spec(1) by auto
  have same: "in_flight q1 = in_flight q" "capacity q1 = capacity q" "producer q = cached_prod q"
    using inv by (auto simp: q1 in_flight_def slots_def capacity_def prod_inv_def)
  have fits: "length xs \<le> unat f \<longleftrightarrow> length (in_flight q) + length xs \<le> capacity q"
    using spec(3) len inv by (auto simp: unat_of_nat_u32 free_slots_def prod_inv_def)
  have "prod_inv q' \<and> capacity q' = capacity q \<and> consumer q' = consumer q
    \<and> r = (if length (in_flight q) + length xs \<le> capacity q then Inr () else Inl ENOSPC)
    \<and> map view (in_flight q') = map view (in_flight q) @ (if r = Inr () then map val xs else [])"
  proof (cases "length xs \<le> unat f")
    case False
    with eq f fits spec(2) same show ?thesis
      by (auto simp: enqueue_def q1)
  next
    case True
    let ?n = "unat (producer q - consumer q)"
    define q2 where "q2 = produce put xs q1"
    have q': "q' = q2\<lparr>producer := cached_prod q2\<rparr>" and r: "r = Inr ()"
      using True eq f by (auto simp: enqueue_def q2_def Let_def not_less)
    have cap: "?n + length xs \<le> capacity q"
      using True fits by simp
    have ok1: "ring_ok q1"
      using spec(2) by (simp add: prod_inv_def)
    have small: "?n + length xs < 2 ^ 32"
      using cap unsigned_less [of "qsize q", where 'a = nat] by (simp add: capacity_def)
    have pub: "unat (cached_prod q2 - consumer q2) = ?n + length xs"
    proof -
      have "cached_prod q2 - consumer q2 = of_nat (?n + length xs)"
        by (simp add: q2_def q1 same(3) [symmetric])
      then show ?thesis using small by (simp only: unat_of_nat_u32)
    qed
    have "map view (slots q2 (consumer q) (?n + length xs))
        = map view (slots q1 (consumer q) ?n) @ map val xs"
      unfolding q2_def using ok1 view cap same
      by (intro produce_slots) (simp_all add: q1)
    then have fl: "map view (in_flight q') = map view (in_flight q) @ map val xs"
      using pub by (simp add: in_flight_def q' slots_def q2_def q1 cong: map_cong)
    have "f = cached_cons q1 - cached_prod q1"
      using f by (auto simp: umem_nb_free_def Let_def split: if_splits)
    then have "cached_cons q2 - cached_prod q2 = f - of_nat (length xs)"
      by (simp add: q2_def)
    moreover have "unat (f - of_nat (length xs)) = unat f - length xs"
      using True len by (subst unat_sub) (simp_all only: word_le_nat_alt unat_of_nat_u32)
    ultimately have "unat (cached_cons q2 - cached_prod q2) \<le> capacity q - (?n + length xs)"
      using spec(4) by (simp add: free_slots_def same)
    then have "prod_inv q'"
      using ok1 pub cap by (simp add: prod_inv_def q' q2_def q1 capacity_def ring_ok_def)
    with fl cap r show ?thesis
      by (simp add: q' q2_def q1 capacity_def)
  qed
  then show "prod_inv q'" "capacity q' = capacity q" "consumer q' = consumer q"
    "r = (if length (in_flight q) + length xs \<le> capacity q then Inr () else Inl ENOSPC)"
    "map view (in_flight q')
       = map view (in_flight q) @ (if r = Inr () then map val xs else [])"
    by blast+
qed

lemma dequeue_spec:
  assumes inv: "cons_inv q" and n: "n < 2 ^ 32" and eq: "dequeue q n = (d, q')"
  shows "cons_inv q'" "length d \<le> n" "in_flight q = d @ in_flight q'"
    "d = [] \<longleftrightarrow> n = 0 \<or> in_flight q = []"
proof -
  obtain e q1 where e: "umem_nb_avail q (of_nat n) = (e, q1)"
    by fastforce
  note spec = nb_avail_spec [OF inv e]
  obtain cp where q1: "q1 = q\<lparr>cached_prod := cp\<rparr>"
    using spec(1) by auto
  define q2 where "q2 = q1\<lparr>cached_cons := cached_cons q1 + of_nat (unat e)\<rparr>"
  have cc: "consumer q = cached_cons q"
    using inv by (simp add: cons_inv_def)
  have d: "d = slots q (consumer q) (unat e)"
    using eq e by (simp add: dequeue_def consume_eq q1 cc slots_def)
  have q': "q' = q2\<lparr>consumer := cached_cons q2\<rparr>"
    using eq e by (auto simp: dequeue_def consume_eq q2_def q1 cc word_neq_0_conv [symmetric])
  show "length d \<le> n"
    using spec(4) n by (simp add: d unat_of_nat_u32)
  have zero: "of_nat n = (0::u32) \<longleftrightarrow> n = 0"
    using unat_0_iff [of "of_nat n :: u32"] n by (simp only: unat_of_nat_u32)
  have "d = [] \<longleftrightarrow> e = 0"
    by (simp add: d slots_def unsigned_eq_0_iff)
  then show "d = [] \<longleftrightarrow> n = 0 \<or> in_flight q = []"
    using spec(5) zero by (simp only:)
  have left: "unat (producer q - (consumer q + e)) = unat (producer q - consumer q) - unat e"
  proof -
    have "producer q - (consumer q + e) = (producer q - consumer q) - e" by simp
    moreover have "unat ((producer q - consumer q) - e) = unat (producer q - consumer q) - unat e"
      using spec(3) by (intro unat_sub) (simp add: word_le_nat_alt)
    ultimately show ?thesis by (simp only:)
  qed
  have "in_flight q = slots q (consumer q) (unat e + unat (producer q - (consumer q + e)))"
    using spec(3) by (simp add: in_flight_def left)
  also have "\<dots> = slots q (consumer q) (unat e)
      @ slots q (consumer q + of_nat (unat e)) (unat (producer q - (consumer q + e)))"
    by (rule slots_add)
  also have "\<dots> = d @ in_flight q'"
    by (simp add: d in_flight_def q' q2_def q1 cc slots_def)
  finally show fl: "in_flight q = d @ in_flight q'" .
  have avail: "e \<le> cached_prod q1 - cached_cons q1"
    using e by (auto simp: umem_nb_avail_def Let_def split: if_splits)
  have "unat (cached_prod q1 - (cached_cons q1 + e)) = unat (cached_prod q1 - cached_cons q1) - unat e"
  proof -
    have "cached_prod q1 - (cached_cons q1 + e) = (cached_prod q1 - cached_cons q1) - e" by simp
    moreover have "unat ((cached_prod q1 - cached_cons q1) - e)
        = unat (cached_prod q1 - cached_cons q1) - unat e"
      using avail by (rule unat_sub)
    ultimately show ?thesis by (simp only:)
  qed
  then show "cons_inv q'"
    using spec(2) left by (auto simp: cons_inv_def q' q2_def q1 capacity_def ring_ok_def cc)
qed

lemma xq_deq_eq:
  assumes inv: "cons_inv uq" and n: "n < 2 ^ 31"
  shows "xq_deq uq (int n) = (let (d, uq') = dequeue uq n in (int (length d), d, uq'))"
proof -
  obtain e uq1 where e: "umem_nb_avail uq (of_nat n) = (e, uq1)"
    by fastforce
  have "unat e < 2 ^ 31"
    using nb_avail_spec(4) [OF inv e] n by (simp add: unat_of_nat_u32)
  then have "sint e = int (unat e)"
    by (rule sint_eq_unat_u32)
  moreover have "0 < int (unat e) \<longleftrightarrow> 0 < e"
    by (simp only: of_nat_0_less_iff unat_gt_0 word_gt_0) blast
  ultimately show ?thesis
    using e by (simp only: xq_deq_def dequeue_def ring_simps consume_eq of_int_of_nat_eq
        Let_def prod.case nat_int length_slots)
qed

lemma xq_deq_count:
  "cons_inv uq \<Longrightarrow> n < 2 ^ 31 \<Longrightarrow> xq_deq uq (int n) = (rcvd, descs, uq') \<Longrightarrow>
   rcvd = int (length descs)"
  using xq_deq_eq [of uq n] by (auto simp: split_beta Let_def)

section \<open>Interfaces\<close>

text \<open>
  A bounded FIFO to produce into. \<open>pend\<close> is what the other side has yet to take, in the
  order it was put in; \<open>val\<close> is what an entry of the caller is to the other side.
\<close>

locale producer_fifo =
  fixes inv :: "'q \<Rightarrow> bool"
    and pend :: "'q \<Rightarrow> 'v list"
    and cap :: "'q \<Rightarrow> nat"
    and val :: "'x \<Rightarrow> 'v"
    and enq :: "'q \<Rightarrow> 'x list \<Rightarrow> unit sysres \<times> 'q"
  assumes pend_le: "inv q \<Longrightarrow> length (pend q) \<le> cap q"
    and enq_inv: "inv q \<Longrightarrow> length xs < 2 ^ 32 \<Longrightarrow> enq q xs = (r, q') \<Longrightarrow> inv q'"
    and enq_cap: "inv q \<Longrightarrow> length xs < 2 ^ 32 \<Longrightarrow> enq q xs = (r, q') \<Longrightarrow> cap q' = cap q"
    and enq_ret: "inv q \<Longrightarrow> length xs < 2 ^ 32 \<Longrightarrow> enq q xs = (r, q') \<Longrightarrow>
      r = (if length (pend q) + length xs \<le> cap q then Inr () else Inl ENOSPC)"
    and enq_pend: "inv q \<Longrightarrow> length xs < 2 ^ 32 \<Longrightarrow> enq q xs = (r, q') \<Longrightarrow>
      pend q' = pend q @ (if r = Inr () then map val xs else [])"
begin

lemma enq_fits:
  assumes "inv q" "length xs < 2 ^ 32" "length (pend q) + length xs \<le> cap q"
  obtains q' where "enq q xs = (Inr (), q')" "inv q'" "cap q' = cap q"
    "pend q' = pend q @ map val xs"
proof -
  obtain r q' where eq: "enq q xs = (r, q')" by fastforce
  from enq_ret [OF assms(1,2) eq] assms(3) have "r = Inr ()" by simp
  with eq enq_inv [OF assms(1,2) eq] enq_cap [OF assms(1,2) eq] enq_pend [OF assms(1,2) eq]
  show thesis by (intro that) auto
qed

end

text \<open>A FIFO to consume from: a call takes at most \<open>n\<close> entries off the front, and comes back
  empty-handed only if there are none.\<close>

locale consumer_fifo =
  fixes inv :: "'q \<Rightarrow> bool"
    and pend :: "'q \<Rightarrow> 'x list"
    and deq :: "'q \<Rightarrow> nat \<Rightarrow> 'x list \<times> 'q"
  assumes deq_inv: "inv q \<Longrightarrow> n < 2 ^ 31 \<Longrightarrow> deq q n = (d, q') \<Longrightarrow> inv q'"
    and deq_len: "inv q \<Longrightarrow> n < 2 ^ 31 \<Longrightarrow> deq q n = (d, q') \<Longrightarrow> length d \<le> n"
    and deq_pend: "inv q \<Longrightarrow> n < 2 ^ 31 \<Longrightarrow> deq q n = (d, q') \<Longrightarrow> pend q = d @ pend q'"
    and deq_progress: "inv q \<Longrightarrow> n < 2 ^ 31 \<Longrightarrow> deq q n = (d, q') \<Longrightarrow>
      d = [] \<longleftrightarrow> n = 0 \<or> pend q = []"

text \<open>Dequeuing batch after batch until a call comes back empty, with a bound on the calls.\<close>

primrec drain :: "('q \<Rightarrow> nat \<Rightarrow> 'x list \<times> 'q) \<Rightarrow> nat \<Rightarrow> nat \<Rightarrow> 'q \<Rightarrow> ('x list \<times> 'q) option" where
  "drain deq n 0 q = None"
| "drain deq n (Suc fuel) q =
     (case deq q n of
        ([], q') \<Rightarrow> Some ([], q')
      | (x # d, q') \<Rightarrow> map_option (\<lambda>(ds, q''). ((x # d) @ ds, q'')) (drain deq n fuel q'))"

context consumer_fifo
begin

lemma drain_all:
  assumes "inv q" "0 < n" "n < 2 ^ 31" "length (pend q) < fuel"
  shows "\<exists>q'. drain deq n fuel q = Some (pend q, q') \<and> pend q' = [] \<and> inv q'"
  using assms(1,4)
proof (induction fuel arbitrary: q)
  case 0
  then show ?case by simp
next
  case (Suc fuel)
  obtain d q1 where eq: "deq q n = (d, q1)" by fastforce
  have inv1: "inv q1" and split: "pend q = d @ pend q1"
    using deq_inv [OF Suc.prems(1) assms(3) eq] deq_pend [OF Suc.prems(1) assms(3) eq] by auto
  show ?case
  proof (cases d)
    case Nil
    with eq split inv1 deq_progress [OF Suc.prems(1) assms(3) eq] assms(2) show ?thesis by auto
  next
    case (Cons x xs)
    with split Suc.prems(2) have "length (pend q1) < fuel" by simp
    with Suc.IH [OF inv1] obtain q' where
      "drain deq n fuel q1 = Some (pend q1, q')" "pend q' = []" "inv q'" by blast
    with eq Cons split show ?thesis by simp
  qed
qed

end

section \<open>The rings provide the interfaces\<close>

definition desc_view :: "xdp_desc \<Rightarrow> u64 \<times> u32" where
  "desc_view d = (addr d, dlen d)"

definition tx_pending :: "xdp_uqueue \<Rightarrow> (u64 \<times> u32) list" where
  "tx_pending q = map desc_view (in_flight q)"

lemma in_flight_le: "prod_inv q \<Longrightarrow> length (in_flight q) \<le> capacity q"
  by (auto simp: prod_inv_def)

lemma enqueue_producer:
  assumes view: "\<And>x d. view (put x d) = val x"
    and enq: "\<And>q xs. length xs < 2 ^ 32 \<Longrightarrow> enq q xs = enqueue put q xs"
  shows "producer_fifo prod_inv (\<lambda>q. map view (in_flight q)) capacity val enq"
proof (unfold_locales, goal_cases)
  case (1 q)
  then show ?case by (simp only: length_map in_flight_le)
next
  case (2 q xs r q')
  then show ?case by (metis enq enqueue_spec(1) [where view = view and val = val] view)
next
  case (3 q xs r q')
  then show ?case by (metis enq enqueue_spec(2) [where view = view and val = val] view)
next
  case (4 q xs r q')
  then have "enqueue put q xs = (r, q')" by (simp only: enq)
  from enqueue_spec(4) [where view = view and val = val, OF 4(1,2) view this] show ?case by (simp only: length_map)
next
  case (5 q xs r q')
  then have "enqueue put q xs = (r, q')" by (simp only: enq)
  from enqueue_spec(5) [where view = view and val = val, OF 5(1,2) view this] show ?case .
qed

lemma dequeue_consumer:
  assumes deq: "\<And>q n. cons_inv q \<Longrightarrow> n < 2 ^ 31 \<Longrightarrow> deq q n = dequeue q n"
  shows "consumer_fifo cons_inv in_flight deq"
proof (unfold_locales, goal_cases)
  case (1 q n d q')
  then show ?case using dequeue_spec(1) [of q n d q'] by (simp add: deq)
next
  case (2 q n d q')
  then show ?case using dequeue_spec(2) [of q n d q'] by (simp add: deq)
next
  case (3 q n d q')
  then show ?case using dequeue_spec(3) [of q n d q'] by (simp add: deq)
next
  case (4 q n d q')
  then show ?case using dequeue_spec(4) [of q n d q'] by (simp add: deq del: length_in_flight)
qed

interpretation fill: producer_fifo prod_inv in_flight capacity "\<lambda>a. a" umem_fill_to_kernel
  using enqueue_producer [where view = "\<lambda>a. a" and val = "\<lambda>a. a" and put = "\<lambda>a _. a"
      and enq = umem_fill_to_kernel]
  by (simp add: umem_fill_to_kernel_eq)

interpretation fill_ex: producer_fifo prod_inv in_flight capacity addr umem_fill_to_kernel_ex
  using enqueue_producer [where view = "\<lambda>a. a" and val = addr and put = "\<lambda>desc _. addr desc"
      and enq = umem_fill_to_kernel_ex]
  by (simp add: umem_fill_to_kernel_ex_eq)

interpretation tx: producer_fifo prod_inv tx_pending capacity desc_view xq_enq
  using enqueue_producer [where view = desc_view and val = desc_view and enq = xq_enq
      and put = "\<lambda>desc r. r\<lparr>addr := addr desc, dlen := dlen desc\<rparr>"]
  by (simp add: xq_enq_eq tx_pending_def [abs_def] desc_view_def [abs_def])

interpretation compl: consumer_fifo cons_inv in_flight umem_complete_from_kernel
  by (rule dequeue_consumer) (simp add: umem_complete_from_kernel_eq)

interpretation rx: consumer_fifo cons_inv in_flight "\<lambda>q n. snd (xq_deq q (int n))"
  by (rule dequeue_consumer) (simp add: xq_deq_eq split_beta Let_def)

section \<open>The other side of a ring\<close>

text \<open>
  What the AF_XDP protocol lets the kernel do to a ring between two operations of the user:
  take entries off the front of a producing ring by advancing its consumer index, and add
  entries behind those in flight on a consuming ring by writing free slots and advancing its
  producer index. The cached indices, the mask and the size are private to the user.
\<close>

definition kernel_consumed :: "nat \<Rightarrow> 'd uqueue \<Rightarrow> 'd uqueue" where
  "kernel_consumed n q = q\<lparr>consumer := consumer q + of_nat n\<rparr>"

definition kernel_produced :: "'d list \<Rightarrow> 'd uqueue \<Rightarrow> 'd uqueue" where
  "kernel_produced ds q =
     q\<lparr>producer := producer q + of_nat (length ds),
       ring := ring (produce (\<lambda>d _. d) ds (q\<lparr>cached_prod := producer q\<rparr>))\<rparr>"

lemma kernel_consumed_spec:
  assumes inv: "prod_inv q" and n: "n \<le> length (in_flight q)"
  shows "prod_inv (kernel_consumed n q)"
    "in_flight (kernel_consumed n q) = drop n (in_flight q)"
    "capacity (kernel_consumed n q) = capacity q"
proof -
  let ?m = "unat (producer q - consumer q)"
  have lt: "?m < 2 ^ 32"
    using unsigned_less [of "producer q - consumer q", where 'a = nat] by simp
  have "unat (producer q - consumer q - of_nat n) = ?m - n"
    using n lt by (subst unat_sub) (simp_all add: word_le_nat_alt unat_of_nat_u32)
  moreover have "producer q - (consumer q + of_nat n) = producer q - consumer q - of_nat n"
    by simp
  ultimately have left: "unat (producer q - (consumer q + of_nat n)) = ?m - n"
    by (simp only:)
  have "slots q (consumer q) (n + (?m - n)) = slots q (consumer q) n @ slots q (consumer q + of_nat n) (?m - n)"
    by (rule slots_add)
  then show "in_flight (kernel_consumed n q) = drop n (in_flight q)"
    using n left by (simp add: in_flight_def kernel_consumed_def slots_def drop_map)
  show "prod_inv (kernel_consumed n q)"
    using inv n left by (auto simp: prod_inv_def kernel_consumed_def capacity_def ring_ok_def)
  show "capacity (kernel_consumed n q) = capacity q"
    by (simp add: kernel_consumed_def capacity_def)
qed

lemma kernel_produced_spec:
  assumes inv: "cons_inv q" and fits: "length (in_flight q) + length ds \<le> capacity q"
  shows "cons_inv (kernel_produced ds q)"
    "in_flight (kernel_produced ds q) = in_flight q @ ds"
    "capacity (kernel_produced ds q) = capacity q"
proof -
  let ?m = "unat (producer q - consumer q)"
  let ?q = "q\<lparr>cached_prod := producer q\<rparr>"
  have small: "?m + length ds < 2 ^ 32"
    using fits unsigned_less [of "qsize q", where 'a = nat] by (simp add: capacity_def)
  have "producer q + of_nat (length ds) - consumer q = of_nat (?m + length ds)"
    by simp
  then have new: "unat (producer q + of_nat (length ds) - consumer q) = ?m + length ds"
    using small by (simp only: unat_of_nat_u32)
  have "ring_ok ?q" and cap: "capacity ?q = capacity q"
    using inv by (simp_all add: cons_inv_def ring_ok_def capacity_def)
  then have "map (\<lambda>d. d) (slots (produce (\<lambda>d _. d) ds ?q) (consumer q) (?m + length ds))
      = map (\<lambda>d. d) (slots ?q (consumer q) ?m) @ map (\<lambda>d. d) ds"
    using fits by (intro produce_slots) simp_all
  then show "in_flight (kernel_produced ds q) = in_flight q @ ds"
    using new by (simp add: in_flight_def kernel_produced_def slots_def)
  show "cons_inv (kernel_produced ds q)"
    using inv new fits by (auto simp: cons_inv_def kernel_produced_def capacity_def ring_ok_def)
  show "capacity (kernel_produced ds q) = capacity q"
    by (simp add: kernel_produced_def capacity_def)
qed

section \<open>Both sides together\<close>

text \<open>
  Runs of a TX ring: the user enqueues batches, the kernel takes entries off at any moment.
  The two lists record what was accepted from the user and what the kernel took.
\<close>

inductive tx_run :: "xdp_uqueue \<Rightarrow> (u64 \<times> u32) list \<Rightarrow> (u64 \<times> u32) list \<Rightarrow> bool" where
  tx_start: "prod_inv q \<Longrightarrow> in_flight q = [] \<Longrightarrow> tx_run q [] []"
| tx_accepted: "tx_run q sent taken \<Longrightarrow> length ds < 2 ^ 32 \<Longrightarrow> xq_enq q ds = (Inr (), q') \<Longrightarrow>
    tx_run q' (sent @ map desc_view ds) taken"
| tx_refused: "tx_run q sent taken \<Longrightarrow> length ds < 2 ^ 32 \<Longrightarrow> xq_enq q ds = (Inl e, q') \<Longrightarrow>
    tx_run q' sent taken"
| tx_taken: "tx_run q sent taken \<Longrightarrow> n \<le> length (in_flight q) \<Longrightarrow>
    tx_run (kernel_consumed n q) sent (taken @ take n (tx_pending q))"

text \<open>Runs of an RX ring: the kernel delivers descriptors into free slots, the user dequeues
  batches of at most \<open>n\<close>.\<close>

inductive rx_run :: "xdp_uqueue \<Rightarrow> xdp_desc list \<Rightarrow> xdp_desc list \<Rightarrow> bool" where
  rx_start: "cons_inv q \<Longrightarrow> in_flight q = [] \<Longrightarrow> rx_run q [] []"
| rx_delivered: "rx_run q given got \<Longrightarrow> length (in_flight q) + length ds \<le> capacity q \<Longrightarrow>
    rx_run (kernel_produced ds q) (given @ ds) got"
| rx_dequeued: "rx_run q given got \<Longrightarrow> n < 2 ^ 31 \<Longrightarrow> xq_deq q (int n) = (rcvd, ds, q') \<Longrightarrow>
    rx_run q' given (got @ ds)"

lemma length_tx_pending [simp]: "length (tx_pending q) = unat (producer q - consumer q)"
  by (simp add: tx_pending_def)

lemma tx_run_inv: "tx_run q sent taken \<Longrightarrow> prod_inv q \<and> sent = taken @ tx_pending q"
proof (induction rule: tx_run.induct)
  case (tx_start q)
  then show ?case by (simp add: tx_pending_def)
next
  case (tx_accepted q sent taken ds q')
  then show ?case using tx.enq_inv tx.enq_pend [of q ds "Inr ()" q'] by auto
next
  case (tx_refused q sent taken ds e q')
  then show ?case using tx.enq_inv tx.enq_pend [of q ds "Inl e" q'] by auto
next
  case (tx_taken q sent taken n)
  then show ?case
    using kernel_consumed_spec [of q n] by (simp add: tx_pending_def take_map drop_map
        append_take_drop_id flip: map_append)
qed

lemma rx_run_inv: "rx_run q given got \<Longrightarrow> cons_inv q \<and> given = got @ in_flight q"
proof (induction rule: rx_run.induct)
  case (rx_start q)
  then show ?case by simp
next
  case (rx_delivered q given got ds)
  then show ?case using kernel_produced_spec [of q ds] by simp
next
  case (rx_dequeued q given got n rcvd ds q')
  then have "snd (xq_deq q (int n)) = (ds, q')" by simp
  then show ?case
    using rx_dequeued rx.deq_inv [of q n ds q'] rx.deq_pend [of q n ds q'] by simp
qed

section \<open>Properties\<close>

text \<open>A ring of two slots for the witnesses, its indices about to wrap around.\<close>

definition ring2 :: "'d \<Rightarrow> 'd uqueue" where
  "ring2 d = \<lparr>cached_prod = 0, cached_cons = 0, qmask = 1, qsize = 2, producer = 0,
              consumer = 0, ring = [d, d]\<rparr>"

definition wrapped :: "'d \<Rightarrow> 'd uqueue" where
  "wrapped d = (ring2 d)\<lparr>cached_prod := - 1, cached_cons := - 1, producer := - 1, consumer := - 1\<rparr>"

definition desc0 :: xdp_desc where "desc0 = \<lparr>addr = 0, dlen = 0, options = 0\<rparr>"

lemma ring2_ok: "ring_ok (ring2 d)" "ring_ok (wrapped d)"
  by (auto simp: ring_ok_def ring2_def wrapped_def intro!: exI [of _ "1::nat"])

lemma ring2_inv: "prod_inv (ring2 d)" "prod_inv (wrapped d)" "cons_inv (ring2 d)" "cons_inv (wrapped d)"
  using ring2_ok [of d] by (simp_all add: prod_inv_def cons_inv_def ring2_def wrapped_def)

lemma ring2_empty: "in_flight (ring2 d) = []" "in_flight (wrapped d) = []"
  by (simp_all add: in_flight_def ring2_def wrapped_def)

lemma ring2_capacity: "capacity (ring2 d) = 2" "capacity (wrapped d) = 2"
  by (simp_all add: capacity_def ring2_def wrapped_def)

text \<open>
  \<open>xq_enq\<close> refines a bounded append: on a TX ring between operations it succeeds exactly
  when the batch fits into the free slots, then the address and length of every descriptor
  are in flight, in order, behind what was there; otherwise it returns \<open>ENOSPC\<close> and nothing in
  flight changes. The ring stays well formed either way, at every value of the 32-bit indices.
\<close>

theorem xq_enq_appends:
  assumes "prod_inv uq" and "length descs < 2 ^ 32" and "xq_enq uq descs = (r, uq')"
  shows "prod_inv uq' \<and> capacity uq' = capacity uq
    \<and> r = (if length (tx_pending uq) + length descs \<le> capacity uq then Inr () else Inl ENOSPC)
    \<and> tx_pending uq' = tx_pending uq @ (if r = Inr () then map desc_view descs else [])"
  using tx.enq_inv [OF assms] tx.enq_cap [OF assms] tx.enq_ret [OF assms] tx.enq_pend [OF assms]
  by simp

theorem xq_enq_appends_witness:
  "tx_pending (snd (xq_enq (wrapped desc0) [desc0, desc0])) = [(0, 0), (0, 0)]
   \<and> fst (xq_enq (wrapped desc0) [desc0, desc0, desc0]) = Inl ENOSPC"
  using xq_enq_appends [OF ring2_inv(2), of "[desc0, desc0]" desc0 "fst (xq_enq (wrapped desc0) [desc0, desc0])"
      "snd (xq_enq (wrapped desc0) [desc0, desc0])"]
    xq_enq_appends [OF ring2_inv(2), of "[desc0, desc0, desc0]" desc0
      "fst (xq_enq (wrapped desc0) [desc0, desc0, desc0])"
      "snd (xq_enq (wrapped desc0) [desc0, desc0, desc0])"]
  by (simp add: tx_pending_def ring2_empty ring2_capacity desc_view_def desc0_def)

text \<open>
  \<open>xq_deq\<close> refines taking from the front: on an RX ring it returns as many descriptors as
  it says, at most \<open>ndescs\<close>, and they are the oldest ones in flight in their order; the rest
  stays in flight. It returns none only if none was asked for or none is in flight, although
  it looks at the shared index only when its cached copy says empty.
\<close>

theorem xq_deq_takes_front:
  assumes "cons_inv uq" and "n < 2 ^ 31" and "xq_deq uq (int n) = (rcvd, descs, uq')"
  shows "cons_inv uq' \<and> rcvd = int (length descs) \<and> length descs \<le> n
    \<and> in_flight uq = descs @ in_flight uq'
    \<and> (rcvd = 0 \<longleftrightarrow> n = 0 \<or> in_flight uq = [])"
proof -
  have eq: "snd (xq_deq uq (int n)) = (descs, uq')" using assms(3) by simp
  have "rcvd = int (length descs)"
    using assms by (rule xq_deq_count)
  with rx.deq_inv [OF assms(1,2) eq] rx.deq_len [OF assms(1,2) eq] rx.deq_pend [OF assms(1,2) eq]
    rx.deq_progress [OF assms(1,2) eq]
  show ?thesis by auto
qed

text \<open>
  The four fields the loops index through stay in bounds: for a well-formed ring every
  slot an operation addresses, \<open>index & mask\<close> for any 32-bit index, is one of the ring's
  slots, and the loops move the cached index by exactly the number of entries they copy and
  leave the ring's length alone.
\<close>

theorem ring_accesses_in_bounds:
  assumes "ring_ok q"
  shows "unat (x AND qmask q) < length (ring q)
    \<and> length (ring (produce put xs q)) = length (ring q)
    \<and> cached_prod (produce put xs q) = cached_prod q + of_nat (length xs)
    \<and> fst (consume n q) = map (\<lambda>i. ring q ! unat ((cached_cons q + of_nat i) AND qmask q)) [0..<n]
    \<and> snd (consume n q) = q\<lparr>cached_cons := cached_cons q + of_nat n\<rparr>"
  using slot_in_bounds [OF assms] by (simp add: consume_eq slots_def)

theorem ring_accesses_in_bounds_witness:
  "unat ((- 1) AND qmask (ring2 desc0)) < length (ring (ring2 desc0))"
  using ring_accesses_in_bounds [OF ring2_ok(1) [of desc0], of "- 1" "\<lambda>_ d. d" "[]::nat list" 0]
  by blast

text \<open>
  (C2) Nothing is lost, duplicated or reordered on the way to the kernel: in every run of a TX
  ring, whatever batches the user enqueues (accepted or refused) and whenever the kernel takes
  entries, the accepted descriptors are exactly those the kernel took followed by those still
  in flight.
\<close>

theorem tx_run_fifo: "tx_run q sent taken \<Longrightarrow> sent = taken @ tx_pending q"
  using tx_run_inv by blast

theorem tx_run_fifo_witness:
  "[(0, 0)] = [] @ tx_pending (snd (xq_enq (ring2 desc0) [desc0]))"
proof -
  obtain q' where q': "xq_enq (ring2 desc0) [desc0] = (Inr (), q')"
    by (rule tx.enq_fits [OF ring2_inv(1), of "[desc0]" desc0])
      (auto simp: tx_pending_def ring2_empty ring2_capacity)
  have "tx_run (ring2 desc0) [] []"
    by (rule tx_run.tx_start [OF ring2_inv(1) ring2_empty(1)])
  then have "tx_run q' ([] @ map desc_view [desc0]) []"
    by (rule tx_run.tx_accepted) (simp_all add: q')
  from tx_run_fifo [OF this] q' show ?thesis by (simp add: desc_view_def desc0_def)
qed

text \<open>
  (C3) Nothing is lost, duplicated or reordered on the way from the kernel: in every run of an
  RX ring the descriptors the kernel delivered are exactly those the user received followed
  by those still in flight.
\<close>

theorem rx_run_fifo: "rx_run q given got \<Longrightarrow> given = got @ in_flight q"
  using rx_run_inv by blast

theorem rx_run_fifo_witness:
  "[desc0] = [] @ in_flight (kernel_produced [desc0] (ring2 desc0))"
proof -
  have "rx_run (ring2 desc0) [] []"
    by (rule rx_run.rx_start [OF ring2_inv(3) ring2_empty(1)])
  then have "rx_run (kernel_produced [desc0] (ring2 desc0)) ([] @ [desc0]) []"
    by (rule rx_run.rx_delivered) (simp only: ring2_empty ring2_capacity, simp)
  from rx_run_fifo [OF this] show ?thesis by simp
qed

theorem xq_deq_takes_front_witness:
  "fst (xq_deq (kernel_produced [desc0] (wrapped desc0)) (int 16)) = 1"
proof -
  let ?q = "kernel_produced [desc0] (wrapped desc0)"
  have q: "cons_inv ?q" "in_flight ?q = [desc0]"
    using kernel_produced_spec [where q = "wrapped desc0" and ds = "[desc0]", OF ring2_inv(4)]
    by (simp_all only: ring2_empty ring2_capacity) simp_all
  obtain r ds q' where eq: "xq_deq ?q (int 16) = (r, ds, q')" by (metis prod_cases3)
  from xq_deq_takes_front [OF q(1) _ eq] q(2)
  have "r = int (length ds)" "[desc0] = ds @ in_flight q'" "r \<noteq> 0" by auto
  then have "length ds = 1"
    by (cases ds) auto
  with eq \<open>r = int (length ds)\<close> show ?thesis by simp
qed

text \<open>
  Draining terminates: repeated \<open>umem_complete_from_kernel\<close> calls of any batch size
  return every completed address in order and then come back empty, after at most one call
  more than there are completions in flight.
\<close>

theorem completion_drain:
  assumes "cons_inv cq" and "0 < n" and "n < 2 ^ 31" and "length (in_flight cq) < fuel"
  shows "\<exists>cq'. drain umem_complete_from_kernel n fuel cq = Some (in_flight cq, cq')
    \<and> in_flight cq' = []"
  using compl.drain_all [OF assms] by blast

theorem completion_drain_witness:
  "\<exists>cq'. drain umem_complete_from_kernel 16 1 (ring2 0) = Some ([], cq') \<and> in_flight cq' = []"
  using completion_drain [OF ring2_inv(3), of 16 0 1] by (simp only: ring2_empty) simp

text \<open>
  Returning frames: \<open>umem_fill_to_kernel_ex\<close> puts the addresses of the received
  descriptors on the fill ring in their order, exactly when they all fit, and refuses with
  \<open>ENOSPC\<close> without changing what is in flight otherwise; \<open>umem_fill_to_kernel\<close> does the same
  with plain addresses.
\<close>

theorem fill_returns_frames:
  assumes "prod_inv fq" and "length d < 2 ^ 32"
  shows "fst (umem_fill_to_kernel_ex fq d)
      = (if length (in_flight fq) + length d \<le> capacity fq then Inr () else Inl ENOSPC)
    \<and> in_flight (snd (umem_fill_to_kernel_ex fq d))
      = in_flight fq @ (if length (in_flight fq) + length d \<le> capacity fq then map addr d else [])
    \<and> umem_fill_to_kernel fq (map addr d) = umem_fill_to_kernel_ex fq d"
proof -
  obtain r fq' where eq: "umem_fill_to_kernel_ex fq d = (r, fq')" by fastforce
  have loops: "produce (\<lambda>a _. a) (map addr d) q = produce (\<lambda>desc _. addr desc) d q" for q
    by (induction d arbitrary: q) (simp_all add: Let_def)
  have "umem_fill_to_kernel fq (map addr d) = umem_fill_to_kernel_ex fq d"
    by (simp add: umem_fill_to_kernel_def umem_fill_to_kernel_ex_def loops split: prod.split)
  with fill_ex.enq_ret [OF assms eq] fill_ex.enq_pend [OF assms eq] eq show ?thesis
    by (simp del: length_in_flight)
qed

theorem fill_returns_frames_witness:
  "in_flight (snd (umem_fill_to_kernel_ex (wrapped 0) [desc0, desc0])) = [0, 0]"
  using fill_returns_frames [OF ring2_inv(2), of "[desc0, desc0]" 0]
  by (simp only: ring2_empty ring2_capacity) (simp add: desc0_def)

end
