(* ===== verification/Xdp_Sock.thy ===== *)
theory Xdp_Sock
  imports Xdp_Fifo
begin

text \<open>
  The benchmark program xdpsock_user.c: packet memory (UMEM), the socket with its four rings,
  the completion handlers, and one pass of each of the three benchmark loops (rxdrop, txonly,
  l2fwd). With \<open>RR_LB\<close> 0 (xdpsock.h) there is one socket and its UMEM is not shared, so the
  UMEM is part of the socket's record. The process ends when an \<open>lassert\<close> fails; that is a value
  of \<open>abort\<close>. What a system call returns is an argument, and what the kernel does to the shared
  rings while the call runs is the argument \<open>env\<close>.
\<close>

section \<open>Constants and data\<close>

definition NUM_FRAMES :: nat where "NUM_FRAMES = 131072"
definition NUM_DESCS :: nat where "NUM_DESCS = 1024"
definition FQ_NUM_DESCS :: nat where "FQ_NUM_DESCS = 1024"
definition CQ_NUM_DESCS :: nat where "CQ_NUM_DESCS = 1024"
definition BATCH_SIZE :: nat where "BATCH_SIZE = 16"

text \<open>UMEM is a map from byte offset to byte; the program owns \<open>NUM_FRAMES * FRAME_SIZE\<close> of
  them.\<close>

type_synonym memory = "nat \<Rightarrow> u8"

definition read_bytes :: "memory \<Rightarrow> nat \<Rightarrow> nat \<Rightarrow> u8 list" where
  "read_bytes m a n = map (\<lambda>i. m (a + i)) [0..<n]"

definition write_bytes :: "memory \<Rightarrow> nat \<Rightarrow> u8 list \<Rightarrow> memory" where
  "write_bytes m a bs = (\<lambda>i. if a \<le> i \<and> i < a + length bs then bs ! (i - a) else m i)"

record xdp_umem =
  frames :: memory
  fq :: xdp_umem_uqueue
  cq :: xdp_umem_uqueue
  ufd :: int

record xdpsock =
  rx :: xdp_uqueue
  tx :: xdp_uqueue
  sfd :: int
  umem :: xdp_umem
  outstanding_tx :: u32
  rx_npkts :: u64
  tx_npkts :: u64
  prev_rx_npkts :: u64
  prev_tx_npkts :: u64

datatype abort = LAssert string

type_synonym 'a run = "abort + 'a"

section \<open>Packets\<close>

definition pkt_data :: "u8 list" where
  "pkt_data =
    [0x3c, 0xfd, 0xfe, 0x9e, 0x7f, 0x71, 0xec, 0xb1, 0xd7, 0x98, 0x3a, 0xc0, 0x08, 0x00, 0x45, 0x00,
     0x00, 0x2e, 0x00, 0x00, 0x00, 0x00, 0x40, 0x11, 0x88, 0x97, 0x05, 0x08, 0x07, 0x08, 0xc8, 0x14,
     0x1e, 0x04, 0x10, 0x92, 0x10, 0x92, 0x00, 0x1a, 0x6d, 0xa3, 0x34, 0x33, 0x1f, 0x69, 0x40, 0x6b,
     0x54, 0x59, 0xb6, 0x14, 0x2d, 0x11, 0x44, 0xbf, 0xaf, 0xd9, 0xbe, 0xaa]"

definition gen_eth_frame :: "memory \<Rightarrow> nat \<Rightarrow> memory \<times> nat" where
  "gen_eth_frame m frame = (write_bytes m frame pkt_data, length pkt_data)"

text \<open>\<open>struct ether_header\<close>: six bytes destination, six bytes source, two bytes type.\<close>

definition swap_mac_addresses :: "memory \<Rightarrow> nat \<Rightarrow> memory" where
  "swap_mac_addresses m data =
     (let tmp = read_bytes m (data + 6) 6;
          m = write_bytes m (data + 6) (read_bytes m data 6)
      in write_bytes m data tmp)"

definition xq_get_data :: "xdpsock \<Rightarrow> u64 \<Rightarrow> nat" where
  "xq_get_data xsk a = unat a"

section \<open>Transmit completion\<close>

definition kick_tx :: "nat sysres \<Rightarrow> unit run" where
  "kick_tx ret = (case ret of
      Inr _ \<Rightarrow> Inr ()
    | Inl e \<Rightarrow> if e = ENOBUFS \<or> e = EAGAIN \<or> e = EBUSY then Inr () else Inl (LAssert ''kick_tx''))"

definition complete_tx_l2fwd ::
  "nat sysres \<Rightarrow> (xdpsock \<Rightarrow> xdpsock) \<Rightarrow> xdpsock \<Rightarrow> xdpsock run" where
  "complete_tx_l2fwd sent env xsk =
     (if outstanding_tx xsk = 0 then Inr xsk
      else case kick_tx sent of Inl a \<Rightarrow> Inl a | Inr _ \<Rightarrow>
        let xsk = env xsk;
            ndescs = (if outstanding_tx xsk > of_nat BATCH_SIZE then of_nat BATCH_SIZE
                      else outstanding_tx xsk);
            (descs, cq') = umem_complete_from_kernel (cq (umem xsk)) (unat ndescs);
            rcvd = length descs;
            xsk = xsk\<lparr>umem := (umem xsk)\<lparr>cq := cq'\<rparr>\<rparr>
        in if rcvd > 0 then
             let (_, fq') = umem_fill_to_kernel (fq (umem xsk)) descs
             in Inr (xsk\<lparr>umem := (umem xsk)\<lparr>fq := fq'\<rparr>,
                         outstanding_tx := outstanding_tx xsk - of_nat rcvd,
                         tx_npkts := tx_npkts xsk + of_nat rcvd\<rparr>)
           else Inr xsk)"

definition complete_tx_only ::
  "nat sysres \<Rightarrow> (xdpsock \<Rightarrow> xdpsock) \<Rightarrow> xdpsock \<Rightarrow> xdpsock run" where
  "complete_tx_only sent env xsk =
     (if outstanding_tx xsk = 0 then Inr xsk
      else case kick_tx sent of Inl a \<Rightarrow> Inl a | Inr _ \<Rightarrow>
        let xsk = env xsk;
            (descs, cq') = umem_complete_from_kernel (cq (umem xsk)) BATCH_SIZE;
            rcvd = length descs;
            xsk = xsk\<lparr>umem := (umem xsk)\<lparr>cq := cq'\<rparr>\<rparr>
        in if rcvd > 0 then
             Inr (xsk\<lparr>outstanding_tx := outstanding_tx xsk - of_nat rcvd,
                      tx_npkts := tx_npkts xsk + of_nat rcvd\<rparr>)
           else Inr xsk)"

section \<open>The three benchmarks\<close>

text \<open>\<open>hex_dump\<close> returns at once: \<open>DEBUG_HEXDUMP\<close> is 0 in this program.\<close>

definition rx_drop :: "xdpsock \<Rightarrow> xdpsock" where
  "rx_drop xsk =
     (let (rcvd, descs, rx') = xq_deq (rx xsk) (int BATCH_SIZE);
          xsk = xsk\<lparr>rx := rx'\<rparr>
      in if rcvd = 0 then xsk
         else let xsk = xsk\<lparr>rx_npkts := rx_npkts xsk + word_of_int rcvd\<rparr>;
                  (_, fq') = umem_fill_to_kernel_ex (fq (umem xsk)) descs
              in xsk\<lparr>umem := (umem xsk)\<lparr>fq := fq'\<rparr>\<rparr>)"

text \<open>One pass of the endless loop of \<open>rx_drop_all\<close>, given whether \<open>opt_poll\<close> is set and what
  \<open>poll\<close> returns.\<close>

definition rx_drop_all_pass :: "bool \<Rightarrow> int \<Rightarrow> xdpsock list \<Rightarrow> xdpsock list" where
  "rx_drop_all_pass opt_poll ret xsks =
     (if opt_poll \<and> ret \<le> 0 then xsks else map rx_drop xsks)"

text \<open>One pass of \<open>tx_only\<close>; \<open>fds_fd\<close> and \<open>pollout\<close> are the descriptor and the \<open>POLLOUT\<close> bit
  that \<open>poll\<close> leaves in \<open>fds[0]\<close>.\<close>

definition tx_only_pass ::
  "bool \<Rightarrow> int \<Rightarrow> int \<Rightarrow> bool \<Rightarrow> nat sysres \<Rightarrow> (xdpsock \<Rightarrow> xdpsock) \<Rightarrow> xdpsock \<times> u32
     \<Rightarrow> (xdpsock \<times> u32) run" where
  "tx_only_pass opt_poll ret fds_fd pollout sent env = (\<lambda>(xsk, idx).
     if opt_poll \<and> (ret \<le> 0 \<or> fds_fd \<noteq> sfd xsk \<or> \<not> pollout) then Inr (xsk, idx)
     else
       let (free, tx') = xq_nb_free (tx xsk) (of_nat BATCH_SIZE);
           xsk = xsk\<lparr>tx := tx'\<rparr>
       in case (if free \<ge> of_nat BATCH_SIZE then
                  case xq_enq_tx_only (tx xsk) idx (of_nat BATCH_SIZE) of
                    (Inl _, _) \<Rightarrow> Inl (LAssert ''tx_only'')
                  | (Inr _, tx') \<Rightarrow>
                      Inr (xsk\<lparr>tx := tx',
                               outstanding_tx := outstanding_tx xsk + of_nat BATCH_SIZE\<rparr>,
                           (idx + of_nat BATCH_SIZE) mod of_nat NUM_FRAMES)
                else Inr (xsk, idx)) of
            Inl a \<Rightarrow> Inl a
          | Inr (xsk, idx) \<Rightarrow>
              (case complete_tx_only sent env xsk of Inl a \<Rightarrow> Inl a | Inr xsk \<Rightarrow> Inr (xsk, idx)))"

primrec swap_all :: "xdpsock \<Rightarrow> xdp_desc list \<Rightarrow> xdpsock" where
  "swap_all xsk [] = xsk"
| "swap_all xsk (d # ds) =
     (let pkt = xq_get_data xsk (addr d)
      in swap_all (xsk\<lparr>umem := (umem xsk)\<lparr>frames := swap_mac_addresses (frames (umem xsk)) pkt\<rparr>\<rparr>) ds)"

text \<open>
  \<open>l2fwd\<close> loops for ever: the inner loop completes transmissions and dequeues until something
  was received; then the received frames are forwarded and the inner loop starts over. One
  pass is one round of the inner loop with the forwarding, if the round ends it.
\<close>

definition l2fwd_pass ::
  "nat sysres \<Rightarrow> (xdpsock \<Rightarrow> xdpsock) \<Rightarrow> xdpsock \<Rightarrow> xdpsock run" where
  "l2fwd_pass sent env xsk =
     (case complete_tx_l2fwd sent env xsk of Inl a \<Rightarrow> Inl a | Inr xsk \<Rightarrow>
        let (rcvd, descs, rx') = xq_deq (rx xsk) (int BATCH_SIZE);
            xsk = xsk\<lparr>rx := rx'\<rparr>
        in if rcvd > 0 then
             let xsk = swap_all xsk descs;
                 xsk = xsk\<lparr>rx_npkts := rx_npkts xsk + word_of_int rcvd\<rparr>
             in case xq_enq (tx xsk) descs of
                  (Inl _, _) \<Rightarrow> Inl (LAssert ''l2fwd'')
                | (Inr _, tx') \<Rightarrow>
                    Inr (xsk\<lparr>tx := tx', outstanding_tx := outstanding_tx xsk + word_of_int rcvd\<rparr>)
           else Inr xsk)"

end
