(* ===== verification/Xdp_Setup.thy ===== *)
theory Xdp_Setup
  imports Xdp_Sock
begin

text \<open>
  Setting a socket up: \<open>xdp_umem_configure\<close> and \<open>xsk_configure\<close> of xdpsock_user.c. Each
  operation the code wraps in \<open>lassert\<close> is a value of \<open>xsk_call\<close>; \<open>ok\<close> says whether it
  succeeds, and the result is the first one that did not, or the socket. A \<open>mapping\<close> is what
  \<open>mmap\<close> returns: the two shared indices and the entry array behind the offsets the kernel
  reports.
\<close>

datatype xsk_call =
    CallocUmem
  | PosixMemalign nat
  | SetUmemReg nat nat nat
  | SetFillRing nat
  | SetCompletionRing nat
  | GetUmemOffsets
  | MmapFillRing nat
  | MmapCompletionRing nat
  | SocketXdp
  | CallocXsk
  | SetRxRing nat
  | SetTxRing nat
  | GetXskOffsets
  | MmapRxRing nat
  | FillFrame u64
  | MmapTxRing nat
  | BindXdp int int nat "int option"

record 'd mapping =
  m_producer :: u32
  m_consumer :: u32
  m_ring :: "'d list"

definition lassert_ok :: "(xsk_call \<Rightarrow> bool) \<Rightarrow> xsk_call \<Rightarrow> (xsk_call + 'a) \<Rightarrow> xsk_call + 'a" where
  "lassert_ok ok c k = (if ok c then k else Inl c)"

definition FRAME_HEADROOM :: nat where "FRAME_HEADROOM = 0"
definition XDP_SHARED_UMEM :: nat where "XDP_SHARED_UMEM = 1"

datatype benchmark_type = BENCH_RXDROP | BENCH_TXONLY | BENCH_L2FWD

definition gen_frames :: "memory \<Rightarrow> memory" where
  "gen_frames bufs =
     fold (\<lambda>i m. fst (gen_eth_frame m (i * FRAME_SIZE))) [0..<NUM_FRAMES] bufs"

definition xdp_umem_configure ::
  "(xsk_call \<Rightarrow> bool) \<Rightarrow> benchmark_type \<Rightarrow> memory \<Rightarrow> u64 mapping \<Rightarrow> u64 mapping \<Rightarrow> int
     \<Rightarrow> xsk_call + xdp_umem" where
  "xdp_umem_configure ok opt_bench bufs fqm cqm fd =
     lassert_ok ok CallocUmem (
     lassert_ok ok (PosixMemalign (NUM_FRAMES * FRAME_SIZE)) (
     lassert_ok ok (SetUmemReg (NUM_FRAMES * FRAME_SIZE) FRAME_SIZE FRAME_HEADROOM) (
     lassert_ok ok (SetFillRing FQ_NUM_DESCS) (
     lassert_ok ok (SetCompletionRing CQ_NUM_DESCS) (
     lassert_ok ok GetUmemOffsets (
     lassert_ok ok (MmapFillRing FQ_NUM_DESCS) (
     let fq = \<lparr>cached_prod = 0, cached_cons = of_nat FQ_NUM_DESCS,
               qmask = of_nat FQ_NUM_DESCS - 1, qsize = of_nat FQ_NUM_DESCS,
               producer = m_producer fqm, consumer = m_consumer fqm, ring = m_ring fqm\<rparr> in
     lassert_ok ok (MmapCompletionRing CQ_NUM_DESCS) (
     let cq = \<lparr>cached_prod = 0, cached_cons = 0,
               qmask = of_nat CQ_NUM_DESCS - 1, qsize = of_nat CQ_NUM_DESCS,
               producer = m_producer cqm, consumer = m_consumer cqm, ring = m_ring cqm\<rparr>
     in Inr \<lparr>frames = (if opt_bench = BENCH_TXONLY then gen_frames bufs else bufs),
             fq = fq, cq = cq, ufd = fd\<rparr>))))))))"

text \<open>\<open>for (i = 0; i < NUM_DESCS * FRAME_SIZE; i += FRAME_SIZE)\<close>: the addresses handed to the
  fill ring, one call each.\<close>

primrec fill_frames :: "u64 list \<Rightarrow> xdp_umem_uqueue \<Rightarrow> xsk_call + xdp_umem_uqueue" where
  "fill_frames [] q = Inr q"
| "fill_frames (i # is) q =
     (case umem_fill_to_kernel q [i] of
        (Inr _, q') \<Rightarrow> fill_frames is q'
      | (Inl _, q') \<Rightarrow> Inl (FillFrame i))"

definition fill_addrs :: "nat \<Rightarrow> u64 list" where
  "fill_addrs n = map (\<lambda>k. of_nat (k * FRAME_SIZE)) [0..<n]"

definition xsk_configure ::
  "(xsk_call \<Rightarrow> bool) \<Rightarrow> benchmark_type \<Rightarrow> int \<Rightarrow> int \<Rightarrow> nat \<Rightarrow> memory
     \<Rightarrow> u64 mapping \<Rightarrow> u64 mapping \<Rightarrow> xdp_desc mapping \<Rightarrow> xdp_desc mapping
     \<Rightarrow> int \<Rightarrow> xdp_umem option \<Rightarrow> xsk_call + xdpsock" where
  "xsk_configure ok opt_bench opt_ifindex opt_queue opt_xdp_bind_flags bufs fqm cqm rxm txm fd umem_arg =
     lassert_ok ok SocketXdp (
     lassert_ok ok CallocXsk (
     case (case umem_arg of None \<Rightarrow> xdp_umem_configure ok opt_bench bufs fqm cqm fd
           | Some u \<Rightarrow> Inr u) of Inl c \<Rightarrow> Inl c | Inr um \<Rightarrow>
     lassert_ok ok (SetRxRing NUM_DESCS) (
     lassert_ok ok (SetTxRing NUM_DESCS) (
     lassert_ok ok GetXskOffsets (
     lassert_ok ok (MmapRxRing NUM_DESCS) (
     case (if umem_arg = None then fill_frames (fill_addrs NUM_DESCS) (fq um) else Inr (fq um)) of
       Inl c \<Rightarrow> Inl c | Inr fq' \<Rightarrow>
     let um = um\<lparr>fq := fq'\<rparr> in
     lassert_ok ok (MmapTxRing NUM_DESCS) (
     let rx = \<lparr>cached_prod = 0, cached_cons = 0,
               qmask = of_nat NUM_DESCS - 1, qsize = of_nat NUM_DESCS,
               producer = m_producer rxm, consumer = m_consumer rxm, ring = m_ring rxm\<rparr>;
         tx = \<lparr>cached_prod = 0, cached_cons = of_nat NUM_DESCS,
               qmask = of_nat NUM_DESCS - 1, qsize = of_nat NUM_DESCS,
               producer = m_producer txm, consumer = m_consumer txm, ring = m_ring txm\<rparr>
     in lassert_ok ok
          (case umem_arg of
             Some u \<Rightarrow> BindXdp opt_ifindex opt_queue XDP_SHARED_UMEM (Some (ufd u))
           | None \<Rightarrow> BindXdp opt_ifindex opt_queue opt_xdp_bind_flags None)
          (Inr \<lparr>rx = rx, tx = tx, sfd = fd, umem = um, outstanding_tx = 0,
                rx_npkts = 0, tx_npkts = 0, prev_rx_npkts = 0, prev_tx_npkts = 0\<rparr>))))))))"

section \<open>The fill loop\<close>

text \<open>A fresh mapping of \<open>n\<close> entries, as the kernel hands one out: both indices zero.\<close>

definition fresh_mapping :: "nat \<Rightarrow> 'd mapping \<Rightarrow> bool" where
  "fresh_mapping n m \<longleftrightarrow> m_producer m = 0 \<and> m_consumer m = 0 \<and> length (m_ring m) = n"

definition zero_mapping :: "nat \<Rightarrow> 'd \<Rightarrow> 'd mapping" where
  "zero_mapping n d = \<lparr>m_producer = 0, m_consumer = 0, m_ring = replicate n d\<rparr>"

lemma fresh_zero_mapping [simp]: "fresh_mapping n (zero_mapping n d)"
  by (simp add: fresh_mapping_def zero_mapping_def)

lemma fill_frames_spec:
  assumes "prod_inv q" and "length (in_flight q) + length is \<le> capacity q"
  shows "\<exists>q'. fill_frames is q = Inr q' \<and> prod_inv q' \<and> capacity q' = capacity q
    \<and> in_flight q' = in_flight q @ is"
  using assms
proof (induction "is" arbitrary: q)
  case Nil
  then show ?case by simp
next
  case (Cons i "is")
  obtain q1 where q1: "umem_fill_to_kernel q [i] = (Inr (), q1)" "prod_inv q1"
      "capacity q1 = capacity q" "in_flight q1 = in_flight q @ map (\<lambda>a. a) [i]"
    by (rule fill.enq_fits [OF Cons.prems(1), of "[i]"]) (use Cons.prems(2) in auto)
  have "length (in_flight q1) + length is \<le> capacity q1"
    unfolding q1(3,4) using Cons.prems(2) by simp
  with Cons.IH [OF q1(2)] q1 show ?case by simp
qed

end
