(* ===== verification/Xdp_System.thy ===== *)
theory Xdp_System
  imports Xdp_Setup
begin

text \<open>
  The socket together with the kernel behind it. \<open>system\<close> adds to the socket two ghost
  multisets: the frames the kernel took from the fill ring and has not delivered yet, and those
  it took from the TX ring and has not completed yet. \<open>kernel_step\<close> states what the AF_XDP
  protocol lets the kernel do; nothing about its schedule is assumed. A reachable state is one
  that any interleaving of kernel steps and passes of rxdrop or l2fwd leads to, from a freshly
  configured socket.

  The invariant says that every one of the \<open>NUM_DESCS\<close> frames put on the fill ring at
  start-up has exactly one owner, and that \<open>outstanding_tx\<close> counts the frames on their way
  through the transmit side. From it follows that no ring ever overflows, so that the
  assertion of l2fwd holds and the ignored result of the fill calls is always success.
\<close>

section \<open>States and steps\<close>

record system =
  sock :: xdpsock
  rx_held :: "u64 multiset"
  tx_held :: "u64 multiset"

definition frame_of :: "u64 \<Rightarrow> u64" where
  "frame_of a = drop_bit FRAME_SHIFT a"

abbreviation fq_of :: "system \<Rightarrow> xdp_umem_uqueue" where "fq_of s \<equiv> fq (umem (sock s))"
abbreviation cq_of :: "system \<Rightarrow> xdp_umem_uqueue" where "cq_of s \<equiv> cq (umem (sock s))"
abbreviation rx_of :: "system \<Rightarrow> xdp_uqueue" where "rx_of s \<equiv> rx (sock s)"
abbreviation tx_of :: "system \<Rightarrow> xdp_uqueue" where "tx_of s \<equiv> tx (sock s)"

abbreviation set_fq :: "xdp_umem_uqueue \<Rightarrow> xdpsock \<Rightarrow> xdpsock" where
  "set_fq q x \<equiv> x\<lparr>umem := (umem x)\<lparr>fq := q\<rparr>\<rparr>"
abbreviation set_cq :: "xdp_umem_uqueue \<Rightarrow> xdpsock \<Rightarrow> xdpsock" where
  "set_cq q x \<equiv> x\<lparr>umem := (umem x)\<lparr>cq := q\<rparr>\<rparr>"
abbreviation set_frames :: "memory \<Rightarrow> xdpsock \<Rightarrow> xdpsock" where
  "set_frames m x \<equiv> x\<lparr>umem := (umem x)\<lparr>frames := m\<rparr>\<rparr>"

definition fill_frames_of :: "system \<Rightarrow> u64 multiset" where
  "fill_frames_of s = mset (map frame_of (in_flight (fq_of s)))"

definition recv_frames_of :: "system \<Rightarrow> u64 multiset" where
  "recv_frames_of s = mset (map (\<lambda>d. frame_of (addr d)) (in_flight (rx_of s)))"

definition send_frames_of :: "system \<Rightarrow> u64 multiset" where
  "send_frames_of s = mset (map (\<lambda>d. frame_of (fst d)) (tx_pending (tx_of s)))"

definition done_frames_of :: "system \<Rightarrow> u64 multiset" where
  "done_frames_of s = mset (map frame_of (in_flight (cq_of s)))"

definition owned :: "system \<Rightarrow> u64 multiset" where
  "owned s = fill_frames_of s + rx_held s + recv_frames_of s
           + (send_frames_of s + tx_held s + done_frames_of s)"

text \<open>
  The kernel takes frames from the fill ring, writes into frames it holds, delivers a held frame
  on the RX ring (at any address within the frame) if there is room, takes descriptors from
  the TX ring, and completes them on the completion ring if there is room.
\<close>

inductive kernel_step :: "system \<Rightarrow> system \<Rightarrow> bool" where
  k_fill: "n \<le> length (in_flight (fq_of s)) \<Longrightarrow>
    kernel_step s (s\<lparr>sock := set_fq (kernel_consumed n (fq_of s)) (sock s),
      rx_held := rx_held s + mset (map frame_of (take n (in_flight (fq_of s))))\<rparr>)"
| k_write: "(\<And>i. frame_of (of_nat i) \<notin># rx_held s \<Longrightarrow> m i = frames (umem (sock s)) i) \<Longrightarrow>
    kernel_step s (s\<lparr>sock := set_frames m (sock s)\<rparr>)"
| k_deliver: "frame_of (addr d) \<in># rx_held s \<Longrightarrow>
    length (in_flight (rx_of s)) < capacity (rx_of s) \<Longrightarrow>
    kernel_step s (s\<lparr>sock := (sock s)\<lparr>rx := kernel_produced [d] (rx_of s)\<rparr>,
      rx_held := rx_held s - {# frame_of (addr d) #}\<rparr>)"
| k_send: "n \<le> length (in_flight (tx_of s)) \<Longrightarrow>
    kernel_step s (s\<lparr>sock := (sock s)\<lparr>tx := kernel_consumed n (tx_of s)\<rparr>,
      tx_held := tx_held s + mset (map (\<lambda>d. frame_of (fst d)) (take n (tx_pending (tx_of s))))\<rparr>)"
| k_complete: "frame_of a \<in># tx_held s \<Longrightarrow>
    length (in_flight (cq_of s)) < capacity (cq_of s) \<Longrightarrow>
    kernel_step s (s\<lparr>sock := set_cq (kernel_produced [a] (cq_of s)) (sock s),
      tx_held := tx_held s - {# frame_of a #}\<rparr>)"

definition all_frames :: "u64 multiset" where
  "all_frames = mset (map (\<lambda>k. of_nat k) [0..<NUM_DESCS])"

definition rings_inv :: "xdpsock \<Rightarrow> bool" where
  "rings_inv x \<longleftrightarrow> prod_inv (fq (umem x)) \<and> capacity (fq (umem x)) = FQ_NUM_DESCS
     \<and> cons_inv (cq (umem x)) \<and> capacity (cq (umem x)) = CQ_NUM_DESCS
     \<and> cons_inv (rx x) \<and> capacity (rx x) = NUM_DESCS
     \<and> prod_inv (tx x) \<and> capacity (tx x) = NUM_DESCS"

definition sys_inv :: "system \<Rightarrow> bool" where
  "sys_inv s \<longleftrightarrow> rings_inv (sock s) \<and> owned s = all_frames
     \<and> unat (outstanding_tx (sock s))
         = size (send_frames_of s + tx_held s + done_frames_of s)"

definition fresh_socket :: "xdpsock \<Rightarrow> bool" where
  "fresh_socket x \<longleftrightarrow> (\<exists>ok bench ifindex queue flags bufs fqm cqm rxm txm fd.
     xsk_configure ok bench ifindex queue flags bufs fqm cqm rxm txm fd None = Inr x
     \<and> fresh_mapping FQ_NUM_DESCS fqm \<and> fresh_mapping CQ_NUM_DESCS cqm
     \<and> fresh_mapping NUM_DESCS rxm \<and> fresh_mapping NUM_DESCS txm)"

text \<open>
  A pass of l2fwd runs the kernel during \<open>sendto\<close>, which it calls if transmissions are
  outstanding: \<open>env\<close> is then the effect of some sequence of kernel steps.
\<close>

definition env_moves :: "system \<Rightarrow> (xdpsock \<Rightarrow> xdpsock) \<Rightarrow> system \<Rightarrow> bool" where
  "env_moves s env t \<longleftrightarrow>
     (if outstanding_tx (sock s) = 0 then t = s
      else kernel_step\<^sup>*\<^sup>* s t \<and> env (sock s) = sock t)"

inductive reachable :: "system \<Rightarrow> bool" where
  r_start: "fresh_socket x \<Longrightarrow> reachable \<lparr>sock = x, rx_held = {#}, tx_held = {#}\<rparr>"
| r_kernel: "reachable s \<Longrightarrow> kernel_step s t \<Longrightarrow> reachable t"
| r_rxdrop: "reachable s \<Longrightarrow> reachable (s\<lparr>sock := rx_drop (sock s)\<rparr>)"
| r_l2fwd: "reachable s \<Longrightarrow> env_moves s env t \<Longrightarrow> l2fwd_pass sent env (sock s) = Inr x \<Longrightarrow>
    reachable (t\<lparr>sock := x\<rparr>)"

inductive_cases kernel_stepE: "kernel_step s t"

section \<open>Frames are conserved\<close>

lemma size_all_frames [simp]: "size all_frames = NUM_DESCS"
  by (simp add: all_frames_def)

lemma sizes [simp]:
  "size (fill_frames_of s) = length (in_flight (fq_of s))"
  "size (recv_frames_of s) = length (in_flight (rx_of s))"
  "size (send_frames_of s) = length (in_flight (tx_of s))"
  "size (done_frames_of s) = length (in_flight (cq_of s))"
  by (simp_all add: fill_frames_of_def recv_frames_of_def send_frames_of_def done_frames_of_def)

text \<open>All frames together number \<open>NUM_DESCS\<close>, so each queue has room for all the others'.\<close>

lemma sys_inv_total:
  assumes "sys_inv s"
  shows "length (in_flight (fq_of s)) + size (rx_held s) + length (in_flight (rx_of s))
       + length (in_flight (tx_of s)) + size (tx_held s) + length (in_flight (cq_of s)) = NUM_DESCS"
proof -
  have "size (owned s) = NUM_DESCS"
    using assms by (simp add: sys_inv_def)
  then show ?thesis by (simp add: owned_def del: length_in_flight)
qed

lemmas frame_defs = owned_def fill_frames_of_def recv_frames_of_def send_frames_of_def
  done_frames_of_def

lemma tx_pending_consumed:
  assumes "prod_inv q" and "n \<le> length (in_flight q)"
  shows "tx_pending (kernel_consumed n q) = drop n (tx_pending q)"
  using kernel_consumed_spec(2) [OF assms] by (simp add: tx_pending_def drop_map)

lemma held_moves:
  assumes "x \<in># A"
  shows "A - {#x#} + (B + {#x#}) = A + (B::'a multiset)"
  using assms by (metis add.assoc add.commute add_mset_add_single insert_DiffM2 union_mset_add_mset_right)

lemma k_fill_inv:
  assumes inv: "sys_inv s" and n: "n \<le> length (in_flight (fq_of s))"
  shows "sys_inv (s\<lparr>sock := set_fq (kernel_consumed n (fq_of s)) (sock s),
      rx_held := rx_held s + mset (map frame_of (take n (in_flight (fq_of s))))\<rparr>)"
    (is "sys_inv ?t")
proof -
  have p: "prod_inv (fq_of s)"
    using inv by (simp add: sys_inv_def rings_inv_def)
  note k = kernel_consumed_spec [OF p n]
  have "fill_frames_of ?t + rx_held ?t = fill_frames_of s + rx_held s"
    using k(2) mset_map_split [of frame_of n "in_flight (fq_of s)"]
    by (simp add: fill_frames_of_def add.commute add.left_commute del: mset_map)
  moreover have "recv_frames_of ?t = recv_frames_of s" "send_frames_of ?t = send_frames_of s"
    "done_frames_of ?t = done_frames_of s" "tx_held ?t = tx_held s"
    by (simp_all add: frame_defs)
  ultimately have "owned ?t = owned s" by (simp add: owned_def)
  then show ?thesis
    using inv k by (simp add: sys_inv_def rings_inv_def send_frames_of_def done_frames_of_def)
qed

lemma k_deliver_inv:
  assumes inv: "sys_inv s" and held: "frame_of (addr d) \<in># rx_held s"
    and room: "length (in_flight (rx_of s)) < capacity (rx_of s)"
  shows "sys_inv (s\<lparr>sock := (sock s)\<lparr>rx := kernel_produced [d] (rx_of s)\<rparr>,
      rx_held := rx_held s - {# frame_of (addr d) #}\<rparr>)"
    (is "sys_inv ?t")
proof -
  have p: "cons_inv (rx_of s)"
    using inv by (simp add: sys_inv_def rings_inv_def)
  note k = kernel_produced_spec [OF p, of "[d]"]
  have "rx_held ?t + recv_frames_of ?t = rx_held s + recv_frames_of s"
    using k(2) room held_moves [OF held] by (simp add: recv_frames_of_def)
  moreover have "fill_frames_of ?t = fill_frames_of s" "send_frames_of ?t = send_frames_of s"
    "done_frames_of ?t = done_frames_of s" "tx_held ?t = tx_held s"
    by (simp_all add: frame_defs)
  ultimately have "owned ?t = owned s" by (simp add: owned_def add.assoc)
  then show ?thesis
    using inv k room by (simp add: sys_inv_def rings_inv_def send_frames_of_def done_frames_of_def)
qed

lemma k_send_inv:
  assumes inv: "sys_inv s" and n: "n \<le> length (in_flight (tx_of s))"
  shows "sys_inv (s\<lparr>sock := (sock s)\<lparr>tx := kernel_consumed n (tx_of s)\<rparr>,
      tx_held := tx_held s + mset (map (\<lambda>d. frame_of (fst d)) (take n (tx_pending (tx_of s))))\<rparr>)"
    (is "sys_inv ?t")
proof -
  have p: "prod_inv (tx_of s)"
    using inv by (simp add: sys_inv_def rings_inv_def)
  note k = kernel_consumed_spec [OF p n]
  have *: "send_frames_of ?t + tx_held ?t = send_frames_of s + tx_held s"
    using tx_pending_consumed [OF p n] mset_map_split [of "\<lambda>d. frame_of (fst d)" n "tx_pending (tx_of s)"]
    by (simp add: send_frames_of_def add.commute add.left_commute del: mset_map)
  have "recv_frames_of ?t = recv_frames_of s" "fill_frames_of ?t = fill_frames_of s"
    and d: "done_frames_of ?t = done_frames_of s" "rx_held ?t = rx_held s"
    by (simp_all add: frame_defs)
  with * have "owned ?t = owned s" by (simp add: owned_def)
  then show ?thesis
    using inv k * d by (simp add: sys_inv_def rings_inv_def)
qed

lemma k_complete_inv:
  assumes inv: "sys_inv s" and held: "frame_of a \<in># tx_held s"
    and room: "length (in_flight (cq_of s)) < capacity (cq_of s)"
  shows "sys_inv (s\<lparr>sock := set_cq (kernel_produced [a] (cq_of s)) (sock s),
      tx_held := tx_held s - {# frame_of a #}\<rparr>)"
    (is "sys_inv ?t")
proof -
  have p: "cons_inv (cq_of s)"
    using inv by (simp add: sys_inv_def rings_inv_def)
  note k = kernel_produced_spec [OF p, of "[a]"]
  have *: "tx_held ?t + done_frames_of ?t = tx_held s + done_frames_of s"
    using k(2) room held_moves [OF held] by (simp add: done_frames_of_def)
  have "fill_frames_of ?t = fill_frames_of s" and d: "send_frames_of ?t = send_frames_of s"
    "recv_frames_of ?t = recv_frames_of s" "rx_held ?t = rx_held s"
    by (simp_all add: frame_defs)
  with * have "owned ?t = owned s" by (simp add: owned_def add.assoc)
  then show ?thesis
    using inv k room * d by (simp add: sys_inv_def rings_inv_def add.assoc)
qed

lemma kernel_step_inv: "kernel_step s t \<Longrightarrow> sys_inv s \<Longrightarrow> sys_inv t"
proof (induction rule: kernel_step.induct)
  case (k_write s m)
  then show ?case by (simp add: sys_inv_def rings_inv_def frame_defs)
qed (assumption | rule k_fill_inv k_deliver_inv k_send_inv k_complete_inv)+

lemma kernel_steps_inv: "kernel_step\<^sup>*\<^sup>* s t \<Longrightarrow> sys_inv s \<Longrightarrow> sys_inv t"
  by (induction rule: rtranclp_induct) (auto intro: kernel_step_inv)

section \<open>The user's operations keep the invariant\<close>

lemma sys_inv_rings:
  assumes "sys_inv s"
  shows "prod_inv (fq_of s)" "capacity (fq_of s) = NUM_DESCS" "cons_inv (cq_of s)"
    "capacity (cq_of s) = NUM_DESCS" "cons_inv (rx_of s)" "capacity (rx_of s) = NUM_DESCS"
    "prod_inv (tx_of s)" "capacity (tx_of s) = NUM_DESCS"
  using assms by (auto simp: sys_inv_def rings_inv_def FQ_NUM_DESCS_def CQ_NUM_DESCS_def NUM_DESCS_def)

lemma sys_inv_outstanding:
  "sys_inv s \<Longrightarrow> unat (outstanding_tx (sock s))
     = length (in_flight (tx_of s)) + size (tx_held s) + length (in_flight (cq_of s))"
  by (simp add: sys_inv_def del: length_in_flight)

lemma unat_sub_of_nat:
  fixes x :: u32
  assumes "n \<le> unat x"
  shows "unat (x - of_nat n) = unat x - n"
proof -
  have "n < 2 ^ 32"
    using assms unsigned_less [of x, where 'a = nat] by simp
  then show ?thesis
    using assms by (subst unat_sub) (simp_all only: word_le_nat_alt unat_of_nat_u32)
qed

lemma unat_add_of_nat:
  fixes x :: u32
  assumes "unat x + n < 2 ^ 32"
  shows "unat (x + of_nat n) = unat x + n"
  using assms by (simp add: unat_word_ariths unat_of_nat mod_add_right_eq)

text \<open>Completed frames go back to the fill ring, which always has room for them.\<close>

lemma completed_frames:
  assumes inv: "sys_inv t" and n: "n < 2 ^ 31"
    and compl: "umem_complete_from_kernel (cq_of t) n = (descs, cq')"
  shows "descs = [] \<Longrightarrow> sys_inv (t\<lparr>sock := set_cq cq' (sock t)\<rparr>)"
    and "\<exists>fq'. umem_fill_to_kernel (fq_of t) descs = (Inr (), fq')
      \<and> sys_inv (t\<lparr>sock := (set_fq fq' (set_cq cq' (sock t)))
          \<lparr>outstanding_tx := outstanding_tx (sock t) - of_nat (length descs), tx_npkts := npkts\<rparr>\<rparr>)"
proof -
  note rings = sys_inv_rings [OF inv]
  note c = compl.deq_inv [OF rings(3) n compl] compl.deq_pend [OF rings(3) n compl]
  have cap: "capacity cq' = NUM_DESCS"
    using compl rings(4)
    by (auto simp: umem_complete_from_kernel_def umem_nb_avail_def consume_eq capacity_def Let_def
        split: if_splits)
  show "sys_inv (t\<lparr>sock := set_cq cq' (sock t)\<rparr>)" if "descs = []"
    using inv c cap that
    by (simp add: sys_inv_def rings_inv_def frame_defs NUM_DESCS_def CQ_NUM_DESCS_def)
  have len: "length (in_flight (cq_of t)) = length descs + length (in_flight cq')"
    by (simp only: c(2) length_append)
  have room: "length (in_flight (fq_of t)) + length descs \<le> capacity (fq_of t)"
    using sys_inv_total [OF inv] len rings(2) by linarith
  have "length descs < 2 ^ 32"
    using room rings(2) by (simp add: NUM_DESCS_def)
  then obtain fq' where fq': "umem_fill_to_kernel (fq_of t) descs = (Inr (), fq')" "prod_inv fq'"
      "capacity fq' = NUM_DESCS" "in_flight fq' = in_flight (fq_of t) @ descs"
    by (rule fill.enq_fits [OF rings(1) _ room]) (simp add: rings(2))
  let ?t = "t\<lparr>sock := (set_fq fq' (set_cq cq' (sock t)))
          \<lparr>outstanding_tx := outstanding_tx (sock t) - of_nat (length descs), tx_npkts := npkts\<rparr>\<rparr>"
  have "owned ?t = owned t"
    by (simp add: frame_defs fq'(4) c(2) add.commute add.left_commute)
  moreover have "unat (outstanding_tx (sock t) - of_nat (length descs))
      = unat (outstanding_tx (sock t)) - length descs"
    using sys_inv_outstanding [OF inv] len by (intro unat_sub_of_nat) simp
  ultimately have "sys_inv ?t"
    using inv c(1) cap fq' sys_inv_outstanding [OF inv] len
    by (simp add: sys_inv_def rings_inv_def send_frames_of_def done_frames_of_def
        NUM_DESCS_def CQ_NUM_DESCS_def FQ_NUM_DESCS_def del: length_in_flight length_tx_pending)
  with fq'(1) show "\<exists>fq'. umem_fill_to_kernel (fq_of t) descs = (Inr (), fq')
      \<and> sys_inv (t\<lparr>sock := (set_fq fq' (set_cq cq' (sock t)))
          \<lparr>outstanding_tx := outstanding_tx (sock t) - of_nat (length descs), tx_npkts := npkts\<rparr>\<rparr>)"
    by blast
qed

lemma complete_tx_l2fwd_inv:
  assumes inv: "sys_inv s" and env: "env_moves s env t"
    and eq: "complete_tx_l2fwd sent env (sock s) = Inr x"
  shows "sys_inv (t\<lparr>sock := x\<rparr>)"
proof (cases "outstanding_tx (sock s) = 0")
  case True
  with env eq inv show ?thesis by (auto simp: env_moves_def complete_tx_l2fwd_def)
next
  case False
  with env have steps: "kernel_step\<^sup>*\<^sup>* s t" and y: "env (sock s) = sock t"
    by (simp_all add: env_moves_def)
  have invt: "sys_inv t"
    using steps inv by (rule kernel_steps_inv)
  define n where "n = unat (if outstanding_tx (sock t) > of_nat BATCH_SIZE then of_nat BATCH_SIZE
                      else outstanding_tx (sock t))"
  have "n \<le> 16"
    by (auto simp: n_def BATCH_SIZE_def word_less_nat_alt)
  then have n: "n < 2 ^ 31" by simp
  obtain descs cq' where c: "umem_complete_from_kernel (cq_of t) n = (descs, cq')"
    by fastforce
  obtain fq' where f: "umem_fill_to_kernel (fq_of t) descs = (Inr (), fq')"
    and i: "sys_inv (t\<lparr>sock := (set_fq fq' (set_cq cq' (sock t)))
          \<lparr>outstanding_tx := outstanding_tx (sock t) - of_nat (length descs),
           tx_npkts := tx_npkts (sock t) + of_nat (length descs)\<rparr>\<rparr>)"
    using completed_frames(2) [OF invt n c] by blast
  obtain u where kick: "kick_tx sent = Inr u"
    using eq False by (auto simp: complete_tx_l2fwd_def split: sum.splits)
  show ?thesis
  proof (cases "descs = []")
    case True
    then have "x = set_cq cq' (sock t)"
      using eq False kick c by (simp add: complete_tx_l2fwd_def y n_def [symmetric] Let_def)
    with completed_frames(1) [OF invt n c True] show ?thesis by simp
  next
    case False
    then show ?thesis
      using eq \<open>outstanding_tx (sock s) \<noteq> 0\<close> kick c f i
      by (auto simp: complete_tx_l2fwd_def y n_def [symmetric] Let_def)
  qed
qed

text \<open>Frames taken off the RX ring have room on the fill ring (rxdrop) and on the TX ring
  (l2fwd).\<close>

lemma received_frames:
  assumes inv: "sys_inv t" and n: "n < 2 ^ 31"
    and deq: "xq_deq (rx_of t) (int n) = (rcvd, descs, rx')"
  shows "rcvd = int (length descs)"
    and "descs = [] \<Longrightarrow> sys_inv (t\<lparr>sock := (sock t)\<lparr>rx := rx'\<rparr>\<rparr>)"
    and "\<exists>fq'. umem_fill_to_kernel_ex (fq_of t) descs = (Inr (), fq')
      \<and> sys_inv (t\<lparr>sock := (set_fq fq' (sock t))\<lparr>rx := rx', rx_npkts := npkts\<rparr>\<rparr>)"
    and "\<exists>tx'. xq_enq (tx_of t) descs = (Inr (), tx')
      \<and> sys_inv (t\<lparr>sock := (set_frames m (sock t))\<lparr>rx := rx', rx_npkts := npkts, tx := tx',
          outstanding_tx := outstanding_tx (sock t) + of_nat (length descs)\<rparr>\<rparr>)"
proof -
  note rings = sys_inv_rings [OF inv]
  have snd: "snd (xq_deq (rx_of t) (int n)) = (descs, rx')"
    using deq by simp
  show "rcvd = int (length descs)"
    using xq_deq_count [OF rings(5) n deq] .
  note c = rx.deq_inv [OF rings(5) n snd] rx.deq_pend [OF rings(5) n snd]
  have cap: "capacity rx' = NUM_DESCS"
    using deq rings(6)
    by (auto simp: xq_deq_def xq_nb_avail_def consume_eq capacity_def Let_def split: if_splits)
  show "sys_inv (t\<lparr>sock := (sock t)\<lparr>rx := rx'\<rparr>\<rparr>)" if "descs = []"
    using inv c cap that by (simp add: sys_inv_def rings_inv_def frame_defs)
  have len: "length (in_flight (rx_of t)) = length descs + length (in_flight rx')"
    by (simp only: c(2) length_append)
  note total = sys_inv_total [OF inv]
  have small: "length descs < 2 ^ 32"
    using total len by (simp add: NUM_DESCS_def del: length_in_flight)
  obtain fq' where fq': "umem_fill_to_kernel_ex (fq_of t) descs = (Inr (), fq')" "prod_inv fq'"
      "capacity fq' = NUM_DESCS" "in_flight fq' = in_flight (fq_of t) @ map addr descs"
    by (rule fill_ex.enq_fits [OF rings(1) small]) (use total len rings(2) in linarith, simp add: rings(2))
  have "sys_inv (t\<lparr>sock := (set_fq fq' (sock t))\<lparr>rx := rx', rx_npkts := npkts\<rparr>\<rparr>)" (is "sys_inv ?t")
  proof -
    have "owned ?t = owned t"
      by (simp add: frame_defs fq'(4) c(2) add.commute add.left_commute multiset.map_comp comp_def)
    then show ?thesis
      using inv c(1) cap fq'
      by (simp add: sys_inv_def rings_inv_def send_frames_of_def done_frames_of_def
          NUM_DESCS_def FQ_NUM_DESCS_def)
  qed
  with fq'(1) show "\<exists>fq'. umem_fill_to_kernel_ex (fq_of t) descs = (Inr (), fq')
      \<and> sys_inv (t\<lparr>sock := (set_fq fq' (sock t))\<lparr>rx := rx', rx_npkts := npkts\<rparr>\<rparr>)"
    by blast
  obtain tx' where tx': "xq_enq (tx_of t) descs = (Inr (), tx')" "prod_inv tx'"
      "capacity tx' = NUM_DESCS" "tx_pending tx' = tx_pending (tx_of t) @ map desc_view descs"
  proof (rule tx.enq_fits [OF rings(7) small])
    have "length (tx_pending (tx_of t)) = length (in_flight (tx_of t))" by simp
    then show "length (tx_pending (tx_of t)) + length descs \<le> capacity (tx_of t)"
      using total len rings(8) by linarith
  qed (simp_all add: rings(8))
  have "sys_inv (t\<lparr>sock := (set_frames m (sock t))\<lparr>rx := rx', rx_npkts := npkts, tx := tx',
          outstanding_tx := outstanding_tx (sock t) + of_nat (length descs)\<rparr>\<rparr>)" (is "sys_inv ?t")
  proof -
    have "owned ?t = owned t"
      by (simp add: frame_defs tx'(4) c(2) desc_view_def add.commute add.left_commute
          multiset.map_comp comp_def)
    moreover have "unat (outstanding_tx (sock t) + of_nat (length descs))
        = unat (outstanding_tx (sock t)) + length descs"
      using sys_inv_outstanding [OF inv] total len
      by (intro unat_add_of_nat) (simp add: NUM_DESCS_def del: length_in_flight)
    moreover have "length (in_flight tx') = length (in_flight (tx_of t)) + length descs"
      using arg_cong [OF tx'(4), of length] by (simp add: tx_pending_def del: length_in_flight)
    ultimately show ?thesis
      using inv c(1) cap tx' sys_inv_outstanding [OF inv]
      by (simp add: sys_inv_def rings_inv_def done_frames_of_def
          del: length_in_flight length_tx_pending)
  qed
  with tx'(1) show "\<exists>tx'. xq_enq (tx_of t) descs = (Inr (), tx')
      \<and> sys_inv (t\<lparr>sock := (set_frames m (sock t))\<lparr>rx := rx', rx_npkts := npkts, tx := tx',
          outstanding_tx := outstanding_tx (sock t) + of_nat (length descs)\<rparr>\<rparr>)"
    by blast
qed

lemma BATCH_SIZE_small: "BATCH_SIZE < 2 ^ 31"
  by (simp add: BATCH_SIZE_def)

lemma rx_drop_inv:
  assumes inv: "sys_inv s"
  shows "sys_inv (s\<lparr>sock := rx_drop (sock s)\<rparr>)"
proof -
  obtain rcvd descs rx' where deq: "xq_deq (rx_of s) (int BATCH_SIZE) = (rcvd, descs, rx')"
    by (metis prod_cases3)
  note r = received_frames [OF inv BATCH_SIZE_small deq]
  obtain fq' where fq': "umem_fill_to_kernel_ex (fq_of s) descs = (Inr (), fq')"
    and i: "sys_inv (s\<lparr>sock := (set_fq fq' (sock s))\<lparr>rx := rx',
        rx_npkts := rx_npkts (sock s) + word_of_int rcvd\<rparr>\<rparr>)"
    using r(3) by blast
  show ?thesis
  proof (cases "descs = []")
    case True
    then show ?thesis using r(1,2) deq by (simp add: rx_drop_def Let_def)
  next
    case False
    then have "rx_drop (sock s) = (set_fq fq' (sock s))\<lparr>rx := rx',
        rx_npkts := rx_npkts (sock s) + word_of_int rcvd\<rparr>"
      using r(1) deq fq' by (simp add: rx_drop_def Let_def)
    with i show ?thesis by (simp only:)
  qed
qed

lemma swap_all_frames: "\<exists>m. swap_all x ds = set_frames m x"
proof (induction ds arbitrary: x)
  case Nil
  have "x = set_frames (frames (umem x)) x" by simp
  then show ?case by (metis swap_all.simps(1))
next
  case (Cons d ds)
  obtain m where "swap_all (set_frames (swap_mac_addresses (frames (umem x)) (xq_get_data x (addr d))) x) ds
      = set_frames m (set_frames (swap_mac_addresses (frames (umem x)) (xq_get_data x (addr d))) x)"
    using Cons.IH by blast
  then have "swap_all x (d # ds) = set_frames m x"
    by (simp add: Let_def)
  then show ?case by blast
qed

text \<open>A pass of l2fwd fails only where \<open>kick_tx\<close> does, and otherwise keeps the invariant.\<close>

lemma l2fwd_pass_ok:
  assumes inv: "sys_inv s" and env: "env_moves s env t"
  shows "l2fwd_pass sent env (sock s) = Inr x \<Longrightarrow> sys_inv (t\<lparr>sock := x\<rparr>)"
    and "l2fwd_pass sent env (sock s) = Inl a \<Longrightarrow>
      outstanding_tx (sock s) \<noteq> 0 \<and> kick_tx sent = Inl a"
proof -
  have "(\<forall>a. l2fwd_pass sent env (sock s) = Inl a \<longrightarrow> outstanding_tx (sock s) \<noteq> 0 \<and> kick_tx sent = Inl a)
    \<and> (\<forall>x. l2fwd_pass sent env (sock s) = Inr x \<longrightarrow> sys_inv (t\<lparr>sock := x\<rparr>))"
  proof (cases "complete_tx_l2fwd sent env (sock s)")
    case (Inl a)
    then show ?thesis
      by (auto simp: l2fwd_pass_def complete_tx_l2fwd_def Let_def split_beta
          split: if_splits sum.splits)
  next
    case (Inr y)
    have invy: "sys_inv (t\<lparr>sock := y\<rparr>)" (is "sys_inv ?t")
      by (rule complete_tx_l2fwd_inv [OF inv env Inr])
    obtain rcvd descs rx' where deq: "xq_deq (rx_of ?t) (int BATCH_SIZE) = (rcvd, descs, rx')"
      by (metis prod_cases3)
    note r = received_frames [OF invy BATCH_SIZE_small deq]
    show ?thesis
    proof (cases "descs = []")
      case True
      with Inr deq r(1,2) show ?thesis by (simp add: l2fwd_pass_def Let_def)
    next
      case False
      obtain m where m: "swap_all (y\<lparr>rx := rx'\<rparr>) descs = set_frames m (y\<lparr>rx := rx'\<rparr>)"
        using swap_all_frames by blast
      obtain tx' where tx': "xq_enq (tx y) descs = (Inr (), tx')"
        and i: "sys_inv (?t\<lparr>sock := (set_frames m y)\<lparr>rx := rx',
            rx_npkts := rx_npkts y + word_of_int rcvd, tx := tx',
            outstanding_tx := outstanding_tx y + of_nat (length descs)\<rparr>\<rparr>)"
        using r(4) by simp blast
      have "l2fwd_pass sent env (sock s) = Inr ((set_frames m y)\<lparr>rx := rx',
            rx_npkts := rx_npkts y + word_of_int rcvd, tx := tx',
            outstanding_tx := outstanding_tx y + of_nat (length descs)\<rparr>)"
        using Inr deq r(1) m tx' False by (simp add: l2fwd_pass_def Let_def)
      with i show ?thesis by simp
    qed
  qed
  then show "l2fwd_pass sent env (sock s) = Inr x \<Longrightarrow> sys_inv (t\<lparr>sock := x\<rparr>)"
    and "l2fwd_pass sent env (sock s) = Inl a \<Longrightarrow>
      outstanding_tx (sock s) \<noteq> 0 \<and> kick_tx sent = Inl a"
    by blast+
qed

section \<open>The initial state\<close>

lemma frame_of_fill_addr: "k < 2 ^ 32 \<Longrightarrow> frame_of (of_nat (k * FRAME_SIZE)) = of_nat k"
proof -
  assume k: "k < 2 ^ 32"
  have "of_nat (k * FRAME_SIZE) = push_bit 11 (of_nat k :: u64)"
    by (simp add: FRAME_SIZE_def push_bit_eq_mult)
  moreover have "drop_bit 11 (push_bit 11 (of_nat k :: u64)) = of_nat k"
  proof (rule word_unat_eq_iff [THEN iffD2])
    have "unat (push_bit 11 (of_nat k :: u64)) = k * 2 ^ 11"
      using k by (simp add: push_bit_eq_mult unat_word_ariths unat_of_nat)
    moreover have "unat (of_nat k :: u64) = k"
      using k by (simp add: unat_of_nat)
    ultimately show "unat (drop_bit 11 (push_bit 11 (of_nat k :: u64))) = unat (of_nat k :: u64)"
      by (simp add: drop_bit_eq_div unat_div)
  qed
  ultimately show ?thesis by (simp only: frame_of_def FRAME_SHIFT_def)
qed

lemma frames_of_fill_addrs: "mset (map frame_of (fill_addrs NUM_DESCS)) = all_frames"
proof -
  have "map frame_of (fill_addrs NUM_DESCS) = map of_nat [0..<NUM_DESCS]"
    by (auto simp: fill_addrs_def comp_def NUM_DESCS_def frame_of_fill_addr simp del: of_nat_mult)
  then show ?thesis by (simp only: all_frames_def)
qed

text \<open>A ring of 1024 entries over a fresh mapping.\<close>

lemma fresh_ring:
  assumes "length r = 1024"
  shows "prod_inv \<lparr>cached_prod = 0, cached_cons = 1024, qmask = 1023, qsize = 1024,
      producer = 0, consumer = 0, ring = r\<rparr>" (is "prod_inv ?p")
    and "cons_inv \<lparr>cached_prod = 0, cached_cons = 0, qmask = 1023, qsize = 1024,
      producer = 0, consumer = 0, ring = r\<rparr>" (is "cons_inv ?c")
proof -
  have "ring_ok ?p" "ring_ok ?c"
    using assms by (auto simp: ring_ok_def intro!: exI [of _ "10::nat"])
  then show "prod_inv ?p" "cons_inv ?c"
    by (simp_all add: prod_inv_def cons_inv_def capacity_def)
qed

lemma fresh_ring_view:
  "capacity \<lparr>cached_prod = a, cached_cons = b, qmask = 1023, qsize = 1024,
      producer = 0, consumer = 0, ring = r\<rparr> = 1024"
  "in_flight \<lparr>cached_prod = a, cached_cons = b, qmask = 1023, qsize = 1024,
      producer = 0, consumer = 0, ring = r\<rparr> = []"
  by (simp_all add: capacity_def in_flight_def)

lemma configure_fresh:
  assumes "fresh_mapping FQ_NUM_DESCS fqm" "fresh_mapping CQ_NUM_DESCS cqm"
    and "fresh_mapping NUM_DESCS rxm" "fresh_mapping NUM_DESCS txm"
    and "xsk_configure ok bench ifindex queue flags bufs fqm cqm rxm txm fd None = Inr x"
  shows "rings_inv x \<and> in_flight (fq (umem x)) = fill_addrs NUM_DESCS
    \<and> in_flight (cq (umem x)) = [] \<and> in_flight (rx x) = [] \<and> in_flight (tx x) = []
    \<and> outstanding_tx x = 0"
proof -
  let ?fq = "\<lparr>cached_prod = 0, cached_cons = 1024, qmask = 1023, qsize = 1024,
      producer = 0, consumer = 0, ring = m_ring fqm\<rparr> :: xdp_umem_uqueue"
  have lens: "length (m_ring fqm) = 1024" "length (m_ring cqm) = 1024"
      "length (m_ring rxm) = 1024" "length (m_ring txm) = 1024"
    using assms(1-4)
    by (simp_all add: fresh_mapping_def FQ_NUM_DESCS_def CQ_NUM_DESCS_def NUM_DESCS_def)
  obtain q' where q': "fill_frames (fill_addrs NUM_DESCS) ?fq = Inr q'" "prod_inv q'"
      "capacity q' = 1024" "in_flight q' = fill_addrs NUM_DESCS"
    using fill_frames_spec [OF fresh_ring(1) [OF lens(1)], of "fill_addrs NUM_DESCS"]
    by (auto simp: fresh_ring_view fill_addrs_def NUM_DESCS_def simp del: of_nat_mult)
  show ?thesis
    using assms q' fresh_ring [OF lens(2)] fresh_ring [OF lens(3)] fresh_ring [OF lens(4)]
    by (auto simp: xsk_configure_def xdp_umem_configure_def lassert_ok_def Let_def
        fresh_mapping_def rings_inv_def fresh_ring_view FQ_NUM_DESCS_def CQ_NUM_DESCS_def
        NUM_DESCS_def simp del: length_in_flight split: if_splits sum.splits)
qed

lemma fresh_socket_inv:
  assumes "fresh_socket x"
  shows "sys_inv \<lparr>sock = x, rx_held = {#}, tx_held = {#}\<rparr>"
proof -
  have "rings_inv x" "in_flight (fq (umem x)) = fill_addrs NUM_DESCS"
    "in_flight (cq (umem x)) = []" "in_flight (rx x) = []" "in_flight (tx x) = []"
    "outstanding_tx x = 0"
    using assms configure_fresh by (auto simp only: fresh_socket_def)
  then show ?thesis
    using frames_of_fill_addrs
    by (simp add: sys_inv_def frame_defs tx_pending_def del: length_in_flight mset_map)
qed

lemma reachable_inv: "reachable s \<Longrightarrow> sys_inv s"
proof (induction rule: reachable.induct)
  case (r_start x)
  then show ?case by (rule fresh_socket_inv)
next
  case (r_kernel s t)
  then show ?case by (blast intro: kernel_step_inv)
next
  case (r_rxdrop s)
  then show ?case by (blast intro: rx_drop_inv)
next
  case (r_l2fwd s env t sent x)
  then show ?case by (blast intro: l2fwd_pass_ok(1))
qed

lemma configure_all_ok:
  assumes "fresh_mapping FQ_NUM_DESCS fqm" and "\<And>c. ok c"
  shows "\<exists>x. xsk_configure ok bench ifindex queue flags bufs fqm cqm rxm txm fd None = Inr x"
proof -
  let ?fq = "\<lparr>cached_prod = 0, cached_cons = 1024, qmask = 1023, qsize = 1024,
      producer = 0, consumer = 0, ring = m_ring fqm\<rparr> :: xdp_umem_uqueue"
  have len: "length (m_ring fqm) = 1024"
    using assms(1) by (simp add: fresh_mapping_def FQ_NUM_DESCS_def)
  obtain q' where "fill_frames (fill_addrs NUM_DESCS) ?fq = Inr q'"
    using fill_frames_spec [OF fresh_ring(1) [OF len], of "fill_addrs NUM_DESCS"]
    by (auto simp: fresh_ring_view fill_addrs_def NUM_DESCS_def simp del: of_nat_mult)
  then show ?thesis
    using assms by (auto simp: xsk_configure_def xdp_umem_configure_def lassert_ok_def Let_def
        fresh_mapping_def FQ_NUM_DESCS_def CQ_NUM_DESCS_def NUM_DESCS_def)
qed

lemma fresh_socket_exists: "\<exists>x. fresh_socket x"
proof -
  obtain x where "xsk_configure (\<lambda>_. True) BENCH_L2FWD 0 0 0 (\<lambda>_. 0) (zero_mapping FQ_NUM_DESCS 0)
      (zero_mapping CQ_NUM_DESCS 0) (zero_mapping NUM_DESCS desc0) (zero_mapping NUM_DESCS desc0) 3 None
      = Inr x"
    using configure_all_ok [of _ "\<lambda>_. True", OF fresh_zero_mapping TrueI] by blast
  then show ?thesis
    unfolding fresh_socket_def by (intro exI conjI) (assumption | rule fresh_zero_mapping)+
qed

lemma reachable_exists: "\<exists>s. reachable s"
  using fresh_socket_exists reachable.r_start by blast

lemma inj_on_of_nat_u64: "n < 2 ^ 64 \<Longrightarrow> inj_on (\<lambda>k. of_nat k :: u64) {0..<n}"
proof (rule inj_onI)
  fix x y :: nat
  assume n: "n < 2 ^ 64" and xy: "x \<in> {0..<n}" "y \<in> {0..<n}" "(of_nat x :: u64) = of_nat y"
  have "x < 2 ^ 64" "y < 2 ^ 64"
    using xy(1,2) n by (simp_all only: atLeastLessThan_iff) (erule (1) less_trans [OF conjunct2])+
  then have "unat (of_nat x :: u64) = x" "unat (of_nat y :: u64) = y"
    by (simp_all only: unat_of_nat_u64)
  with arg_cong [OF xy(3), of unat] show "x = y" by (simp only:)
qed

lemma distinct_frames: "distinct (map (\<lambda>k. of_nat k :: u64) [0..<NUM_DESCS])"
proof -
  have "NUM_DESCS < 2 ^ 64" by (simp add: NUM_DESCS_def)
  then show ?thesis
    unfolding distinct_map set_upt using inj_on_of_nat_u64 distinct_upt by blast
qed

section \<open>Properties\<close>

text \<open>
  Configuration succeeds on fresh mappings whenever every call does: the fill loop never
  runs out of room, and the socket comes out with empty RX, TX and completion rings, nothing
  outstanding, and exactly the first \<open>NUM_DESCS\<close> frames on the fill ring, each of which lies
  inside the registered UMEM.
\<close>

theorem xsk_configure_fills_ring:
  assumes "fresh_mapping FQ_NUM_DESCS fqm" "fresh_mapping CQ_NUM_DESCS cqm"
    and "fresh_mapping NUM_DESCS rxm" "fresh_mapping NUM_DESCS txm" and "\<And>c. ok c"
  shows "\<exists>x. xsk_configure ok bench ifindex queue flags bufs fqm cqm rxm txm fd None = Inr x
    \<and> rings_inv x \<and> in_flight (fq (umem x)) = fill_addrs NUM_DESCS
    \<and> in_flight (cq (umem x)) = [] \<and> in_flight (rx x) = [] \<and> in_flight (tx x) = []
    \<and> outstanding_tx x = 0
    \<and> list_all (\<lambda>a. unat a + FRAME_SIZE \<le> NUM_FRAMES * FRAME_SIZE) (in_flight (fq (umem x)))"
proof -
  obtain x where x: "xsk_configure ok bench ifindex queue flags bufs fqm cqm rxm txm fd None = Inr x"
    using configure_all_ok [of fqm ok] assms(1,5) by blast
  have "list_all (\<lambda>a. unat a + FRAME_SIZE \<le> NUM_FRAMES * FRAME_SIZE) (fill_addrs NUM_DESCS)"
    by (auto simp: list_all_iff fill_addrs_def FRAME_SIZE_def NUM_DESCS_def NUM_FRAMES_def
        unat_of_nat simp del: of_nat_mult)
  with x configure_fresh [OF assms(1-4) x] show ?thesis
    by (simp del: length_in_flight)
qed

theorem xsk_configure_fills_ring_witness:
  "\<exists>x. xsk_configure (\<lambda>_. True) BENCH_RXDROP 2 0 0 (\<lambda>_. 0) (zero_mapping FQ_NUM_DESCS 0)
      (zero_mapping CQ_NUM_DESCS 0) (zero_mapping NUM_DESCS desc0) (zero_mapping NUM_DESCS desc0) 3 None
      = Inr x \<and> in_flight (fq (umem x)) = fill_addrs NUM_DESCS"
  using xsk_configure_fills_ring [OF fresh_zero_mapping [of _ 0] fresh_zero_mapping [of _ 0]
      fresh_zero_mapping [of _ desc0] fresh_zero_mapping [of _ desc0], of "\<lambda>_. True"] by blast

text \<open>
  A failing configuration is reported at the call that failed: on fresh mappings the
  result is never the assertion of the fill loop, and the call it names did fail.
\<close>

theorem xsk_configure_failure:
  assumes "fresh_mapping FQ_NUM_DESCS fqm"
    and "xsk_configure ok bench ifindex queue flags bufs fqm cqm rxm txm fd None = Inl c"
  shows "\<not> ok c \<and> (\<forall>i. c \<noteq> FillFrame i)"
proof -
  let ?fq = "\<lparr>cached_prod = 0, cached_cons = 1024, qmask = 1023, qsize = 1024,
      producer = 0, consumer = 0, ring = m_ring fqm\<rparr> :: xdp_umem_uqueue"
  have len: "length (m_ring fqm) = 1024"
    using assms(1) by (simp add: fresh_mapping_def FQ_NUM_DESCS_def)
  obtain q' where "fill_frames (fill_addrs NUM_DESCS) ?fq = Inr q'"
    using fill_frames_spec [OF fresh_ring(1) [OF len], of "fill_addrs NUM_DESCS"]
    by (auto simp: fresh_ring_view fill_addrs_def NUM_DESCS_def simp del: of_nat_mult)
  then show ?thesis
    using assms by (auto simp: xsk_configure_def xdp_umem_configure_def lassert_ok_def Let_def
        fresh_mapping_def FQ_NUM_DESCS_def CQ_NUM_DESCS_def NUM_DESCS_def
        split: if_splits sum.splits)
qed

theorem xsk_configure_failure_witness:
  "\<exists>c. xsk_configure (\<lambda>c. c \<noteq> SetFillRing 1024) BENCH_RXDROP 2 0 0 (\<lambda>_. 0)
      (zero_mapping FQ_NUM_DESCS 0) (zero_mapping CQ_NUM_DESCS 0) (zero_mapping NUM_DESCS desc0)
      (zero_mapping NUM_DESCS desc0) 3 None = Inl c \<and> c = SetFillRing 1024"
proof -
  have "xsk_configure (\<lambda>c. c \<noteq> SetFillRing 1024) BENCH_RXDROP 2 0 0 (\<lambda>_. 0)
      (zero_mapping FQ_NUM_DESCS 0) (zero_mapping CQ_NUM_DESCS 0) (zero_mapping NUM_DESCS desc0)
      (zero_mapping NUM_DESCS desc0) 3 None = Inl (SetFillRing 1024)" (is "?c = _")
    by (simp add: xsk_configure_def xdp_umem_configure_def lassert_ok_def FQ_NUM_DESCS_def)
  with xsk_configure_failure [OF fresh_zero_mapping [of _ 0] this] show ?thesis by simp
qed

text \<open>
  (C1) Frames are conserved: in every reachable state, whatever the kernel does within the
  AF_XDP protocol, every frame of the fill ring's initial content has exactly one owner (a
  ring or the kernel), no frame is in two places, and \<open>outstanding_tx\<close> is exactly the number
  of frames between the TX ring and the completion ring, so it never wraps below zero.
\<close>

theorem frames_have_one_owner:
  assumes "reachable s"
  shows "owned s = all_frames \<and> (\<forall>f. count (owned s) f \<le> 1)
    \<and> unat (outstanding_tx (sock s))
        = length (in_flight (tx_of s)) + size (tx_held s) + length (in_flight (cq_of s))"
proof -
  have inv: "sys_inv s" using assms by (rule reachable_inv)
  have one: "count all_frames f \<le> 1" for f
    using distinct_count_atmost_1 [THEN iffD1, OF distinct_frames] by (simp add: all_frames_def del: mset_map)
  with inv sys_inv_outstanding [OF inv] show ?thesis
    by (simp add: sys_inv_def del: length_in_flight)
qed

theorem frames_have_one_owner_witness: "\<exists>s. reachable s \<and> owned s = all_frames"
  using reachable_exists frames_have_one_owner by blast

text \<open>
  (C4) No assertion of l2fwd can fail in a reachable state: the received batch always fits on
  the TX ring, so a pass ends the process exactly if transmissions are outstanding and
  \<open>sendto\<close> fails with an error other than \<open>ENOBUFS\<close>, \<open>EAGAIN\<close> and \<open>EBUSY\<close>.
\<close>

theorem l2fwd_asserts_hold:
  assumes "reachable s" and "env_moves s env t"
  shows "l2fwd_pass sent env (sock s) = Inl a
    \<longleftrightarrow> outstanding_tx (sock s) \<noteq> 0 \<and> a = LAssert ''kick_tx''
        \<and> (\<exists>e. sent = Inl e \<and> e \<notin> {ENOBUFS, EAGAIN, EBUSY})"
proof -
  have kick: "kick_tx sent = Inl a \<longleftrightarrow>
      a = LAssert ''kick_tx'' \<and> (\<exists>e. sent = Inl e \<and> e \<notin> {ENOBUFS, EAGAIN, EBUSY})"
    by (auto simp: kick_tx_def split: sum.splits)
  have "l2fwd_pass sent env (sock s) = Inl a" if "outstanding_tx (sock s) \<noteq> 0" "kick_tx sent = Inl a"
    using that by (simp add: l2fwd_pass_def complete_tx_l2fwd_def)
  with l2fwd_pass_ok(2) [OF reachable_inv [OF assms(1)] assms(2)] kick show ?thesis
    by blast
qed

theorem l2fwd_asserts_hold_witness:
  "\<exists>s x. reachable s \<and> l2fwd_pass (Inl ENOBUFS) (\<lambda>x. x) (sock s) = Inr x"
proof -
  obtain s where s: "reachable s" using reachable_exists by blast
  have "env_moves s (\<lambda>x. x) s" by (simp add: env_moves_def)
  from l2fwd_asserts_hold [OF s this, of "Inl ENOBUFS"]
  have "\<forall>a. l2fwd_pass (Inl ENOBUFS) (\<lambda>x. x) (sock s) \<noteq> Inl a" by simp
  with s show ?thesis by (metis sum.exhaust)
qed

text \<open>
  (C33) The results that rxdrop and l2fwd ignore are always success: in a reachable state
  the fill ring has room for whatever can be completed, and for whatever can be received,
  so no frame leaks at \<open>umem_fill_to_kernel\<close>.
\<close>

theorem fill_never_fails:
  assumes "reachable s" and "n < 2 ^ 31"
  shows "fst (umem_fill_to_kernel (fq_of s) (fst (umem_complete_from_kernel (cq_of s) n))) = Inr ()
    \<and> fst (umem_fill_to_kernel_ex (fq_of s) (fst (snd (xq_deq (rx_of s) (int n))))) = Inr ()"
proof -
  have inv: "sys_inv s" using assms(1) by (rule reachable_inv)
  obtain descs cq' where c: "umem_complete_from_kernel (cq_of s) n = (descs, cq')"
    by fastforce
  obtain rcvd ds rx' where d: "xq_deq (rx_of s) (int n) = (rcvd, ds, rx')"
    by (metis prod_cases3)
  have "fst (umem_fill_to_kernel (fq_of s) descs) = Inr ()"
    using completed_frames(2) [OF inv assms(2) c] by (metis fst_conv)
  moreover have "fst (umem_fill_to_kernel_ex (fq_of s) ds) = Inr ()"
    using received_frames(3) [OF inv assms(2) d] by (metis fst_conv)
  ultimately show ?thesis using c d by simp
qed

theorem fill_never_fails_witness:
  "\<exists>s. reachable s \<and> fst (umem_fill_to_kernel_ex (fq_of s) (fst (snd (xq_deq (rx_of s) (int 16))))) = Inr ()"
  using reachable_exists fill_never_fails [where n = 16] by auto

end
