(* ===== verification/Xdp_Bench.thy ===== *)
theory Xdp_Bench
  imports Xdp_System
begin

text \<open>
  What the benchmarks do to packets and addresses: the generated frames of txonly, the MAC swap
  of l2fwd, and the statistics thread's \<open>dump_stats\<close>.
\<close>

section \<open>Statistics\<close>

definition get_nsecs :: "u64 \<Rightarrow> u64 \<Rightarrow> u64" where
  "get_nsecs tv_sec tv_nsec = tv_sec * 1000000000 + tv_nsec"

text \<open>What one line of the report is computed from; the rates it prints are the two deltas
  divided by \<open>dt\<close>, in floating point.\<close>

record stat_line =
  sl_sock :: nat
  sl_rx_delta :: u64
  sl_tx_delta :: u64
  sl_dt :: int
  sl_rx :: u64
  sl_tx :: u64

text \<open>\<open>for (i = 0; i < num_socks && xsks[i]; i++)\<close>: the list holds the first \<open>num_socks\<close>
  entries of \<open>xsks\<close>, a null pointer is \<open>None\<close>.\<close>

primrec dump_socks ::
  "nat \<Rightarrow> int \<Rightarrow> xdpsock option list \<Rightarrow> stat_line list \<times> xdpsock option list" where
  "dump_socks i dt [] = ([], [])"
| "dump_socks i dt (x # xs) =
     (case x of None \<Rightarrow> ([], x # xs)
      | Some xsk \<Rightarrow>
          let (lines, xs') = dump_socks (Suc i) dt xs
          in (\<lparr>sl_sock = i, sl_rx_delta = rx_npkts xsk - prev_rx_npkts xsk,
               sl_tx_delta = tx_npkts xsk - prev_tx_npkts xsk, sl_dt = dt,
               sl_rx = rx_npkts xsk, sl_tx = tx_npkts xsk\<rparr> # lines,
              Some (xsk\<lparr>prev_rx_npkts := rx_npkts xsk, prev_tx_npkts := tx_npkts xsk\<rparr>) # xs'))"

definition dump_stats ::
  "u64 \<Rightarrow> u64 \<times> xdpsock option list \<Rightarrow> stat_line list \<times> u64 \<times> xdpsock option list" where
  "dump_stats now st =
     (let (prev_time, xsks) = st;
          dt = sint (now - prev_time);
          (lines, xsks) = dump_socks 0 dt xsks
      in (lines, now, xsks))"

section \<open>Bytes of a frame\<close>

lemma write_bytes_outside:
  "i < a \<or> a + length bs \<le> i \<Longrightarrow> write_bytes m a bs i = m i"
  by (auto simp: write_bytes_def)

lemma write_bytes_inside:
  "i < length bs \<Longrightarrow> write_bytes m a bs (a + i) = bs ! i"
  by (simp add: write_bytes_def)

lemma length_read_bytes [simp]: "length (read_bytes m a n) = n"
  by (simp add: read_bytes_def)

lemma read_write_bytes: "read_bytes (write_bytes m a bs) a (length bs) = bs"
  by (auto simp: read_bytes_def write_bytes_def intro!: nth_equalityI)

lemma read_write_bytes_other:
  "b + n \<le> a \<or> a + length bs \<le> b \<Longrightarrow> read_bytes (write_bytes m a bs) b n = read_bytes m b n"
  by (auto simp: read_bytes_def write_bytes_def)

lemma swap_mac_byte:
  "swap_mac_addresses m d i =
     (if d \<le> i \<and> i < d + 6 then m (i + 6)
      else if d + 6 \<le> i \<and> i < d + 12 then m (i - 6) else m i)"
  by (auto simp: swap_mac_addresses_def read_bytes_def write_bytes_def Let_def add.commute)

lemma length_pkt_data [simp]: "length pkt_data = 60"
  by (simp add: pkt_data_def)

lemma gen_frames_upto:
  assumes "k < n"
  shows "read_bytes (fold (\<lambda>i m. fst (gen_eth_frame m (i * FRAME_SIZE))) [0..<n] bufs) (k * FRAME_SIZE) 60
    = pkt_data"
  using assms
proof (induction n)
  case 0
  then show ?case by simp
next
  case (Suc n)
  let ?m = "fold (\<lambda>i m. fst (gen_eth_frame m (i * FRAME_SIZE))) [0..<n] bufs"
  show ?case
  proof (cases "k = n")
    case True
    then show ?thesis
      using read_write_bytes [of ?m "n * FRAME_SIZE" pkt_data] by (simp add: gen_eth_frame_def)
  next
    case False
    then have "k * FRAME_SIZE + 60 \<le> n * FRAME_SIZE"
      using Suc.prems by (auto simp: FRAME_SIZE_def)
    with False Suc show ?thesis
      by (simp add: gen_eth_frame_def read_write_bytes_other)
  qed
qed

section \<open>Addresses of generated frames\<close>

lemma tx_only_addr:
  fixes fid :: u32
  assumes "unat fid + i < NUM_FRAMES"
  shows "(ucast (push_bit FRAME_SHIFT (fid + of_nat i)) :: u64) = of_nat ((unat fid + i) * FRAME_SIZE)"
proof -
  have small: "(unat fid + i) * 2048 < 2 ^ 32"
    using assms by (simp add: NUM_FRAMES_def)
  have "fid + of_nat i = of_nat (unat fid + i)" by simp
  then have "push_bit FRAME_SHIFT (fid + of_nat i) = of_nat ((unat fid + i) * 2048)"
    by (simp add: push_bit_eq_mult FRAME_SHIFT_def mult.commute)
  moreover have "(ucast (of_nat ((unat fid + i) * 2048) :: u32) :: u64)
      = of_nat (unat (of_nat ((unat fid + i) * 2048) :: u32))"
    by (simp only: of_nat_unat)
  ultimately show ?thesis
    using unat_of_nat_u32 [OF small] by (simp only: FRAME_SIZE_def)
qed

lemma xq_enq_tx_only_spec:
  assumes inv: "prod_inv uq" and idx: "unat fid + unat n \<le> NUM_FRAMES"
    and eq: "xq_enq_tx_only uq fid n = (r, uq')"
  shows "prod_inv uq'" "capacity uq' = capacity uq"
    "r = (if length (in_flight uq) + unat n \<le> capacity uq then Inr () else Inl ENOSPC)"
    "tx_pending uq' = tx_pending uq @ (if r = Inr ()
       then map (\<lambda>i. (of_nat ((unat fid + i) * FRAME_SIZE), of_nat PKT_LEN)) [0..<unat n] else [])"
proof -
  let ?put = "\<lambda>i r. r\<lparr>addr := ucast (push_bit FRAME_SHIFT (fid + of_nat i)), dlen := of_nat PKT_LEN\<rparr>"
  let ?val = "\<lambda>i. (ucast (push_bit FRAME_SHIFT (fid + of_nat i)) :: u64, of_nat PKT_LEN :: u32)"
  have len: "length [0..<unat n] < 2 ^ 32"
    using unsigned_less [of n, where 'a = nat] by simp
  have view: "desc_view (?put x d) = ?val x" for x d
    by (simp add: desc_view_def)
  have e: "enqueue ?put uq [0..<unat n] = (r, uq')"
    using eq by (simp only: xq_enq_tx_only_eq)
  note spec = enqueue_spec [where view = desc_view and val = ?val, OF inv len view e]
  show "prod_inv uq'" "capacity uq' = capacity uq"
    by (rule spec)+
  show "r = (if length (in_flight uq) + unat n \<le> capacity uq then Inr () else Inl ENOSPC)"
    using spec(4) by (simp only: length_upt diff_zero)
  have "map ?val [0..<unat n]
      = map (\<lambda>i. (of_nat ((unat fid + i) * FRAME_SIZE), of_nat PKT_LEN)) [0..<unat n]"
    using idx by (intro map_cong refl) (simp add: tx_only_addr del: of_nat_mult)
  with spec(5) show "tx_pending uq' = tx_pending uq @ (if r = Inr ()
       then map (\<lambda>i. (of_nat ((unat fid + i) * FRAME_SIZE), of_nat PKT_LEN)) [0..<unat n] else [])"
    by (simp only: tx_pending_def)
qed

section \<open>The state txonly keeps\<close>

text \<open>Between two passes of \<open>tx_only\<close>: the next frame number starts a batch inside the UMEM,
  and every descriptor on the TX ring names a whole generated frame.\<close>

definition frame_descs :: "xdp_uqueue \<Rightarrow> bool" where
  "frame_descs q \<longleftrightarrow>
     set (tx_pending q) \<subseteq> (\<lambda>k. (of_nat (k * FRAME_SIZE), of_nat PKT_LEN)) ` {0..<NUM_FRAMES}"

definition tx_only_inv :: "xdpsock \<times> u32 \<Rightarrow> bool" where
  "tx_only_inv st \<longleftrightarrow> prod_inv (tx (fst st)) \<and> frame_descs (tx (fst st))
     \<and> unat (snd st) < NUM_FRAMES \<and> BATCH_SIZE dvd unat (snd st)"

text \<open>What \<open>sendto\<close> may do to the TX ring: the kernel takes descriptors off it.\<close>

definition sends_only :: "(xdpsock \<Rightarrow> xdpsock) \<Rightarrow> bool" where
  "sends_only env \<longleftrightarrow> (\<forall>x. prod_inv (tx x) \<longrightarrow>
     prod_inv (tx (env x)) \<and> set (tx_pending (tx (env x))) \<subseteq> set (tx_pending (tx x))
     \<and> frames (umem (env x)) = frames (umem x))"

lemma sends_only_id: "sends_only (\<lambda>x. x)"
  by (simp add: sends_only_def)

lemma batch_below: "k < NUM_FRAMES \<Longrightarrow> BATCH_SIZE dvd k \<Longrightarrow> k + BATCH_SIZE \<le> NUM_FRAMES"
  by (auto simp: NUM_FRAMES_def BATCH_SIZE_def dvd_def)

lemma next_batch:
  fixes idx :: u32
  assumes "unat idx < NUM_FRAMES" and "BATCH_SIZE dvd unat idx"
  shows "unat ((idx + of_nat BATCH_SIZE) mod of_nat NUM_FRAMES) < NUM_FRAMES"
    "BATCH_SIZE dvd unat ((idx + of_nat BATCH_SIZE) mod of_nat NUM_FRAMES)"
proof -
  have "unat idx + BATCH_SIZE < 2 ^ 32"
    using assms(1) by (simp add: NUM_FRAMES_def BATCH_SIZE_def)
  then have "unat (idx + of_nat BATCH_SIZE) = unat idx + BATCH_SIZE"
    by (rule unat_add_of_nat)
  moreover have "unat (of_nat NUM_FRAMES :: u32) = NUM_FRAMES"
    by (rule unat_of_nat_u32) (simp add: NUM_FRAMES_def)
  ultimately have m: "unat ((idx + of_nat BATCH_SIZE) mod of_nat NUM_FRAMES)
      = (unat idx + BATCH_SIZE) mod NUM_FRAMES"
    by (simp only: unat_mod_distrib)
  show "unat ((idx + of_nat BATCH_SIZE) mod of_nat NUM_FRAMES) < NUM_FRAMES"
    unfolding m by (simp add: NUM_FRAMES_def)
  have "BATCH_SIZE dvd NUM_FRAMES" by (simp add: NUM_FRAMES_def BATCH_SIZE_def)
  then show "BATCH_SIZE dvd unat ((idx + of_nat BATCH_SIZE) mod of_nat NUM_FRAMES)"
    unfolding m using assms(2) by (simp add: dvd_mod)
qed

lemma nb_free_tx_only:
  assumes "prod_inv q" and "xq_nb_free q nb = (f, q')"
  shows "prod_inv q'" "tx_pending q' = tx_pending q" "capacity q' = capacity q"
    "unat nb \<le> unat f \<longleftrightarrow> length (in_flight q) + unat nb \<le> capacity q"
proof -
  have e: "umem_nb_free q nb = (f, q')" using assms(2) by (simp only: xq_nb_free_eq)
  note spec = nb_free_spec [OF assms(1) e]
  obtain cc where q': "q' = q\<lparr>cached_cons := cc\<rparr>" using spec(1) by blast
  show "prod_inv q'" by (rule spec(2))
  show "tx_pending q' = tx_pending q" "capacity q' = capacity q"
    by (simp_all add: q' tx_pending_def in_flight_def slots_def capacity_def)
  show "unat nb \<le> unat f \<longleftrightarrow> length (in_flight q) + unat nb \<le> capacity q"
    using spec(3) in_flight_le [OF assms(1)] by (simp add: free_slots_def le_diff_conv2 add.commute
        del: length_in_flight)
qed

lemma complete_tx_only_tx:
  assumes "complete_tx_only sent env x = Inr x'" and "sends_only env" and "prod_inv (tx x)"
    and "frame_descs (tx x)"
  shows "prod_inv (tx x')" "frame_descs (tx x')" "frames (umem x') = frames (umem x)"
proof -
  have "tx x' = tx x \<and> frames (umem x') = frames (umem x)
      \<or> tx x' = tx (env x) \<and> frames (umem x') = frames (umem (env x))"
    using assms(1) by (auto simp: complete_tx_only_def Let_def split_beta split: if_splits sum.splits)
  with assms show "prod_inv (tx x')" "frame_descs (tx x')" "frames (umem x') = frames (umem x)"
    unfolding sends_only_def frame_descs_def by fastforce+
qed

lemma tx_only_pass_inv:
  assumes inv: "tx_only_inv (x, idx)" and env: "sends_only env"
    and eq: "tx_only_pass opt_poll ret fds_fd pollout sent env (x, idx) = r"
  shows "case r of Inl a \<Rightarrow> kick_tx sent = Inl a
    | Inr (x', idx') \<Rightarrow> tx_only_inv (x', idx') \<and> frames (umem x') = frames (umem x)"
proof -
  obtain f q1 where f: "xq_nb_free (tx x) (of_nat BATCH_SIZE) = (f, q1)" by fastforce
  have p: "prod_inv (tx x)" "frame_descs (tx x)" and idx: "unat idx < NUM_FRAMES" "BATCH_SIZE dvd unat idx"
    using inv by (simp_all add: tx_only_inv_def)
  note q1 = nb_free_tx_only [OF p(1) f]
  obtain e q2 where e: "xq_enq_tx_only q1 idx (of_nat BATCH_SIZE) = (e, q2)" by fastforce
  have b: "unat (of_nat BATCH_SIZE :: u32) = BATCH_SIZE" by (simp add: BATCH_SIZE_def)
  note spec = xq_enq_tx_only_spec [OF q1(1) _ e, unfolded b, OF batch_below [OF idx]]
  have len: "length (in_flight q1) = length (in_flight (tx x))"
    using arg_cong [OF q1(2), of length] by (simp add: tx_pending_def del: length_in_flight)
  have kick: "kick_tx sent = Inl a" if "complete_tx_only sent env y = Inl a" for y a
    using that by (auto simp: complete_tx_only_def Let_def split_beta split: if_splits sum.splits)
  show ?thesis
  proof (cases "opt_poll \<and> (ret \<le> 0 \<or> fds_fd \<noteq> sfd x \<or> \<not> pollout)")
    case True
    then have "r = Inr (x, idx)" using eq by (simp add: tx_only_pass_def)
    with inv show ?thesis by simp
  next
    case go: False
    define y where "y = (if of_nat BATCH_SIZE \<le> f
      then (x\<lparr>tx := q2, outstanding_tx := outstanding_tx x + of_nat BATCH_SIZE\<rparr>,
            (idx + of_nat BATCH_SIZE) mod of_nat NUM_FRAMES) else (x\<lparr>tx := q1\<rparr>, idx))"
    have "e = Inr ()" if "of_nat BATCH_SIZE \<le> f"
      using that q1(3,4) spec(3) len by (simp only: word_le_nat_alt b) simp
    then have r: "r = (case complete_tx_only sent env (fst y) of Inl a \<Rightarrow> Inl a | Inr x' \<Rightarrow> Inr (x', snd y))"
      using eq go f e by (auto simp: tx_only_pass_def y_def Let_def split: sum.split)
    have gen: "set (map (\<lambda>i. (of_nat ((unat idx + i) * FRAME_SIZE), of_nat PKT_LEN)) [0..<BATCH_SIZE])
        \<subseteq> (\<lambda>k. (of_nat (k * FRAME_SIZE) :: u64, of_nat PKT_LEN :: u32)) ` {0..<NUM_FRAMES}"
      using batch_below [OF idx] by (auto simp del: of_nat_mult of_nat_add)
    have "prod_inv (tx (fst y))" "frame_descs (tx (fst y))"
      "unat (snd y) < NUM_FRAMES" "BATCH_SIZE dvd unat (snd y)" "frames (umem (fst y)) = frames (umem x)"
      using q1 spec p idx next_batch [OF idx] gen by (auto simp: y_def frame_descs_def simp del: set_map)
    then show ?thesis
      using complete_tx_only_tx [OF _ env, of sent "fst y"] kick r
      by (cases "complete_tx_only sent env (fst y)") (auto simp: tx_only_inv_def)
  qed
qed

lemma tx_only_start:
  assumes "prod_inv q" "in_flight q = []" "tx x = q"
  shows "tx_only_inv (x, 0)"
  using assms by (simp add: tx_only_inv_def frame_descs_def tx_pending_def NUM_FRAMES_def BATCH_SIZE_def)

section \<open>Properties\<close>

text \<open>
  (C32) txonly never hits its assertion: \<open>xq_nb_free\<close> having promised a batch, the enqueue
  that follows succeeds; a pass ends the process only where \<open>sendto\<close> fails for good. Every
  other pass keeps the next frame number a batch boundary below \<open>NUM_FRAMES\<close> (also where it
  wraps around) and leaves only whole frames of the UMEM, of 60 bytes each, on the TX ring.
\<close>

theorem tx_only_pass_safe:
  assumes "tx_only_inv (x, idx)" and "sends_only env"
  shows "case tx_only_pass opt_poll ret fds_fd pollout sent env (x, idx) of
      Inl a \<Rightarrow> a = LAssert ''kick_tx'' \<and> (\<exists>e. sent = Inl e \<and> e \<notin> {ENOBUFS, EAGAIN, EBUSY})
    | Inr st' \<Rightarrow> tx_only_inv st'"
  using tx_only_pass_inv [where opt_poll = opt_poll and ret = ret and fds_fd = fds_fd
      and pollout = pollout and sent = sent, OF assms refl]
  by (auto simp: kick_tx_def split: sum.splits prod.splits if_splits)

definition bench_sock :: xdpsock where
  "bench_sock = \<lparr>rx = ring2 desc0, tx = ring2 desc0, sfd = 3,
     umem = \<lparr>frames = (\<lambda>_. 0), fq = ring2 0, cq = ring2 0, ufd = 3\<rparr>,
     outstanding_tx = 0, rx_npkts = 0, tx_npkts = 0, prev_rx_npkts = 0, prev_tx_npkts = 0\<rparr>"

theorem tx_only_pass_safe_witness:
  "case tx_only_pass False 0 3 True (Inr 0) (\<lambda>x. x) (bench_sock, 0) of
     Inl a \<Rightarrow> False | Inr st' \<Rightarrow> tx_only_inv st'"
proof -
  have "tx_only_inv (bench_sock, 0)"
    by (rule tx_only_start [OF ring2_inv(1) ring2_empty(1)]) (simp add: bench_sock_def)
  from tx_only_pass_safe [where opt_poll = False and ret = 0 and fds_fd = 3 and pollout = True
      and sent = "Inr 0", OF this sends_only_id] show ?thesis
    by (auto split: sum.splits)
qed

text \<open>
  What txonly sends is the generated packet: with the UMEM as the TXONLY configuration
  leaves it, every descriptor on the TX ring after a pass points at 60 bytes that are exactly
  \<open>pkt_data\<close>.
\<close>

theorem tx_only_sends_pkt_data:
  assumes "tx_only_inv (x, idx)" and "sends_only env" and "frames (umem x) = gen_frames bufs"
    and "tx_only_pass opt_poll ret fds_fd pollout sent env (x, idx) = Inr (x', idx')"
  shows "\<forall>(a, len) \<in> set (tx_pending (tx x')).
    read_bytes (frames (umem x')) (xq_get_data x' a) (unat len) = pkt_data"
proof -
  have inv: "tx_only_inv (x', idx')" and mem: "frames (umem x') = gen_frames bufs"
    using tx_only_pass_inv [OF assms(1,2,4)] assms(3) by simp_all
  have "read_bytes (gen_frames bufs) (unat (of_nat (k * FRAME_SIZE) :: u64)) (unat (of_nat PKT_LEN :: u32))
      = pkt_data" if "k < NUM_FRAMES" for k
  proof -
    have "k * FRAME_SIZE < 2 ^ 64"
      using that by (simp add: NUM_FRAMES_def FRAME_SIZE_def)
    then have "unat (of_nat (k * FRAME_SIZE) :: u64) = k * FRAME_SIZE"
      by (rule unat_of_nat_u64)
    moreover have "unat (of_nat PKT_LEN :: u32) = 60" by (simp add: PKT_LEN_def)
    ultimately show ?thesis
      using gen_frames_upto [OF that] by (simp only: gen_frames_def)
  qed
  then show ?thesis
    using inv by (auto simp: tx_only_inv_def frame_descs_def xq_get_data_def mem simp del: of_nat_mult)
qed

theorem tx_only_sends_pkt_data_witness:
  "\<exists>x' idx'. tx_only_pass False 0 3 True (Inr 0) (\<lambda>x. x)
      (bench_sock\<lparr>umem := (umem bench_sock)\<lparr>frames := gen_frames (\<lambda>_. 0)\<rparr>\<rparr>, 0) = Inr (x', idx')
    \<and> (\<forall>(a, len) \<in> set (tx_pending (tx x')).
        read_bytes (frames (umem x')) (xq_get_data x' a) (unat len) = pkt_data)"
proof -
  let ?x = "bench_sock\<lparr>umem := (umem bench_sock)\<lparr>frames := gen_frames (\<lambda>_. 0)\<rparr>\<rparr>"
  have inv: "tx_only_inv (?x, 0)"
    by (rule tx_only_start [OF ring2_inv(1) ring2_empty(1)]) (simp add: bench_sock_def)
  obtain x' idx' where eq: "tx_only_pass False 0 3 True (Inr 0) (\<lambda>x. x) (?x, 0) = Inr (x', idx')"
    using tx_only_pass_inv [where opt_poll = False and ret = 0 and fds_fd = 3 and pollout = True
      and sent = "Inr 0", OF inv sends_only_id refl]
    by (cases "tx_only_pass False 0 3 True (Inr 0) (\<lambda>x. x) (?x, 0)") (auto simp: kick_tx_def)
  have mem: "frames (umem ?x) = gen_frames (\<lambda>_. 0)" by simp
  show ?thesis
    using tx_only_sends_pkt_data [OF inv sends_only_id mem eq] eq by blast
qed

section \<open>MAC swapping\<close>

text \<open>The bytes of the Ethernet header's two addresses.\<close>

definition mac_bytes :: "nat \<Rightarrow> nat set" where
  "mac_bytes a = {a..<a + 12}"

definition mac_swapped :: "memory \<Rightarrow> memory \<Rightarrow> nat \<Rightarrow> bool" where
  "mac_swapped m m' a \<longleftrightarrow>
     read_bytes m' a 6 = read_bytes m (a + 6) 6 \<and> read_bytes m' (a + 6) 6 = read_bytes m a 6"

lemma swap_mac_other: "i \<notin> mac_bytes a \<Longrightarrow> swap_mac_addresses m a i = m i"
  by (auto simp: swap_mac_byte mac_bytes_def)

lemma swap_mac_swaps: "mac_swapped m (swap_mac_addresses m a) a"
  by (auto simp: mac_swapped_def read_bytes_def swap_mac_byte ac_simps)

lemma swap_mac_involution: "swap_mac_addresses (swap_mac_addresses m a) a = m"
  by (rule ext) (auto simp: swap_mac_byte)

lemma mac_swapped_cong:
  assumes "\<And>i. i \<in> mac_bytes a \<Longrightarrow> n i = m i" and "\<And>i. i \<in> mac_bytes a \<Longrightarrow> n' i = m' i"
  shows "mac_swapped n n' a = mac_swapped m m' a"
  using assms by (simp add: mac_swapped_def read_bytes_def mac_bytes_def)

definition headers_apart :: "xdp_desc list \<Rightarrow> bool" where
  "headers_apart ds \<longleftrightarrow> distinct (map (\<lambda>d. unat (addr d) div FRAME_SIZE) ds)
     \<and> list_all (\<lambda>d. unat (addr d) mod FRAME_SIZE + 12 \<le> FRAME_SIZE) ds"

lemma headers_disjoint:
  assumes "a div FRAME_SIZE \<noteq> b div FRAME_SIZE" and "a mod FRAME_SIZE + 12 \<le> FRAME_SIZE"
    and "b mod FRAME_SIZE + 12 \<le> FRAME_SIZE" and "i \<in> mac_bytes a"
  shows "i \<notin> mac_bytes b"
proof -
  have frame: "j div FRAME_SIZE = c div FRAME_SIZE"
    if "j \<in> mac_bytes c" "c mod FRAME_SIZE + 12 \<le> FRAME_SIZE" for j c
  proof -
    have "j = c div FRAME_SIZE * FRAME_SIZE + (c mod FRAME_SIZE + (j - c))"
      using that(1) by (simp add: mac_bytes_def)
    moreover have "c mod FRAME_SIZE + (j - c) < FRAME_SIZE"
      using that by (auto simp: mac_bytes_def)
    ultimately show ?thesis
      by (metis add_cancel_right_right div_less div_mult_self3 less_nat_zero_code)
  qed
  show ?thesis using assms frame by metis
qed

lemma swap_all_mem:
  "frames (umem (swap_all x (d # ds))) =
     frames (umem (swap_all (x\<lparr>umem := (umem x)\<lparr>frames := swap_mac_addresses (frames (umem x)) (unat (addr d))\<rparr>\<rparr>) ds))"
  by (simp add: xq_get_data_def Let_def)

lemma swap_all_bytes:
  assumes "headers_apart ds"
  shows "(\<forall>d \<in> set ds. mac_swapped (frames (umem x)) (frames (umem (swap_all x ds))) (unat (addr d)))
    \<and> (\<forall>i. (\<forall>d \<in> set ds. i \<notin> mac_bytes (unat (addr d))) \<longrightarrow>
          frames (umem (swap_all x ds)) i = frames (umem x) i)"
  using assms
proof (induction ds arbitrary: x)
  case Nil
  then show ?case by simp
next
  case (Cons d ds)
  let ?m = "frames (umem x)"
  let ?m1 = "swap_mac_addresses ?m (unat (addr d))"
  let ?x = "x\<lparr>umem := (umem x)\<lparr>frames := ?m1\<rparr>\<rparr>"
  let ?m' = "frames (umem (swap_all ?x ds))"
  have ha: "headers_apart ds" using Cons.prems by (simp add: headers_apart_def)
  have apart: "i \<notin> mac_bytes (unat (addr d))" if "e \<in> set ds" "i \<in> mac_bytes (unat (addr e))" for e i
  proof (rule headers_disjoint [OF _ _ _ that(2)])
    show "unat (addr e) div FRAME_SIZE \<noteq> unat (addr d) div FRAME_SIZE"
      using Cons.prems imageI [OF that(1), of "\<lambda>d. unat (addr d) div FRAME_SIZE"]
      by (auto simp: headers_apart_def)
  qed (use that(1) Cons.prems in \<open>auto simp: headers_apart_def list_all_iff\<close>)
  have ih: "\<forall>e \<in> set ds. mac_swapped ?m1 ?m' (unat (addr e))"
    "\<And>i. (\<forall>e \<in> set ds. i \<notin> mac_bytes (unat (addr e))) \<Longrightarrow> ?m' i = ?m1 i"
    using Cons.IH [OF ha, of ?x] by simp_all
  have "mac_swapped ?m ?m' (unat (addr e)) = mac_swapped ?m1 ?m' (unat (addr e))" if "e \<in> set ds" for e
    using apart [OF that] by (intro mac_swapped_cong) (simp_all add: swap_mac_other)
  moreover have "mac_swapped ?m ?m' (unat (addr d)) = mac_swapped ?m ?m1 (unat (addr d))"
    using ih(2) apart by (intro mac_swapped_cong) blast+
  ultimately show ?case
    unfolding swap_all_mem using ih swap_mac_swaps [of ?m "unat (addr d)"]
    by (auto simp: swap_mac_other)
qed

text \<open>
  (C31) l2fwd swaps the MAC addresses of every received packet exactly once, and touches no
  other byte: for a batch of packets in different frames, each packet's destination address
  becomes its source address and the other way round, and all bytes outside the twelve are
  unchanged. Swapping once more gives the packet back.
\<close>

theorem l2fwd_swaps_each_packet:
  assumes "headers_apart ds"
  shows "(\<forall>d \<in> set ds. mac_swapped (frames (umem x)) (frames (umem (swap_all x ds))) (xq_get_data x (addr d)))
    \<and> (\<forall>i. (\<forall>d \<in> set ds. i \<notin> mac_bytes (xq_get_data x (addr d))) \<longrightarrow>
          frames (umem (swap_all x ds)) i = frames (umem x) i)
    \<and> swap_mac_addresses (swap_mac_addresses m a) a = m"
  using swap_all_bytes [OF assms, of x] by (simp add: xq_get_data_def swap_mac_involution)

theorem l2fwd_swaps_each_packet_witness:
  "mac_swapped (\<lambda>i. of_nat i) (frames (umem (swap_all
      (bench_sock\<lparr>umem := (umem bench_sock)\<lparr>frames := (\<lambda>i. of_nat i)\<rparr>\<rparr>)
      [desc0, desc0\<lparr>addr := 2304\<rparr>]))) 2304"
proof -
  have "headers_apart [desc0, desc0\<lparr>addr := 2304\<rparr>]"
    by (simp add: headers_apart_def desc0_def FRAME_SIZE_def)
  from l2fwd_swaps_each_packet [OF this, where x = "bench_sock\<lparr>umem := (umem bench_sock)\<lparr>frames := (\<lambda>i. of_nat i)\<rparr>\<rparr>"]
  show ?thesis by (simp add: xq_get_data_def desc0_def)
qed

section \<open>Statistics reports\<close>

lemma dump_socks_spec:
  "takeWhile (\<lambda>x. x \<noteq> None) xs = map Some ys \<Longrightarrow>
   dump_socks i dt xs =
     (map (\<lambda>(j, y). \<lparr>sl_sock = i + j, sl_rx_delta = rx_npkts y - prev_rx_npkts y,
         sl_tx_delta = tx_npkts y - prev_tx_npkts y, sl_dt = dt, sl_rx = rx_npkts y, sl_tx = tx_npkts y\<rparr>)
        (zip [0..<length ys] ys),
      map (\<lambda>y. Some (y\<lparr>prev_rx_npkts := rx_npkts y, prev_tx_npkts := tx_npkts y\<rparr>)) ys
        @ dropWhile (\<lambda>x. x \<noteq> None) xs)"
proof (induction xs arbitrary: i ys)
  case Nil
  then show ?case by simp
next
  case (Cons x xs)
  show ?case
  proof (cases x)
    case None
    with Cons.prems show ?thesis by simp
  next
    case (Some z)
    with Cons.prems obtain zs where ys: "ys = z # zs" "takeWhile (\<lambda>x. x \<noteq> None) xs = map Some zs"
      by (cases ys) auto
    have "[0..<Suc (length zs)] = 0 # map Suc [0..<length zs]"
      by (simp only: map_Suc_upt upt_conv_Cons zero_less_Suc)
    then show ?thesis
      using Some ys Cons.IH [of zs "Suc i"] by (simp add: zip_map1 case_prod_beta comp_def del: upt_Suc)
  qed
qed

text \<open>
  \<open>dump_stats\<close> reports for every socket up to the first missing one
  the packets since the last report and the time since then, changes no packet count, and
  resets the baselines of those sockets, and the time, to their current values; sockets behind
  the first missing one are left alone.
\<close>

theorem dump_stats_reports:
  assumes "takeWhile (\<lambda>x. x \<noteq> None) xs = map Some ys"
  shows "dump_stats now (prev, xs) =
     (map (\<lambda>(j, y). \<lparr>sl_sock = j, sl_rx_delta = rx_npkts y - prev_rx_npkts y,
         sl_tx_delta = tx_npkts y - prev_tx_npkts y, sl_dt = sint (now - prev),
         sl_rx = rx_npkts y, sl_tx = tx_npkts y\<rparr>) (zip [0..<length ys] ys),
      now,
      map (\<lambda>y. Some (y\<lparr>prev_rx_npkts := rx_npkts y, prev_tx_npkts := tx_npkts y\<rparr>)) ys
        @ dropWhile (\<lambda>x. x \<noteq> None) xs)"
  using dump_socks_spec [OF assms, of 0 "sint (now - prev)"] by (simp add: dump_stats_def)

theorem dump_stats_reports_witness:
  "dump_stats 5 (2, [Some (bench_sock\<lparr>rx_npkts := 7, prev_rx_npkts := 3\<rparr>), None]) =
     ([\<lparr>sl_sock = 0, sl_rx_delta = 4, sl_tx_delta = 0, sl_dt = 3, sl_rx = 7, sl_tx = 0\<rparr>], 5,
      [Some (bench_sock\<lparr>rx_npkts := 7, prev_rx_npkts := 7\<rparr>), None])"
  using dump_stats_reports [of "[Some (bench_sock\<lparr>rx_npkts := 7, prev_rx_npkts := 3\<rparr>), None]"
      "[bench_sock\<lparr>rx_npkts := 7, prev_rx_npkts := 3\<rparr>]" 5 2]
  by (simp add: bench_sock_def)

end
