(* ===== verification/Xdp_Kern.thy ===== *)
theory Xdp_Kern
  imports Prelude
begin

text \<open>
  The XDP program of xdpsock_kern.c and its three BPF maps. The helper \<open>bpf_redirect_map\<close> is
  the kernel's: it is an argument, as is the build-time switch \<open>RR_LB\<close> of xdpsock.h (0 in the
  repository), so that both builds are modelled. A lookup that finds nothing is \<open>None\<close>.
\<close>

definition MAX_SOCKS :: nat where "MAX_SOCKS = 4"

record bpf_maps =
  qidconf_map :: "nat \<rightharpoonup> int"
  xsks_map :: "nat \<rightharpoonup> int"
  rr_map :: "nat \<rightharpoonup> u32"

datatype xdp_action = XDP_ABORTED | XDP_PASS | XDP_REDIRECT nat

definition xdp_sock_prog ::
  "bool \<Rightarrow> ((nat \<rightharpoonup> int) \<Rightarrow> nat \<Rightarrow> xdp_action) \<Rightarrow> u32 \<Rightarrow> bpf_maps \<Rightarrow> xdp_action \<times> bpf_maps" where
  "xdp_sock_prog rr_lb bpf_redirect_map rx_queue_index maps =
     (let key = 0 in
      case qidconf_map maps key of
        None \<Rightarrow> (XDP_ABORTED, maps)
      | Some qidconf \<Rightarrow>
          if word_of_int qidconf \<noteq> rx_queue_index then (XDP_PASS, maps)
          else if rr_lb then
            (case rr_map maps key of
               None \<Rightarrow> (XDP_ABORTED, maps)
             | Some rr \<Rightarrow>
                 let rr = (rr + 1) AND (of_nat MAX_SOCKS - 1);
                     maps = maps\<lparr>rr_map := (rr_map maps)(key \<mapsto> rr)\<rparr>
                 in (bpf_redirect_map (xsks_map maps) (unat rr), maps))
          else (bpf_redirect_map (xsks_map maps) 0, maps))"

text \<open>A burst of packets on one queue.\<close>

primrec xdp_burst ::
  "bool \<Rightarrow> ((nat \<rightharpoonup> int) \<Rightarrow> nat \<Rightarrow> xdp_action) \<Rightarrow> u32 \<Rightarrow> nat \<Rightarrow> bpf_maps \<Rightarrow> xdp_action list \<times> bpf_maps" where
  "xdp_burst rr_lb redirect rxq 0 maps = ([], maps)"
| "xdp_burst rr_lb redirect rxq (Suc n) maps =
     (let (a, maps) = xdp_sock_prog rr_lb redirect rxq maps;
          (as, maps) = xdp_burst rr_lb redirect rxq n maps
      in (a # as, maps))"

section \<open>Round robin\<close>

lemma rr_step: "unat ((rr + 1) AND (of_nat MAX_SOCKS - 1)) = (unat (rr :: u32) + 1) mod MAX_SOCKS"
proof -
  have "(rr + 1) AND (of_nat MAX_SOCKS - 1) = (rr + 1) AND (2 ^ 2 - 1)"
    by (simp add: MAX_SOCKS_def)
  then have "unat ((rr + 1) AND (of_nat MAX_SOCKS - 1)) = unat (rr + 1) mod 2 ^ 2"
    by (simp only: unat_and_pow2_minus_1)
  moreover have "unat (rr + 1) mod 2 ^ 2 = (unat rr + 1) mod 2 ^ 2"
    using unat_plus_of_nat_mod [of 2 rr 1] by simp
  ultimately show ?thesis by (simp add: MAX_SOCKS_def)
qed

lemma xdp_burst_rr:
  assumes "qidconf_map maps 0 = Some q" and "word_of_int q = rxq" and "rr_map maps 0 = Some rr"
  shows "fst (xdp_burst True redirect rxq n maps)
       = map (\<lambda>i. redirect (xsks_map maps) ((unat rr + Suc i) mod MAX_SOCKS)) [0..<n]"
  using assms
proof (induction n arbitrary: maps rr)
  case 0
  then show ?case by simp
next
  case (Suc n)
  let ?rr = "(rr + 1) AND (of_nat MAX_SOCKS - 1)"
  let ?maps = "maps\<lparr>rr_map := (rr_map maps)(0 \<mapsto> ?rr)\<rparr>"
  have "fst (xdp_burst True redirect rxq n ?maps)
      = map (\<lambda>i. redirect (xsks_map ?maps) ((unat ?rr + Suc i) mod MAX_SOCKS)) [0..<n]"
    using Suc.prems by (intro Suc.IH) simp_all
  also have "\<dots> = map (\<lambda>i. redirect (xsks_map maps) ((unat rr + Suc (Suc i)) mod MAX_SOCKS)) [0..<n]"
  proof -
    have "(unat ?rr + Suc i) mod MAX_SOCKS = (unat rr + Suc (Suc i)) mod MAX_SOCKS" for i
      by (simp only: rr_step mod_add_left_eq) simp
    then show ?thesis by simp
  qed
  finally have tl: "fst (xdp_burst True redirect rxq n ?maps)
      = map (\<lambda>i. redirect (xsks_map maps) ((unat rr + Suc (Suc i)) mod MAX_SOCKS)) [0..<n]" .
  have "[0..<Suc n] = 0 # map Suc [0..<n]"
    by (simp only: map_Suc_upt upt_conv_Cons zero_less_Suc)
  with tl Suc.prems show ?case
    by (simp add: xdp_sock_prog_def rr_step split_beta Let_def comp_def del: upt_Suc)
qed

lemma rotation4: "mset (map (\<lambda>i. (n + Suc i) mod 4) [0..<4]) = mset [0..<4::nat]"
proof -
  have four: "[0..<4] = [0, 1, 2, 3::nat]" by (simp add: upt_rec)
  define r where "r = n mod 4"
  have "(n + Suc i) mod 4 = (r + Suc i) mod 4" for i
    by (simp only: r_def mod_add_left_eq)
  then have "map (\<lambda>i. (n + Suc i) mod 4) [0..<4] = map (\<lambda>i. (r + Suc i) mod 4) [0, 1, 2, 3]"
    by (simp only: four)
  moreover have "r = 0 \<or> r = 1 \<or> r = 2 \<or> r = 3"
    unfolding r_def by arith
  then have "mset (map (\<lambda>i. (r + Suc i) mod 4) [0, 1, 2, 3]) = mset [0, 1, 2, 3::nat]"
    by (elim disjE) (simp_all add: add_mset_commute)
  ultimately show ?thesis by (simp only: four)
qed

section \<open>Properties\<close>

definition bpf_maps0 :: bpf_maps where
  "bpf_maps0 = \<lparr>qidconf_map = [0 \<mapsto> 0], xsks_map = Map.empty, rr_map = [0 \<mapsto> 0]\<rparr>"

definition redirect_slot :: "(nat \<rightharpoonup> int) \<Rightarrow> nat \<Rightarrow> xdp_action" where
  "redirect_slot m i = XDP_REDIRECT i"

text \<open>
  The load balancer is fair: built with \<open>RR_LB\<close>, any \<open>MAX_SOCKS\<close> consecutive packets
  of the configured queue are redirected to the sockets \<open>rr + 1\<close>, \<open>rr + 2\<close>, ... modulo
  \<open>MAX_SOCKS\<close>, so every one of the \<open>MAX_SOCKS\<close> sockets gets exactly one of them, whatever value
  the 32-bit counter starts with.
\<close>

theorem xdp_sock_prog_fair:
  assumes "qidconf_map maps 0 = Some q" and "word_of_int q = rxq" and "rr_map maps 0 = Some rr"
  shows "mset (fst (xdp_burst True redirect rxq MAX_SOCKS maps))
       = mset (map (redirect (xsks_map maps)) [0..<MAX_SOCKS])"
proof -
  have "mset (map (\<lambda>i. (unat rr + Suc i) mod 4) [0..<4]) = mset [0..<4]"
    by (rule rotation4)
  then have "image_mset (redirect (xsks_map maps)) (mset (map (\<lambda>i. (unat rr + Suc i) mod 4) [0..<4]))
      = image_mset (redirect (xsks_map maps)) (mset [0..<4])"
    by (simp only:)
  then show ?thesis
    unfolding xdp_burst_rr [OF assms] by (simp add: MAX_SOCKS_def multiset.map_comp comp_def del: upt_Suc)
qed

theorem xdp_sock_prog_fair_witness:
  "mset (fst (xdp_burst True redirect_slot 0 MAX_SOCKS bpf_maps0))
     = {# XDP_REDIRECT 0, XDP_REDIRECT 1, XDP_REDIRECT 2, XDP_REDIRECT 3 #}"
  using xdp_sock_prog_fair [of bpf_maps0 0 0 0 redirect_slot]
  by (simp add: bpf_maps0_def redirect_slot_def MAX_SOCKS_def upt_rec eval_nat_numeral)

end
