(* ===== verification/C_Lib.thy ===== *)
theory C_Lib
  imports Prelude "HOL-Library.Char_ord"
begin

text \<open>
  What the program uses of the C library's number parsing and printing: \<open>atoi\<close>, \<open>strtol\<close> and
  \<open>strtoul\<close> in base 10, and the conversions \<open>%u\<close> and \<open>%0nX\<close> of \<open>sscanf\<close> and \<open>snprintf\<close>.
  \<open>long\<close> has 64 bits. The lemmas show that what \<open>%0nX\<close> prints, \<open>%0nX\<close> reads back.
\<close>

section \<open>Decimal\<close>

definition is_digit :: "char \<Rightarrow> bool" where
  "is_digit c \<longleftrightarrow> 48 \<le> (of_char c :: nat) \<and> (of_char c :: nat) \<le> 57"

definition is_space :: "char \<Rightarrow> bool" where
  "is_space c \<longleftrightarrow> (of_char c :: nat) = 32 \<or> 9 \<le> (of_char c :: nat) \<and> (of_char c :: nat) \<le> 13"

definition digits_value :: "string \<Rightarrow> int" where
  "digits_value s = foldl (\<lambda>n c. 10 * n + (int (of_char c) - 48)) 0 (takeWhile is_digit s)"

text \<open>Leading white space, a sign, the digits up to the first other character; \<open>None\<close> if there
  is no digit.\<close>

definition scan_dec :: "string \<Rightarrow> int option" where
  "scan_dec s = (case dropWhile is_space s of
      [] \<Rightarrow> None
    | c # cs \<Rightarrow>
        let neg = (c = CHR ''-''); cs = (if c = CHR ''-'' \<or> c = CHR ''+'' then cs else c # cs)
        in if takeWhile is_digit cs = [] then None
           else Some (if neg then - digits_value cs else digits_value cs))"

definition atoi :: "string \<Rightarrow> int" where
  "atoi s = (case scan_dec s of None \<Rightarrow> 0 | Some n \<Rightarrow> n)"

text \<open>\<open>%u\<close> and \<open>%d\<close> of \<open>printf\<close>.\<close>

fun print_dec :: "nat \<Rightarrow> string" where
  "print_dec n = (if n < 10 then [char_of (n + 48)] else print_dec (n div 10) @ [char_of (n mod 10 + 48)])"

declare print_dec.simps [simp del]

definition print_int :: "int \<Rightarrow> string" where
  "print_int n = (if n < 0 then CHR ''-'' # print_dec (nat (- n)) else print_dec (nat n))"

text \<open>Out of range, \<open>strtol\<close> returns the nearest bound and \<open>strtoul\<close> the largest value; a
  minus sign negates in the unsigned type.\<close>

definition strtol :: "string \<Rightarrow> int option" where
  "strtol s = map_option (\<lambda>n. max (- (2 ^ 63)) (min (2 ^ 63 - 1) n)) (scan_dec s)"

definition strtoul :: "string \<Rightarrow> nat option" where
  "strtoul s = map_option (\<lambda>n. if \<bar>n\<bar> \<ge> 2 ^ 64 then 2 ^ 64 - 1 else nat (n mod 2 ^ 64)) (scan_dec s)"

section \<open>Hexadecimal\<close>

definition hex_digit :: "nat \<Rightarrow> char" where
  "hex_digit n = char_of (if n < 10 then n + 48 else n + 55)"

definition hex_val :: "char \<Rightarrow> nat option" where
  "hex_val c = (let n = of_char c in
     if 48 \<le> n \<and> n \<le> 57 then Some (n - 48)
     else if 65 \<le> n \<and> n \<le> 70 then Some (n - 55)
     else if 97 \<le> n \<and> n \<le> 102 then Some (n - 87) else None)"

fun hex_upper :: "nat \<Rightarrow> string" where
  "hex_upper n = (if n < 16 then [hex_digit n] else hex_upper (n div 16) @ [hex_digit (n mod 16)])"

declare hex_upper.simps [simp del]

definition print_hex :: "nat \<Rightarrow> nat \<Rightarrow> string" where
  "print_hex w n = replicate (w - length (hex_upper n)) (CHR ''0'') @ hex_upper n"

definition hex_value :: "string \<Rightarrow> nat" where
  "hex_value s = foldl (\<lambda>n c. 16 * n + (case hex_val c of None \<Rightarrow> 0 | Some d \<Rightarrow> d)) 0 s"

text \<open>
  \<open>%0nX\<close> reads at most \<open>w\<close> characters after white space: a sign, an optional \<open>0x\<close>, digits. The
  result is the value as an \<open>unsigned int\<close> and what is left of the string.
\<close>

definition scan_hex :: "nat \<Rightarrow> string \<Rightarrow> (nat \<times> string) option" where
  "scan_hex w s =
     (let s = dropWhile is_space s;
          signed = (w > 0 \<and> s \<noteq> [] \<and> (hd s = CHR ''-'' \<or> hd s = CHR ''+''));
          neg = (signed \<and> hd s = CHR ''-'');
          s = (if signed then tl s else s);
          w = (if signed then w - 1 else w);
          prefixed = (w \<ge> 2 \<and> length s \<ge> 2 \<and> hd s = CHR ''0'' \<and> (s ! 1 = CHR ''x'' \<or> s ! 1 = CHR ''X''));
          s' = (if prefixed then drop 2 s else s);
          w' = (if prefixed then w - 2 else w);
          digits = takeWhile (\<lambda>c. hex_val c \<noteq> None) (take w' s')
      in if digits = [] \<and> \<not> prefixed then None
         else Some (nat ((if neg then - int (hex_value digits) else int (hex_value digits)) mod 2 ^ 32),
                    drop (length digits) s'))"

section \<open>What is printed is read back\<close>

lemma of_char_hex_digit: "n < 16 \<Longrightarrow> (of_char (hex_digit n) :: nat) = (if n < 10 then n + 48 else n + 55)"
  by (simp add: hex_digit_def)

lemma hex_val_digit [simp]: "n < 16 \<Longrightarrow> hex_val (hex_digit n) = Some n"
  by (auto simp: hex_val_def of_char_hex_digit Let_def)

lemma hex_digit_0: "hex_digit 0 = CHR ''0''"
proof -
  have "char_of (48::nat) = CHR ''0''" by code_simp
  then show ?thesis by (simp only: hex_digit_def zero_less_numeral if_True add_0)
qed

lemma hex_digit_plain:
  "n < 16 \<Longrightarrow> \<not> is_space (hex_digit n) \<and> hex_digit n \<noteq> CHR ''-'' \<and> hex_digit n \<noteq> CHR ''+''
     \<and> hex_digit n \<noteq> CHR ''x'' \<and> hex_digit n \<noteq> CHR ''X'' \<and> hex_digit n \<noteq> CHR ''/''"
  using of_char_hex_digit [of n] by (auto simp: is_space_def dest!: arg_cong [where f = "of_char :: char \<Rightarrow> nat"] split: if_splits)

lemma hex_upper_digits: "set (hex_upper n) \<subseteq> hex_digit ` {0..<16}"
proof (induction n rule: hex_upper.induct)
  case (1 n)
  then show ?case by (subst hex_upper.simps) (auto simp: le_Suc_eq)
qed

lemma hex_value_snoc: "hex_value (s @ [c]) = 16 * hex_value s + (case hex_val c of None \<Rightarrow> 0 | Some d \<Rightarrow> d)"
  by (simp add: hex_value_def)

lemma hex_value_upper: "hex_value (hex_upper n) = n"
proof (induction n rule: hex_upper.induct)
  case (1 n)
  show ?case
  proof (cases "n < 16")
    case True
    then show ?thesis by (subst hex_upper.simps) (simp add: hex_value_def)
  next
    case False
    with 1 show ?thesis by (subst hex_upper.simps) (simp add: hex_value_snoc)
  qed
qed

lemma hex_value_zeros: "hex_value (replicate k (CHR ''0'') @ s) = hex_value s"
proof -
  have "foldl f 0 (replicate k (CHR ''0'')) = (0::nat)"
    if "f = (\<lambda>n c. 16 * n + (case hex_val c of None \<Rightarrow> 0 | Some d \<Rightarrow> d))" for f
    unfolding that by (induction k) (simp_all add: hex_val_def)
  then show ?thesis by (simp add: hex_value_def)
qed

lemma length_hex_upper: "n < 16 ^ w \<Longrightarrow> 0 < w \<Longrightarrow> length (hex_upper n) \<le> w"
proof (induction w arbitrary: n)
  case 0
  then show ?case by simp
next
  case (Suc w)
  show ?case
  proof (cases "n < 16")
    case True
    then show ?thesis by (subst hex_upper.simps) simp
  next
    case False
    then have "w \<noteq> 0" using Suc.prems by (cases w) auto
    moreover have "n div 16 < 16 ^ w" using Suc.prems by (simp add: less_mult_imp_div_less mult.commute)
    ultimately show ?thesis using Suc.IH False by (subst hex_upper.simps) simp
  qed
qed

lemma print_hex_digits: "set (print_hex w n) \<subseteq> hex_digit ` {0..<16}"
  using hex_upper_digits [of n] hex_digit_0 by (auto simp: print_hex_def intro!: image_eqI [of _ _ 0])

lemma length_print_hex: "n < 16 ^ w \<Longrightarrow> 0 < w \<Longrightarrow> length (print_hex w n) = w"
  using length_hex_upper by (simp add: print_hex_def)

lemma hex_value_print: "hex_value (print_hex w n) = n"
  by (simp add: print_hex_def hex_value_zeros hex_value_upper)

text \<open>\<open>rest\<close> may be anything: the width stops the scan.\<close>

lemma scan_print_hex:
  assumes n: "n < 16 ^ w" and w: "2 \<le> w" "w \<le> 8"
  shows "scan_hex w (print_hex w n @ rest) = Some (n, rest)"
proof -
  let ?s = "print_hex w n"
  have len: "length ?s = w" using length_print_hex n w by simp
  obtain a b t where s: "?s = a # b # t"
    using len w by (metis Suc_le_length_iff numeral_2_eq_2)
  have digits: "\<forall>c \<in> set ?s. \<exists>d<16. c = hex_digit d"
    using print_hex_digits [of w n] by (fastforce dest!: subsetD)
  then have ab: "\<not> is_space a" "a \<noteq> CHR ''-''" "a \<noteq> CHR ''+''" "b \<noteq> CHR ''x''" "b \<noteq> CHR ''X''"
    using hex_digit_plain s by auto
  have all: "takeWhile (\<lambda>c. hex_val c \<noteq> None) ?s = ?s"
    using digits by (auto intro!: takeWhile_eq_all_conv [THEN iffD2])
  have "n < 2 ^ 32"
  proof -
    have "(16::nat) ^ w \<le> 16 ^ 8" using w by (intro power_increasing) auto
    with n show ?thesis by simp
  qed
  then have "nat (int n mod 2 ^ 32) = n" by simp
  moreover have "dropWhile is_space (?s @ rest) = ?s @ rest"
    using ab(1) by (simp add: s)
  moreover have "take w (?s @ rest) = ?s" "drop w (?s @ rest) = rest" "?s \<noteq> []"
    using len w by auto
  ultimately show ?thesis
    using ab all len by (simp add: scan_hex_def Let_def s hex_value_print [of w n, unfolded s])
qed

end
