(* ===== verification/Xdp_Main.thy ===== *)
theory Xdp_Main
  imports Xdp_Bench Xdp_Kern C_Lib
begin

text \<open>
  The command line and \<open>main\<close> of xdpsock_user.c: options, loading and attaching the XDP
  program, filling the BPF maps, creating the socket, and leaving through the signal handler.
  \<open>getopt_long\<close> is the list of option letters and arguments it returns before -1, an option
  it does not know is the letter \<open>?\<close>; the theory \<open>Xdp_Options\<close> has how it gets there from \<open>argv\<close>. What the calls into the C library and libbpf return is the
  record \<open>main_env\<close>. The state \<open>host\<close> is what outlives a failing \<open>main\<close>: the program attached
  to the interface and the BPF maps. The links of the properties are to xdpsock_kern.c: what
  \<open>main\<close> leaves in the maps decides where packets go.
\<close>

section \<open>Options\<close>

definition XDP_FLAGS_SKB_MODE :: u32 where "XDP_FLAGS_SKB_MODE = 2"
definition XDP_FLAGS_DRV_MODE :: u32 where "XDP_FLAGS_DRV_MODE = 4"
definition XDP_COPY :: u32 where "XDP_COPY = 2"
definition XDP_ZEROCOPY :: u32 where "XDP_ZEROCOPY = 4"

record options =
  o_bench :: benchmark_type
  o_xdp_flags :: u32
  o_if :: string
  o_ifindex :: int
  o_queue :: int
  o_poll :: bool
  o_shared_packet_buffer :: bool
  o_interval :: int
  o_xdp_bind_flags :: u32

definition default_options :: options where
  "default_options = \<lparr>o_bench = BENCH_RXDROP, o_xdp_flags = 0, o_if = '''', o_ifindex = 0,
     o_queue = 0, o_poll = False, o_shared_packet_buffer = False, o_interval = 1,
     o_xdp_bind_flags = 0\<rparr>"

text \<open>\<open>None\<close> is the default branch, \<open>usage\<close>.\<close>

definition apply_option :: "char \<times> string \<Rightarrow> options \<Rightarrow> options option" where
  "apply_option ca opt = (case ca of (c, optarg) \<Rightarrow>
     if c = CHR ''r'' then Some (opt\<lparr>o_bench := BENCH_RXDROP\<rparr>)
     else if c = CHR ''t'' then Some (opt\<lparr>o_bench := BENCH_TXONLY\<rparr>)
     else if c = CHR ''l'' then Some (opt\<lparr>o_bench := BENCH_L2FWD\<rparr>)
     else if c = CHR ''i'' then Some (opt\<lparr>o_if := optarg\<rparr>)
     else if c = CHR ''q'' then Some (opt\<lparr>o_queue := atoi optarg\<rparr>)
     else if c = CHR ''s'' then Some (opt\<lparr>o_shared_packet_buffer := True\<rparr>)
     else if c = CHR ''p'' then Some (opt\<lparr>o_poll := True\<rparr>)
     else if c = CHR ''S'' then Some (opt\<lparr>o_xdp_flags := o_xdp_flags opt OR XDP_FLAGS_SKB_MODE,
                                          o_xdp_bind_flags := o_xdp_bind_flags opt OR XDP_COPY\<rparr>)
     else if c = CHR ''N'' then Some (opt\<lparr>o_xdp_flags := o_xdp_flags opt OR XDP_FLAGS_DRV_MODE\<rparr>)
     else if c = CHR ''n'' then Some (opt\<lparr>o_interval := atoi optarg\<rparr>)
     else if c = CHR ''z'' then Some (opt\<lparr>o_xdp_bind_flags := o_xdp_bind_flags opt OR XDP_ZEROCOPY\<rparr>)
     else if c = CHR ''c'' then Some (opt\<lparr>o_xdp_bind_flags := o_xdp_bind_flags opt OR XDP_COPY\<rparr>)
     else None)"

primrec apply_options :: "(char \<times> string) list \<Rightarrow> options \<Rightarrow> options option" where
  "apply_options [] opt = Some opt"
| "apply_options (ca # cas) opt =
     (case apply_option ca opt of None \<Rightarrow> None | Some opt \<Rightarrow> apply_options cas opt)"

definition parse_command_line ::
  "(string \<Rightarrow> int) \<Rightarrow> (char \<times> string) list \<Rightarrow> options option" where
  "parse_command_line if_nametoindex cas =
     (case apply_options cas default_options of None \<Rightarrow> None
      | Some opt \<Rightarrow>
          let opt = opt\<lparr>o_ifindex := if_nametoindex (o_if opt)\<rparr>
          in if o_ifindex opt = 0 then None else Some opt)"

section \<open>main\<close>

record host =
  attached :: "int \<rightharpoonup> int \<times> u32"
  maps :: bpf_maps

record main_env =
  e_setrlimit :: int
  e_prog_load :: int
  e_prog_fd :: int
  e_qidconf_map :: int
  e_xsks_map :: int
  e_set_link :: int
  e_update_qidconf :: int
  e_call_ok :: "xsk_call \<Rightarrow> bool"
  e_bufs :: memory
  e_fqm :: "u64 mapping"
  e_cqm :: "u64 mapping"
  e_rxm :: "xdp_desc mapping"
  e_txm :: "xdp_desc mapping"
  e_sfd :: int
  e_update_xsks :: "nat \<Rightarrow> int"
  e_pthread_create :: int
  e_now :: u64

datatype stop =
    Usage
  | SetrlimitFailed
  | ProgLoadFailed
  | NoProgram
  | NoQidconfMap
  | NoXsksMap
  | SetLinkFailed
  | UpdateQidconfFailed
  | AssertFailed xsk_call
  | UpdateXsksFailed nat
  | PthreadFailed

text \<open>What \<open>main\<close> runs into the benchmark loop with.\<close>

record bench_run =
  b_bench :: benchmark_type
  b_poll :: bool
  b_xsks :: "xdpsock list"
  b_prev_time :: u64

primrec insert_socks ::
  "(nat \<Rightarrow> int) \<Rightarrow> nat \<Rightarrow> xdpsock list \<Rightarrow> host \<Rightarrow> (stop + unit) \<times> host" where
  "insert_socks ret i [] h = (Inr (), h)"
| "insert_socks ret i (x # xs) h =
     (if ret i \<noteq> 0 then (Inl (UpdateXsksFailed i), h)
      else insert_socks ret (Suc i) xs
             (h\<lparr>maps := (maps h)\<lparr>xsks_map := (xsks_map (maps h))(i \<mapsto> sfd x)\<rparr>\<rparr>))"

definition main_attach :: "main_env \<Rightarrow> options \<Rightarrow> host \<Rightarrow> (stop + unit) \<times> host" where
  "main_attach e opt h =
     (if e_setrlimit e \<noteq> 0 then (Inl SetrlimitFailed, h)
      else if e_prog_load e \<noteq> 0 then (Inl ProgLoadFailed, h)
      else if e_prog_fd e < 0 then (Inl NoProgram, h)
      else if e_qidconf_map e < 0 then (Inl NoQidconfMap, h)
      else if e_xsks_map e < 0 then (Inl NoXsksMap, h)
      else if e_set_link e < 0 then (Inl SetLinkFailed, h)
      else let h = h\<lparr>attached := (attached h)(o_ifindex opt \<mapsto> (e_prog_fd e, o_xdp_flags opt))\<rparr>
      in if e_update_qidconf e \<noteq> 0 then (Inl UpdateQidconfFailed, h)
         else (Inr (), h\<lparr>maps := (maps h)\<lparr>qidconf_map := (qidconf_map (maps h))(0 \<mapsto> o_queue opt)\<rparr>\<rparr>))"

definition main_run ::
  "(string \<Rightarrow> int) \<Rightarrow> (char \<times> string) list \<Rightarrow> main_env \<Rightarrow> host \<Rightarrow> (stop + bench_run) \<times> host" where
  "main_run if_nametoindex cas e h =
     (case parse_command_line if_nametoindex cas of
        None \<Rightarrow> (Inl Usage, h)
      | Some opt \<Rightarrow>
     (case main_attach e opt h of
        (Inl s, h) \<Rightarrow> (Inl s, h)
      | (Inr _, h) \<Rightarrow>
     (case xsk_configure (e_call_ok e) (o_bench opt) (o_ifindex opt) (o_queue opt)
             (unat (o_xdp_bind_flags opt)) (e_bufs e) (e_fqm e) (e_cqm e) (e_rxm e) (e_txm e)
             (e_sfd e) None of
        Inl c \<Rightarrow> (Inl (AssertFailed c), h)
      | Inr xsk \<Rightarrow>
     (case insert_socks (e_update_xsks e) 0 [xsk] h of
        (Inl s, h) \<Rightarrow> (Inl s, h)
      | (Inr _, h) \<Rightarrow>
          if e_pthread_create e \<noteq> 0 then (Inl PthreadFailed, h)
          else (Inr \<lparr>b_bench = o_bench opt, b_poll = o_poll opt, b_xsks = [xsk],
                     b_prev_time = e_now e\<rparr>, h)))))"

text \<open>The handler of SIGINT, SIGTERM and SIGABRT: a last report, then the program is detached.\<close>

definition int_exit ::
  "int \<Rightarrow> u64 \<Rightarrow> u64 \<times> xdpsock option list \<Rightarrow> host \<Rightarrow> stat_line list \<times> host" where
  "int_exit ifindex now st h =
     (let (lines, _) = dump_stats now st
      in (lines, h\<lparr>attached := (attached h)(ifindex := None)\<rparr>))"

section \<open>What the options add up to\<close>

definition option_letters :: "char set" where
  "option_letters = set ''rtliqspSNnzc''"

definition last_if :: "(char \<times> string) list \<Rightarrow> string \<Rightarrow> string" where
  "last_if cas s = fold (\<lambda>(c, a) s. if c = CHR ''i'' then a else s) cas s"

definition last_bench :: "(char \<times> string) list \<Rightarrow> benchmark_type \<Rightarrow> benchmark_type" where
  "last_bench cas b = fold (\<lambda>(c, a) b. if c = CHR ''r'' then BENCH_RXDROP
     else if c = CHR ''t'' then BENCH_TXONLY else if c = CHR ''l'' then BENCH_L2FWD else b) cas b"

lemma apply_option_known: "apply_option (c, a) opt = None \<longleftrightarrow> c \<notin> option_letters"
  by (simp add: apply_option_def option_letters_def)

lemma apply_option_effect:
  assumes "apply_option (c, a) opt = Some opt'"
  shows "o_if opt' = (if c = CHR ''i'' then a else o_if opt)"
    and "o_bench opt' = (if c = CHR ''r'' then BENCH_RXDROP else if c = CHR ''t'' then BENCH_TXONLY
       else if c = CHR ''l'' then BENCH_L2FWD else o_bench opt)"
    and "o_xdp_flags opt' = o_xdp_flags opt OR (if c = CHR ''S'' then XDP_FLAGS_SKB_MODE
       else if c = CHR ''N'' then XDP_FLAGS_DRV_MODE else 0)"
    and "o_xdp_bind_flags opt' = o_xdp_bind_flags opt OR (if c = CHR ''S'' \<or> c = CHR ''c'' then XDP_COPY
       else if c = CHR ''z'' then XDP_ZEROCOPY else 0)"
  using assms by (auto simp: apply_option_def split: if_splits)

lemma apply_options_known:
  "apply_options cas opt = None \<longleftrightarrow> \<not> fst ` set cas \<subseteq> option_letters"
proof (induction cas arbitrary: opt)
  case (Cons ca cas)
  obtain c a where ca: "ca = (c, a)" by fastforce
  show ?case
    using Cons.IH apply_option_known [of c a opt]
    by (cases "apply_option ca opt") (auto simp: ca)
qed simp

lemma apply_options_effect:
  assumes "apply_options cas opt = Some opt'"
  shows "o_if opt' = last_if cas (o_if opt)"
    and "o_bench opt' = last_bench cas (o_bench opt)"
    and "o_xdp_flags opt' = o_xdp_flags opt OR (if CHR ''S'' \<in> fst ` set cas then XDP_FLAGS_SKB_MODE else 0)
       OR (if CHR ''N'' \<in> fst ` set cas then XDP_FLAGS_DRV_MODE else 0)"
    and "o_xdp_bind_flags opt' = o_xdp_bind_flags opt
       OR (if CHR ''S'' \<in> fst ` set cas \<or> CHR ''c'' \<in> fst ` set cas then XDP_COPY else 0)
       OR (if CHR ''z'' \<in> fst ` set cas then XDP_ZEROCOPY else 0)"
proof -
  have "o_if opt' = last_if cas (o_if opt) \<and> o_bench opt' = last_bench cas (o_bench opt)
    \<and> o_xdp_flags opt' = o_xdp_flags opt OR (if CHR ''S'' \<in> fst ` set cas then XDP_FLAGS_SKB_MODE else 0)
       OR (if CHR ''N'' \<in> fst ` set cas then XDP_FLAGS_DRV_MODE else 0)
    \<and> o_xdp_bind_flags opt' = o_xdp_bind_flags opt
       OR (if CHR ''S'' \<in> fst ` set cas \<or> CHR ''c'' \<in> fst ` set cas then XDP_COPY else 0)
       OR (if CHR ''z'' \<in> fst ` set cas then XDP_ZEROCOPY else 0)"
    using assms
  proof (induction cas arbitrary: opt)
    case Nil
    then show ?case by (simp add: last_if_def last_bench_def)
  next
    case (Cons ca cas)
    obtain c a where ca: "ca = (c, a)" by fastforce
    obtain opt1 where o: "apply_option (c, a) opt = Some opt1" "apply_options cas opt1 = Some opt'"
      using Cons.prems by (auto simp: ca split: option.splits)
    note e = apply_option_effect [OF o(1)]
    show ?case
      using Cons.IH [OF o(2)] e
      by (auto simp: ca last_if_def last_bench_def or.assoc or.left_commute or.commute)
  qed
  then show "o_if opt' = last_if cas (o_if opt)"
    and "o_bench opt' = last_bench cas (o_bench opt)"
    and "o_xdp_flags opt' = o_xdp_flags opt OR (if CHR ''S'' \<in> fst ` set cas then XDP_FLAGS_SKB_MODE else 0)
       OR (if CHR ''N'' \<in> fst ` set cas then XDP_FLAGS_DRV_MODE else 0)"
    and "o_xdp_bind_flags opt' = o_xdp_bind_flags opt
       OR (if CHR ''S'' \<in> fst ` set cas \<or> CHR ''c'' \<in> fst ` set cas then XDP_COPY else 0)
       OR (if CHR ''z'' \<in> fst ` set cas then XDP_ZEROCOPY else 0)"
    by blast+
qed

section \<open>Properties\<close>

text \<open>
  The command line decides exactly this: it is refused if a letter is unknown or the
  interface named last does not exist; otherwise the last benchmark letter wins, \<open>-S\<close> asks for
  generic mode and copying together, \<open>-N\<close> for native mode, \<open>-z\<close> and \<open>-c\<close> set their bind flag,
  and the order of the flag options does not matter.
\<close>

theorem parse_command_line_meaning:
  "(parse_command_line ifn cas \<noteq> None \<longleftrightarrow>
      fst ` set cas \<subseteq> option_letters \<and> ifn (last_if cas '''') \<noteq> 0)
   \<and> map_option (\<lambda>opt. (o_bench opt, o_if opt, o_ifindex opt, o_xdp_flags opt, o_xdp_bind_flags opt))
        (parse_command_line ifn cas)
     = (if parse_command_line ifn cas = None then None else Some
        (last_bench cas BENCH_RXDROP, last_if cas '''', ifn (last_if cas ''''),
         (if CHR ''S'' \<in> fst ` set cas then XDP_FLAGS_SKB_MODE else 0)
           OR (if CHR ''N'' \<in> fst ` set cas then XDP_FLAGS_DRV_MODE else 0),
         (if CHR ''S'' \<in> fst ` set cas \<or> CHR ''c'' \<in> fst ` set cas then XDP_COPY else 0)
           OR (if CHR ''z'' \<in> fst ` set cas then XDP_ZEROCOPY else 0)))"
proof (cases "apply_options cas default_options")
  case None
  then show ?thesis
    using apply_options_known [of cas default_options] by (simp add: parse_command_line_def)
next
  case (Some opt)
  then have "fst ` set cas \<subseteq> option_letters"
    using apply_options_known [of cas default_options] by simp
  with Some apply_options_effect [OF Some] show ?thesis
    by (simp add: parse_command_line_def Let_def default_options_def)
qed

lemma insert_socks_one:
  "insert_socks ret 0 [x] h = (if ret 0 \<noteq> 0 then (Inl (UpdateXsksFailed 0), h)
     else (Inr (), h\<lparr>maps := (maps h)\<lparr>xsks_map := (xsks_map (maps h))(0 \<mapsto> sfd x)\<rparr>\<rparr>))"
  by simp

lemma main_attach_ok:
  assumes "main_attach e opt h = (Inr u, h')"
  shows "h' = h\<lparr>attached := (attached h)(o_ifindex opt \<mapsto> (e_prog_fd e, o_xdp_flags opt)),
     maps := (maps h)\<lparr>qidconf_map := (qidconf_map (maps h))(0 \<mapsto> o_queue opt)\<rparr>\<rparr>"
  using assms by (auto simp: main_attach_def Let_def split: if_splits)

lemma main_attach_fail:
  assumes "main_attach e opt h = (Inl s, h')"
  shows "if s \<in> {SetrlimitFailed, ProgLoadFailed, NoProgram, NoQidconfMap, NoXsksMap, SetLinkFailed}
     then h' = h else s = UpdateQidconfFailed \<and> attached h' (o_ifindex opt) = Some (e_prog_fd e, o_xdp_flags opt)"
  using assms by (auto simp: main_attach_def Let_def split: if_splits)

lemma configure_sfd:
  "xsk_configure ok bench ifindex queue flags bufs fqm cqm rxm txm fd None = Inr x \<Longrightarrow> sfd x = fd"
  by (auto simp: xsk_configure_def lassert_ok_def Let_def split: if_splits sum.splits)

text \<open>
  (C36) What \<open>main\<close> sets up steers packets as intended: when it reaches a benchmark, the program
  is attached to the interface of the command line, redirects every packet of the configured
  queue to entry 0 of the socket map, which holds the descriptor of the one socket the
  benchmark runs on, and passes packets of all other queues to the network stack.
\<close>

theorem main_steers_queue:
  assumes "main_run ifn cas e h = (Inr r, h')"
  shows "\<exists>opt. parse_command_line ifn cas = Some opt
    \<and> attached h' (ifn (o_if opt)) = Some (e_prog_fd e, o_xdp_flags opt)
    \<and> map (\<lambda>x. Some (sfd x)) (b_xsks r) = [xsks_map (maps h') 0]
    \<and> xdp_sock_prog False redirect rxq (maps h')
       = (if rxq = word_of_int (o_queue opt) then redirect (xsks_map (maps h')) 0 else XDP_PASS, maps h')"
proof -
  obtain opt where opt: "parse_command_line ifn cas = Some opt"
    using assms by (auto simp: main_run_def split: option.splits)
  obtain u h1 where h1: "main_attach e opt h = (Inr u, h1)"
    using assms opt by (auto simp: main_run_def split: prod.splits sum.splits)
  obtain x where x: "xsk_configure (e_call_ok e) (o_bench opt) (o_ifindex opt) (o_queue opt)
             (unat (o_xdp_bind_flags opt)) (e_bufs e) (e_fqm e) (e_cqm e) (e_rxm e) (e_txm e)
             (e_sfd e) None = Inr x"
    using assms opt h1 by (auto simp: main_run_def split: sum.splits)
  have "o_ifindex opt = ifn (o_if opt)"
    using opt by (auto simp: parse_command_line_def Let_def split: option.splits if_splits)
  then show ?thesis
    using assms opt h1 x main_attach_ok [OF h1]
    by (auto simp: main_run_def xdp_sock_prog_def split: if_splits)
qed

definition env_ok :: main_env where
  "env_ok = \<lparr>e_setrlimit = 0, e_prog_load = 0, e_prog_fd = 4, e_qidconf_map = 5, e_xsks_map = 6,
     e_set_link = 0, e_update_qidconf = 0, e_call_ok = (\<lambda>_. True), e_bufs = (\<lambda>_. 0),
     e_fqm = zero_mapping FQ_NUM_DESCS 0, e_cqm = zero_mapping CQ_NUM_DESCS 0,
     e_rxm = zero_mapping NUM_DESCS desc0, e_txm = zero_mapping NUM_DESCS desc0, e_sfd = 3,
     e_update_xsks = (\<lambda>_. 0), e_pthread_create = 0, e_now = 0\<rparr>"

definition host0 :: host where
  "host0 = \<lparr>attached = Map.empty, maps = bpf_maps0\<rparr>"

lemma main_run_ok:
  "\<exists>r h'. main_run (\<lambda>_. 2) [(CHR ''q'', ''7'')] env_ok host0 = (Inr r, h')"
proof -
  obtain opt where opt: "parse_command_line (\<lambda>_. 2) [(CHR ''q'', ''7'')] = Some opt"
    by (simp add: parse_command_line_def apply_option_def Let_def)
  obtain x where "xsk_configure (e_call_ok env_ok) (o_bench opt) (o_ifindex opt) (o_queue opt)
             (unat (o_xdp_bind_flags opt)) (e_bufs env_ok) (e_fqm env_ok) (e_cqm env_ok) (e_rxm env_ok)
             (e_txm env_ok) (e_sfd env_ok) None = Inr x"
    by (rule exE [OF configure_all_ok [of "e_fqm env_ok" "e_call_ok env_ok"]]) (simp_all add: env_ok_def)
  with opt show ?thesis
    by (simp add: main_run_def main_attach_def env_ok_def Let_def)
qed

theorem main_steers_queue_witness:
  "\<exists>r h'. main_run (\<lambda>_. 2) [(CHR ''q'', ''7'')] env_ok host0 = (Inr r, h')
    \<and> fst (xdp_sock_prog False redirect_slot 7 (maps h')) = XDP_REDIRECT 0
    \<and> fst (xdp_sock_prog False redirect_slot 1 (maps h')) = XDP_PASS"
proof -
  obtain r h' where r: "main_run (\<lambda>_. 2) [(CHR ''q'', ''7'')] env_ok host0 = (Inr r, h')"
    using main_run_ok by blast
  obtain opt where opt: "parse_command_line (\<lambda>_. 2) [(CHR ''q'', ''7'')] = Some opt"
    by (simp add: parse_command_line_def apply_option_def Let_def)
  then have "o_queue opt = 7"
    by (auto simp: parse_command_line_def apply_option_def Let_def atoi_def scan_dec_def is_space_def
        digits_value_def is_digit_def)
  with r opt main_steers_queue [OF r, of redirect_slot 7] main_steers_queue [OF r, of redirect_slot 1]
  show ?thesis by (auto simp: redirect_slot_def)
qed

text \<open>
  Where \<open>main\<close> stops matters: a stop before or at the link call leaves the interface and the
  maps as they were; every later one (a failing map update, an assertion of the
  configuration, the statistics thread) exits with the program still attached to the
  interface, since only the signal handler detaches it.
\<close>

theorem main_failure_leaves_program:
  assumes "main_run ifn cas e h = (Inl s, h')"
  shows "if s \<in> {Usage, SetrlimitFailed, ProgLoadFailed, NoProgram, NoQidconfMap, NoXsksMap, SetLinkFailed}
    then h' = h
    else \<exists>opt. parse_command_line ifn cas = Some opt
      \<and> attached h' (o_ifindex opt) = Some (e_prog_fd e, o_xdp_flags opt)
      \<and> attached (snd (int_exit (o_ifindex opt) now st h')) (o_ifindex opt) = None"
proof (cases "parse_command_line ifn cas")
  case None
  then show ?thesis using assms by (simp add: main_run_def)
next
  case (Some opt)
  have detach: "attached (snd (int_exit (o_ifindex opt) now st h')) (o_ifindex opt) = None"
    by (simp add: int_exit_def split_beta)
  show ?thesis
  proof (cases "main_attach e opt h")
    case (Pair r h1)
    show ?thesis
    proof (cases r)
      case (Inl s')
      then show ?thesis
        using assms Some Pair main_attach_fail [of e opt h s' h1] detach
        by (auto simp: main_run_def split: if_splits)
    next
      case (Inr u)
      then show ?thesis
        using assms Some Pair main_attach_ok [of e opt h u h1] detach
        by (auto simp: main_run_def split: if_splits sum.splits)
    qed
  qed
qed

theorem main_failure_leaves_program_witness:
  "\<exists>s h'. main_run (\<lambda>_. 2) [] (env_ok\<lparr>e_update_qidconf := - 1\<rparr>) host0 = (Inl s, h')
     \<and> attached h' 2 = Some (4, 0)"
proof -
  obtain h' where h': "main_run (\<lambda>_. 2) [] (env_ok\<lparr>e_update_qidconf := - 1\<rparr>) host0
      = (Inl UpdateQidconfFailed, h')"
    by (simp add: main_run_def main_attach_def env_ok_def parse_command_line_def Let_def)
  have "parse_command_line (\<lambda>_. 2) [] = Some (default_options\<lparr>o_ifindex := 2\<rparr>)"
    by (simp add: parse_command_line_def Let_def)
  with h' main_failure_leaves_program [OF h'] show ?thesis
    by (auto simp: default_options_def env_ok_def)
qed

end
