(* ===== verification/Xdp_Options.thy ===== *)
theory Xdp_Options
  imports Xdp_Main
begin

text \<open>
  From \<open>argv\<close> to the letters the switch of \<open>parse_command_line\<close> handles (xdpsock_user.c): the
  tables \<open>long_options\<close> and the short option string, and \<open>getopt_long\<close> of the GNU C library on
  them, with \<open>opterr\<close> 0 and without POSIXLY_CORRECT: clusters of short letters, arguments joined or
  in the next element, \<open>--name=value\<close>, unique abbreviations, \<open>--\<close> as the end, operands skipped.
  The letter \<open>?\<close> is its report of an unknown or ambiguous option or of a missing or unwanted
  argument. \<open>optarg\<close> of an option without argument is the empty string (NULL in C, not read).
  The lemmas show that the tables agree with each other and with the switch, that \<open>?\<close> is the only
  way into its default branch, and that every list of options has a command line.
\<close>

section \<open>The tables\<close>

datatype has_arg = no_argument | required_argument

definition long_options :: "(string \<times> has_arg \<times> char) list" where
  "long_options =
    [(''rxdrop'', no_argument, CHR ''r''),
     (''txonly'', no_argument, CHR ''t''),
     (''l2fwd'', no_argument, CHR ''l''),
     (''interface'', required_argument, CHR ''i''),
     (''queue'', required_argument, CHR ''q''),
     (''poll'', no_argument, CHR ''p''),
     (''shared-buffer'', no_argument, CHR ''s''),
     (''xdp-skb'', no_argument, CHR ''S''),
     (''xdp-native'', no_argument, CHR ''N''),
     (''interval'', required_argument, CHR ''n''),
     (''zero-copy'', no_argument, CHR ''z''),
     (''copy'', no_argument, CHR ''c'')]"

definition optstring :: string where "optstring = ''rtli:q:psSNn:cz''"

section \<open>getopt_long on them\<close>

text \<open>A colon after a letter of the string says that it takes an argument.\<close>

fun short_arg :: "string \<Rightarrow> char \<Rightarrow> has_arg option" where
  "short_arg [] c = None"
| "short_arg (x # xs) c =
     (if c = CHR '':'' \<or> c = CHR '';'' then None
      else if x = c then Some (if take 1 xs = '':'' then required_argument else no_argument)
      else short_arg xs c)"

text \<open>The letters after a single dash; \<open>rest\<close> are the elements of \<open>argv\<close> that follow.\<close>

primrec short_cluster :: "string \<Rightarrow> string list \<Rightarrow> (char \<times> string) list \<times> string list" where
  "short_cluster [] rest = ([], rest)"
| "short_cluster (c # cs) rest = (case short_arg optstring c of
     None \<Rightarrow> (case short_cluster cs rest of (os, r) \<Rightarrow> ((CHR ''?'', '''') # os, r))
   | Some no_argument \<Rightarrow> (case short_cluster cs rest of (os, r) \<Rightarrow> ((c, '''') # os, r))
   | Some required_argument \<Rightarrow>
       if cs \<noteq> [] then ([(c, cs)], rest)
       else (case rest of [] \<Rightarrow> ([(CHR ''?'', '''')], []) | a # as \<Rightarrow> ([(c, a)], as)))"

text \<open>An exact name goes before abbreviations; two candidates are ambiguous.\<close>

definition find_long :: "string \<Rightarrow> (has_arg \<times> char) option" where
  "find_long n = (case map_of long_options n of
     Some hc \<Rightarrow> Some hc
   | None \<Rightarrow> (case filter (\<lambda>(m, _). take (length n) m = n) long_options of
       [(_, hc)] \<Rightarrow> Some hc
     | _ \<Rightarrow> None))"

definition long_option :: "string \<Rightarrow> string list \<Rightarrow> (char \<times> string) \<times> string list" where
  "long_option s rest =
     (let n = takeWhile (\<lambda>x. x \<noteq> CHR ''='') s; v = dropWhile (\<lambda>x. x \<noteq> CHR ''='') s
      in case find_long n of
        None \<Rightarrow> ((CHR ''?'', ''''), rest)
      | Some (no_argument, c) \<Rightarrow> if v \<noteq> [] then ((CHR ''?'', ''''), rest) else ((c, ''''), rest)
      | Some (required_argument, c) \<Rightarrow>
          if v \<noteq> [] then ((c, tl v), rest)
          else (case rest of [] \<Rightarrow> ((CHR ''?'', ''''), []) | a # as \<Rightarrow> ((c, a), as)))"

lemma short_cluster_rest: "length (snd (short_cluster cs rest)) \<le> length rest"
  by (induction cs) (auto split: option.split has_arg.split list.split prod.split)

lemma long_option_rest: "length (snd (long_option s rest)) \<le> length rest"
  by (auto simp: long_option_def Let_def split: option.split has_arg.split list.split prod.split)

function getopt_long :: "string list \<Rightarrow> (char \<times> string) list" where
  "getopt_long [] = []"
| "getopt_long (a # as) =
     (if a = ''--'' then []
      else if take 2 a = ''--'' then
        fst (long_option (drop 2 a) as) # getopt_long (snd (long_option (drop 2 a) as))
      else if take 1 a = ''-'' \<and> a \<noteq> ''-'' then
        fst (short_cluster (drop 1 a) as) @ getopt_long (snd (short_cluster (drop 1 a) as))
      else getopt_long as)"
  by pat_completeness auto
termination
  by (relation "measure length")
    (auto simp: less_Suc_eq_le intro: short_cluster_rest long_option_rest)

text \<open>The whole of \<open>parse_command_line\<close>, on \<open>argv\<close> without the program's name.\<close>

definition parse_argv :: "(string \<Rightarrow> int) \<Rightarrow> string list \<Rightarrow> options option" where
  "parse_argv if_nametoindex argv = parse_command_line if_nametoindex (getopt_long argv)"

section \<open>Tables and switch agree\<close>

lemma short_arg_letters: "short_arg optstring c = None \<longleftrightarrow> c \<notin> option_letters"
  by (simp add: optstring_def option_letters_def)

lemma tables_agree:
  "list_all (\<lambda>(n, h, c). short_arg optstring c = Some h \<and> find_long n = Some (h, c)
     \<and> list_all (\<lambda>x. x \<noteq> CHR ''='') n \<and> n \<noteq> [] \<and> c \<noteq> CHR ''-'') long_options"
  by code_simp

lemma long_options_short:
  assumes "(n, h, c) \<in> set long_options"
  shows "short_arg optstring c = Some h" and "find_long n = Some (h, c)"
    and "\<forall>x \<in> set n. x \<noteq> CHR ''=''" and "n \<noteq> []" and "c \<noteq> CHR ''-''"
  using tables_agree assms unfolding list_all_iff by fastforce+

lemma short_cluster_letters:
  "fst ` set (fst (short_cluster cs rest)) \<subseteq> insert (CHR ''?'') option_letters"
proof (induction cs)
  case (Cons c cs)
  obtain os r where c: "short_cluster cs rest = (os, r)" by fastforce
  consider "short_arg optstring c = None" | h where "short_arg optstring c = Some h" "c \<in> option_letters"
    using short_arg_letters [of c] by (cases "short_arg optstring c") auto
  then show ?case
  proof cases
    case 1
    then show ?thesis using Cons.IH c by simp
  next
    case 2
    then show ?thesis using Cons.IH c by (cases h) (auto split: list.split)
  qed
qed simp

lemma find_long_letter: "find_long n = Some (h, c) \<Longrightarrow> c \<in> option_letters"
proof -
  assume f: "find_long n = Some (h, c)"
  have "\<exists>m. (m, h, c) \<in> set long_options"
  proof (cases "map_of long_options n")
    case None
    then have "(\<exists>m. filter (\<lambda>(m, _). take (length n) m = n) long_options = [(m, h, c)])"
      using f by (auto simp: find_long_def split: list.splits)
    then obtain m where "filter (\<lambda>(m, _). take (length n) m = n) long_options = [(m, h, c)]" by blast
    then have "(m, h, c) \<in> set (filter (\<lambda>(m, _). take (length n) m = n) long_options)" by simp
    then show ?thesis by auto
  qed (use f in \<open>auto simp: find_long_def dest: map_of_SomeD\<close>)
  then show ?thesis using long_options_short(1) short_arg_letters by (metis option.distinct(1))
qed

lemma long_option_letter: "fst (fst (long_option s rest)) \<in> insert (CHR ''?'') option_letters"
  by (auto simp: long_option_def Let_def dest: find_long_letter
      split: option.split has_arg.split list.split prod.split)

lemma getopt_long_letters: "fst ` set (getopt_long argv) \<subseteq> insert (CHR ''?'') option_letters"
proof (induction argv rule: getopt_long.induct)
  case (2 a as)
  consider "a = ''--''" | "a \<noteq> ''--''" "take 2 a = ''--''"
    | "a \<noteq> ''--''" "take 2 a \<noteq> ''--''" "take 1 a = ''-''" "a \<noteq> ''-''"
    | "a \<noteq> ''--''" "take 2 a \<noteq> ''--''" "\<not> (take 1 a = ''-'' \<and> a \<noteq> ''-'')" by blast
  then show ?case
  proof cases
    case 1
    then show ?thesis by (subst getopt_long.simps) simp
  next
    case 2
    show ?thesis using "2.IH"(1) [OF 2] long_option_letter [of "drop 2 a" as]
      by (subst getopt_long.simps) (simp only: 2 if_False if_True list.set image_insert insert_subset simp_thms)
  next
    case 3
    show ?thesis using "2.IH"(2) [OF 3(1,2)] 3 short_cluster_letters [of "drop 1 a" as]
      by (subst getopt_long.simps) (simp only: 3 if_False if_True set_append image_Un Un_subset_iff simp_thms)
  next
    case 4
    show ?thesis using "2.IH"(3) [OF 4]
      by (subst getopt_long.simps) (simp only: 4 if_False simp_thms)
  qed
qed simp

text \<open>The default branch of the switch is reached by the error letter alone, so a command line is
  refused exactly when \<open>getopt_long\<close> reports an error or the interface does not exist.\<close>

theorem parse_argv_refuses:
  "parse_argv if_nametoindex argv = None \<longleftrightarrow>
     CHR ''?'' \<in> fst ` set (getopt_long argv)
     \<or> if_nametoindex (last_if (getopt_long argv) '''') = 0"
proof -
  have q: "CHR ''?'' \<notin> option_letters" by (simp add: option_letters_def)
  have *: "fst ` set (getopt_long argv) \<subseteq> option_letters \<longleftrightarrow> CHR ''?'' \<notin> fst ` set (getopt_long argv)"
    using subset_insert [of "CHR ''?''" "fst ` set (getopt_long argv)" option_letters]
      getopt_long_letters [of argv] q subsetD by metis
  show ?thesis
  proof (cases "apply_options (getopt_long argv) default_options")
    case None
    then show ?thesis using * apply_options_known [of "getopt_long argv" default_options]
      by (simp add: parse_argv_def parse_command_line_def)
  next
    case (Some opt)
    moreover have "CHR ''?'' \<notin> fst ` set (getopt_long argv)"
      using Some * apply_options_known [of "getopt_long argv" default_options] by simp
    moreover have "o_if opt = last_if (getopt_long argv) ''''"
      using apply_options_effect(1) [OF Some] by (simp add: default_options_def)
    ultimately show ?thesis by (simp add: parse_argv_def parse_command_line_def Let_def)
  qed
qed

section \<open>Long and short spellings\<close>

theorem long_same_as_short:
  assumes "(n, h, c) \<in> set long_options"
  shows "getopt_long ((''--'' @ n) # as) = getopt_long ([CHR ''-'', c] # as)"
proof -
  have t: "takeWhile (\<lambda>x. x \<noteq> CHR ''='') n = n" "dropWhile (\<lambda>x. x \<noteq> CHR ''='') n = []"
    using long_options_short(3) [OF assms] by (auto simp: takeWhile_eq_all_conv)
  have l: "long_option n as = (case h of no_argument \<Rightarrow> ((c, ''''), as)
     | required_argument \<Rightarrow> (case as of [] \<Rightarrow> ((CHR ''?'', ''''), []) | a # as' \<Rightarrow> ((c, a), as')))"
    by (simp only: long_option_def Let_def t long_options_short(2) [OF assms]) (simp split: has_arg.split)
  have s: "short_cluster [c] as = (case h of no_argument \<Rightarrow> ([(c, '''')], as)
     | required_argument \<Rightarrow> (case as of [] \<Rightarrow> ([(CHR ''?'', '''')], []) | a # as' \<Rightarrow> ([(c, a)], as')))"
    using long_options_short(1) [OF assms] by (simp split: has_arg.split)
  show ?thesis using long_options_short(4,5) [OF assms] l s
    by (cases h; cases as) simp_all
qed

text \<open>The usage text documents \<open>--xdp-skb=n\<close> and \<open>--xdp-native=n\<close>; the table takes no argument.\<close>

theorem documented_spelling_refused:
  assumes "n \<in> {''xdp-skb'', ''xdp-native''}"
  shows "parse_argv if_nametoindex ((''--'' @ n @ ''='' @ v) # as) = None"
proof -
  have "(''xdp-skb'', no_argument, CHR ''S'') \<in> set long_options"
    and "(''xdp-native'', no_argument, CHR ''N'') \<in> set long_options"
    by (simp_all add: long_options_def)
  then obtain c where c: "(n, no_argument, c) \<in> set long_options"
    using assms by blast
  have "takeWhile (\<lambda>x. x \<noteq> CHR ''='') (n @ ''='' @ v) = n"
    and "dropWhile (\<lambda>x. x \<noteq> CHR ''='') (n @ ''='' @ v) = ''='' @ v"
    using long_options_short(3) [OF c] by (simp_all add: takeWhile_append2 dropWhile_append2)
  then have "fst (long_option (n @ ''='' @ v) as) = (CHR ''?'', '''')"
    by (simp only: long_option_def Let_def long_options_short(2) [OF c]) simp
  then have "(CHR ''?'', '''') \<in> set (getopt_long ((''--'' @ n @ ''='' @ v) # as))"
    using long_options_short(4) [OF c] by (subst getopt_long.simps) simp
  then show ?thesis unfolding parse_argv_refuses by (metis fst_conv image_eqI)
qed

lemma documented_spelling_refused_witness:
  "parse_argv (\<lambda>_. 3) [''--xdp-skb=1'', ''-i'', ''eth0''] = None"
  using documented_spelling_refused [of "''xdp-skb''" "\<lambda>_. 3" "''1''" "[''-i'', ''eth0'']"] by simp

section \<open>Every list of options has a command line\<close>

text \<open>The plain spelling: one element for the letter, the next for its argument.\<close>

primrec spell :: "(char \<times> string) list \<Rightarrow> string list" where
  "spell [] = []"
| "spell (ca # cas) = [CHR ''-'', fst ca]
     # (if short_arg optstring (fst ca) = Some required_argument then snd ca # spell cas else spell cas)"

definition well_spelt :: "char \<times> string \<Rightarrow> bool" where
  "well_spelt ca = (case short_arg optstring (fst ca) of
     None \<Rightarrow> False | Some no_argument \<Rightarrow> snd ca = [] | Some required_argument \<Rightarrow> True)"

theorem getopt_long_spell:
  assumes "\<forall>ca \<in> set cas. well_spelt ca"
  shows "getopt_long (spell cas) = cas"
  using assms
proof (induction cas)
  case (Cons ca cas)
  obtain c a where ca: "ca = (c, a)" by fastforce
  have "c \<noteq> CHR ''-''" using Cons.prems by (auto simp: ca well_spelt_def optstring_def)
  then show ?case using Cons
    by (auto simp: ca well_spelt_def split: option.splits has_arg.splits)
qed simp

lemma getopt_long_spell_witness:
  "getopt_long (spell [(CHR ''l'', ''''), (CHR ''i'', ''-p''), (CHR ''q'', ''7'')])
     = [(CHR ''l'', ''''), (CHR ''i'', ''-p''), (CHR ''q'', ''7'')]"
  by (rule getopt_long_spell) (simp add: well_spelt_def optstring_def)

end
