(* ===== verification/Lwip.thy ===== *)
theory Lwip
  imports Prelude
begin

text \<open>
  What the lwIP applications and the driver name from lwIP itself: its error numbers and the
  byte order of its header fields. The stack is not part of the repository; where a component
  calls into it, the call is an argument of the definition.
\<close>

datatype err_t = ERR_OK | ERR_MEM | ERR_BUF | ERR_TIMEOUT | ERR_RTE | ERR_INPROGRESS | ERR_VAL
  | ERR_WOULDBLOCK | ERR_USE | ERR_ALREADY | ERR_ISCONN | ERR_CONN | ERR_IF | ERR_ABRT | ERR_RST
  | ERR_CLSD | ERR_ARG

text \<open>Two bytes of a header in network order.\<close>

definition be16 :: "u16 \<Rightarrow> u8 list" where
  "be16 w = [ucast (drop_bit 8 w), ucast w]"

definition of_be16 :: "u8 list \<Rightarrow> u16" where
  "of_be16 bs = (case bs of [a, b] \<Rightarrow> push_bit 8 (ucast a) OR ucast b | _ \<Rightarrow> 0)"

lemma length_be16 [simp]: "length (be16 w) = 2"
  by (simp add: be16_def)

lemma of_be16_be16 [simp]: "of_be16 (be16 w) = w"
  by (rule bit_word_eqI)
    (auto simp: be16_def of_be16_def bit_simps)

lemma be16_inj: "be16 v = be16 w \<longleftrightarrow> v = w"
  by (metis of_be16_be16)

end
