(* ===== verification/Af_Xdp.thy ===== *)
theory Af_Xdp
  imports Xdp_Main Lwip
begin

text \<open>
  The lwIP network interface driver lwip/netif/af_xdp.c with af_xdp.h. It has its own copies of
  the ring operations; they carry the prefix \<open>lw_\<close> here and are proved equal to those of
  xdpsock_user.c, so that the FIFO contract carries over. The record \<open>netif\<close> holds the fields
  of lwIP's \<open>struct netif\<close> that the driver writes and the counters it moves. lwIP's buffers are
  the byte lists they hold: allocation, copying out of a chain and the stack's input function
  are arguments, as are the results of system calls.
\<close>

section \<open>Ring operations of the driver\<close>

definition LW_NUM_FRAMES :: nat where "LW_NUM_FRAMES = 256"
definition LW_NUM_DESCS :: nat where "LW_NUM_DESCS = 1024"
definition LW_FQ_NUM_DESCS :: nat where "LW_FQ_NUM_DESCS = 1024"
definition LW_CQ_NUM_DESCS :: nat where "LW_CQ_NUM_DESCS = 1024"
definition LW_BATCH_SIZE :: nat where "LW_BATCH_SIZE = 1"
definition LW_MAX_SOCKS :: nat where "LW_MAX_SOCKS = 1"
definition LW_FRAME_SIZE :: nat where "LW_FRAME_SIZE = 2048"
definition LW_FRAME_SHIFT :: nat where "LW_FRAME_SHIFT = 11"
definition LW_FRAME_HEADROOM :: nat where "LW_FRAME_HEADROOM = 0"

definition lw_xq_nb_free :: "'d uqueue \<Rightarrow> u32 \<Rightarrow> u32 \<times> 'd uqueue" where
  "lw_xq_nb_free q ndescs =
     (let free_entries = cached_cons q - cached_prod q in
      if free_entries \<ge> ndescs then (free_entries, q)
      else let q = q\<lparr>cached_cons := consumer q + qsize q\<rparr>
           in (cached_cons q - cached_prod q, q))"

definition lw_umem_nb_free :: "'d uqueue \<Rightarrow> u32 \<Rightarrow> u32 \<times> 'd uqueue" where
  "lw_umem_nb_free q nb =
     (let free_entries = cached_cons q - cached_prod q in
      if free_entries \<ge> nb then (free_entries, q)
      else let q = q\<lparr>cached_cons := consumer q + qsize q\<rparr>
           in (cached_cons q - cached_prod q, q))"

definition lw_umem_nb_avail :: "'d uqueue \<Rightarrow> u32 \<Rightarrow> u32 \<times> 'd uqueue" where
  "lw_umem_nb_avail q nb =
     (let entries = cached_prod q - cached_cons q;
          q = (if entries = 0 then q\<lparr>cached_prod := producer q\<rparr> else q);
          entries = (if entries = 0 then cached_prod q - cached_cons q else entries)
      in (if entries > nb then nb else entries, q))"

definition lw_xq_nb_avail :: "'d uqueue \<Rightarrow> u32 \<Rightarrow> u32 \<times> 'd uqueue" where
  "lw_xq_nb_avail q ndescs =
     (let entries = cached_prod q - cached_cons q;
          q = (if entries = 0 then q\<lparr>cached_prod := producer q\<rparr> else q);
          entries = (if entries = 0 then cached_prod q - cached_cons q else entries)
      in (if entries > ndescs then ndescs else entries, q))"

definition lw_umem_complete_from_kernel ::
  "xdp_umem_uqueue \<Rightarrow> nat \<Rightarrow> u64 list \<times> xdp_umem_uqueue" where
  "lw_umem_complete_from_kernel q nb =
     (let (entries, cq) = lw_umem_nb_avail q (of_nat nb);
          (d, cq) = consume (unat entries) cq
      in (d, if entries > 0 then cq\<lparr>consumer := cached_cons cq\<rparr> else cq))"

definition lw_umem_fill_to_kernel_ex ::
  "xdp_umem_uqueue \<Rightarrow> xdp_desc list \<Rightarrow> unit sysres \<times> xdp_umem_uqueue" where
  "lw_umem_fill_to_kernel_ex q d =
     (let (free, fq) = lw_umem_nb_free q (of_nat (length d)) in
      if unat free < length d then (Inl ENOSPC, fq)
      else let fq = produce (\<lambda>desc _. addr desc) d fq
           in (Inr (), fq\<lparr>producer := cached_prod fq\<rparr>))"

definition lw_umem_fill_to_kernel ::
  "xdp_umem_uqueue \<Rightarrow> u64 list \<Rightarrow> unit sysres \<times> xdp_umem_uqueue" where
  "lw_umem_fill_to_kernel q d =
     (let (free, fq) = lw_umem_nb_free q (of_nat (length d)) in
      if unat free < length d then (Inl ENOSPC, fq)
      else let fq = produce (\<lambda>a _. a) d fq
           in (Inr (), fq\<lparr>producer := cached_prod fq\<rparr>))"

definition lw_xq_deq :: "xdp_uqueue \<Rightarrow> int \<Rightarrow> int \<times> xdp_desc list \<times> xdp_uqueue" where
  "lw_xq_deq uq ndescs =
     (let (avail, uq) = lw_xq_nb_avail uq (word_of_int ndescs);
          entries = sint avail;
          (descs, uq) = consume (nat entries) uq
      in (entries, descs, if entries > 0 then uq\<lparr>consumer := cached_cons uq\<rparr> else uq))"

definition lw_kick_tx :: "nat sysres \<Rightarrow> unit run" where
  "lw_kick_tx ret = (case ret of
      Inr _ \<Rightarrow> Inr ()
    | Inl e \<Rightarrow> if e = ENOBUFS \<or> e = EAGAIN \<or> e = EBUSY then Inr () else Inl (LAssert ''kick_tx''))"

section \<open>Configuration\<close>

definition lw_xdp_umem_configure ::
  "(xsk_call \<Rightarrow> bool) \<Rightarrow> memory \<Rightarrow> u64 mapping \<Rightarrow> u64 mapping \<Rightarrow> int \<Rightarrow> xsk_call + xdp_umem" where
  "lw_xdp_umem_configure ok bufs fqm cqm fd =
     lassert_ok ok CallocUmem (
     lassert_ok ok (PosixMemalign (LW_NUM_FRAMES * LW_FRAME_SIZE)) (
     lassert_ok ok (SetUmemReg (LW_NUM_FRAMES * LW_FRAME_SIZE) LW_FRAME_SIZE LW_FRAME_HEADROOM) (
     lassert_ok ok (SetFillRing LW_FQ_NUM_DESCS) (
     lassert_ok ok (SetCompletionRing LW_CQ_NUM_DESCS) (
     lassert_ok ok GetUmemOffsets (
     lassert_ok ok (MmapFillRing LW_FQ_NUM_DESCS) (
     lassert_ok ok (MmapCompletionRing LW_CQ_NUM_DESCS) (
     Inr \<lparr>frames = bufs,
          fq = \<lparr>cached_prod = 0, cached_cons = of_nat LW_FQ_NUM_DESCS,
                qmask = of_nat LW_FQ_NUM_DESCS - 1, qsize = of_nat LW_FQ_NUM_DESCS,
                producer = m_producer fqm, consumer = m_consumer fqm, ring = m_ring fqm\<rparr>,
          cq = \<lparr>cached_prod = 0, cached_cons = 0,
                qmask = of_nat LW_CQ_NUM_DESCS - 1, qsize = of_nat LW_CQ_NUM_DESCS,
                producer = m_producer cqm, consumer = m_consumer cqm, ring = m_ring cqm\<rparr>,
          ufd = fd\<rparr>))))))))"

primrec lw_fill_frames :: "u64 list \<Rightarrow> xdp_umem_uqueue \<Rightarrow> xsk_call + xdp_umem_uqueue" where
  "lw_fill_frames [] q = Inr q"
| "lw_fill_frames (i # is) q =
     (case lw_umem_fill_to_kernel q [i] of
        (Inr _, q') \<Rightarrow> lw_fill_frames is q'
      | (Inl _, q') \<Rightarrow> Inl (FillFrame i))"

definition lw_xsk_configure ::
  "(xsk_call \<Rightarrow> bool) \<Rightarrow> int \<Rightarrow> int \<Rightarrow> memory \<Rightarrow> u64 mapping \<Rightarrow> u64 mapping
     \<Rightarrow> xdp_desc mapping \<Rightarrow> xdp_desc mapping \<Rightarrow> int \<Rightarrow> xdp_umem option \<Rightarrow> xsk_call + xdpsock" where
  "lw_xsk_configure ok if_idx opt_queue bufs fqm cqm rxm txm fd umem_arg =
     lassert_ok ok SocketXdp (
     lassert_ok ok CallocXsk (
     case (case umem_arg of None \<Rightarrow> lw_xdp_umem_configure ok bufs fqm cqm fd
           | Some u \<Rightarrow> Inr u) of Inl c \<Rightarrow> Inl c | Inr um \<Rightarrow>
     lassert_ok ok (SetRxRing LW_NUM_DESCS) (
     lassert_ok ok (SetTxRing LW_NUM_DESCS) (
     lassert_ok ok GetXskOffsets (
     lassert_ok ok (MmapRxRing LW_NUM_DESCS) (
     case (if umem_arg = None
           then lw_fill_frames (map (\<lambda>k. of_nat (k * LW_FRAME_SIZE)) [0..<LW_NUM_DESCS]) (fq um)
           else Inr (fq um)) of Inl c \<Rightarrow> Inl c | Inr fq' \<Rightarrow>
     let um = um\<lparr>fq := fq'\<rparr> in
     lassert_ok ok (MmapTxRing LW_NUM_DESCS) (
     let rx = \<lparr>cached_prod = 0, cached_cons = 0,
               qmask = of_nat LW_NUM_DESCS - 1, qsize = of_nat LW_NUM_DESCS,
               producer = m_producer rxm, consumer = m_consumer rxm, ring = m_ring rxm\<rparr>;
         tx = \<lparr>cached_prod = 0, cached_cons = of_nat LW_NUM_DESCS,
               qmask = of_nat LW_NUM_DESCS - 1, qsize = of_nat LW_NUM_DESCS,
               producer = m_producer txm, consumer = m_consumer txm, ring = m_ring txm\<rparr>
     in lassert_ok ok
          (case umem_arg of
             Some u \<Rightarrow> BindXdp if_idx opt_queue XDP_SHARED_UMEM (Some (ufd u))
           | None \<Rightarrow> BindXdp if_idx opt_queue 0 None)
          (Inr \<lparr>rx = rx, tx = tx, sfd = fd, umem = um, outstanding_tx = 0,
                rx_npkts = 0, tx_npkts = 0, prev_rx_npkts = 0, prev_tx_npkts = 0\<rparr>))))))))"

section \<open>The interface\<close>

text \<open>
  \<open>struct af_xdp_if\<close> comes from \<open>mem_malloc\<close>, which does not clear it: \<open>num_socks\<close> starts with
  whatever was in memory. The socket array has \<open>MAX_SOCKS\<close> = 1 entries.
\<close>

record af_xdp_if =
  num_socks :: int
  xsks :: "xdpsock option list"
  opt_queue :: int
  if_idx :: int

record netif =
  ni_name :: string
  ni_mtu :: nat
  ni_hwaddr :: "u8 list"
  ni_flags :: u8
  ni_link_up :: bool
  ifinoctets :: u32
  ifindiscards :: u32
  ifoutoctets :: u32
  ifoutdiscards :: u32
  link_recv :: nat

text \<open>A pbuf as the driver sees it: its total length and what \<open>pbuf_copy_partial\<close> copies out
  of it for a given length.\<close>

record 'p pbuf_ops =
  tot_len :: "'p \<Rightarrow> u16"
  pbuf_copy_partial :: "'p \<Rightarrow> nat \<Rightarrow> u8 list"

text \<open>
  \<open>low_level_output\<close> on the first socket. \<open>junk\<close> is the content of the uninitialised
  \<open>descs[0].len\<close>: the completion call writes the eight bytes of the address only.
\<close>

definition low_level_output ::
  "'p pbuf_ops \<Rightarrow> nat sysres \<Rightarrow> (xdpsock \<Rightarrow> xdpsock) \<Rightarrow> u32 \<Rightarrow> 'p \<Rightarrow> netif \<times> xdpsock
     \<Rightarrow> (err_t \<times> netif \<times> xdpsock) run" where
  "low_level_output ops sent env junk p st = (case st of (nif, xsk) \<Rightarrow>
     let tx_idx = 0;
         (free, uq) = lw_xq_nb_free (tx xsk) 1 in
     if free < 1 then Inr (ERR_IF, nif\<lparr>ifoutdiscards := ifoutdiscards nif + 1\<rparr>, xsk\<lparr>tx := uq\<rparr>)
     else
       let idx = unat (cached_prod uq AND qmask uq);
           a = push_bit LW_FRAME_SHIFT tx_idx;
           uq = uq\<lparr>cached_prod := cached_prod uq + 1, ring := (ring uq)[idx := (ring uq ! idx)\<lparr>addr := a\<rparr>]\<rparr>;
           m = write_bytes (frames (umem xsk)) (xq_get_data xsk (addr (ring uq ! idx)))
                 (pbuf_copy_partial ops p (unat (tot_len ops p)));
           uq = uq\<lparr>ring := (ring uq)[idx := (ring uq ! idx)\<lparr>dlen := ucast (tot_len ops p)\<rparr>]\<rparr>;
           uq = uq\<lparr>producer := cached_prod uq\<rparr>;
           xsk = xsk\<lparr>tx := uq, umem := (umem xsk)\<lparr>frames := m\<rparr>\<rparr>
       in case lw_kick_tx sent of Inl e \<Rightarrow> Inl e | Inr _ \<Rightarrow>
         let xsk = env xsk;
             (descs, cq') = lw_umem_complete_from_kernel (cq (umem xsk)) LW_BATCH_SIZE;
             rcvd = length descs;
             xsk = xsk\<lparr>umem := (umem xsk)\<lparr>cq := cq'\<rparr>\<rparr>;
             xsk = (if rcvd > 0 then xsk\<lparr>outstanding_tx := outstanding_tx xsk - of_nat rcvd,
                                         tx_npkts := tx_npkts xsk + of_nat rcvd\<rparr> else xsk)
         in Inr (ERR_OK, nif\<lparr>ifoutoctets := ifoutoctets nif + junk\<rparr>, xsk))"

text \<open>What became of one received frame: handed to the stack, which took it, or refused it
  so that the driver freed the pbuf; or dropped for want of a pbuf.\<close>

datatype rx_event = Passed "u8 list" | Refused "u8 list" | Dropped

text \<open>\<open>pbuf_alloc\<close> and \<open>pbuf_take\<close> have 16-bit lengths. \<open>alloc\<close> says whether the allocation for
  a length succeeds, \<open>input_fn\<close> what the stack answers to the bytes.\<close>

definition input_frame ::
  "(nat \<Rightarrow> bool) \<Rightarrow> (u8 list \<Rightarrow> err_t) \<Rightarrow> xdpsock \<Rightarrow> xdp_desc \<Rightarrow> netif \<Rightarrow> rx_event \<times> netif" where
  "input_frame alloc input_fn xsk d nif =
     (let pkt = xq_get_data xsk (addr d);
          nif = nif\<lparr>ifinoctets := ifinoctets nif + dlen d\<rparr>;
          len = unat (ucast (dlen d) :: u16)
      in if alloc len then
           let bytes = read_bytes (frames (umem xsk)) pkt len;
               nif = nif\<lparr>link_recv := link_recv nif + 1\<rparr>
           in (if input_fn bytes \<noteq> ERR_OK then Refused bytes else Passed bytes, nif)
         else (Dropped, nif\<lparr>ifindiscards := ifindiscards nif + 1\<rparr>))"

primrec input_frames ::
  "(nat \<Rightarrow> bool) \<Rightarrow> (u8 list \<Rightarrow> err_t) \<Rightarrow> xdpsock \<Rightarrow> xdp_desc list \<Rightarrow> netif \<Rightarrow> rx_event list \<times> netif" where
  "input_frames alloc input_fn xsk [] nif = ([], nif)"
| "input_frames alloc input_fn xsk (d # ds) nif =
     (let (e, nif) = input_frame alloc input_fn xsk d nif;
          (es, nif) = input_frames alloc input_fn xsk ds nif
      in (e # es, nif))"

definition af_xdp_if_input ::
  "(nat \<Rightarrow> bool) \<Rightarrow> (u8 list \<Rightarrow> err_t) \<Rightarrow> netif \<times> xdpsock \<Rightarrow> rx_event list \<times> netif \<times> xdpsock" where
  "af_xdp_if_input alloc input_fn st = (case st of (nif, xsk) \<Rightarrow>
     let (rcvd, descs, rx') = lw_xq_deq (rx xsk) (int LW_BATCH_SIZE);
         xsk = xsk\<lparr>rx := rx'\<rparr>
     in if rcvd = 0 then ([], nif, xsk)
        else let (es, nif) = input_frames alloc input_fn xsk descs nif;
                 (_, fq') = lw_umem_fill_to_kernel_ex (fq (umem xsk)) descs
             in (es, nif, xsk\<lparr>umem := (umem xsk)\<lparr>fq := fq'\<rparr>\<rparr>))"

text \<open>One pass of \<open>af_xdp_if_thread\<close>, given what \<open>poll\<close> returns; the loop runs for ever.\<close>

definition af_xdp_if_thread_pass ::
  "int \<Rightarrow> (nat \<Rightarrow> bool) \<Rightarrow> (u8 list \<Rightarrow> err_t) \<Rightarrow> netif \<times> xdpsock \<Rightarrow> rx_event list \<times> netif \<times> xdpsock" where
  "af_xdp_if_thread_pass ret alloc input_fn st =
     (if ret \<le> 0 then ([], st) else af_xdp_if_input alloc input_fn st)"

section \<open>Initialisation\<close>

datatype lw_stop = LwStop stop | StoreOutOfBounds int

text \<open>The loop that inserts the sockets into the map runs to \<open>num_socks\<close>.\<close>

primrec lw_insert_socks ::
  "(nat \<Rightarrow> int) \<Rightarrow> nat \<Rightarrow> xdpsock option list \<Rightarrow> host \<Rightarrow> (lw_stop + unit) \<times> host" where
  "lw_insert_socks ret i [] h = (Inr (), h)"
| "lw_insert_socks ret i (x # xs) h =
     (if ret i \<noteq> 0 then (Inl (LwStop (UpdateXsksFailed i)), h)
      else lw_insert_socks ret (Suc i) xs
             (h\<lparr>maps := (maps h)\<lparr>xsks_map := (xsks_map (maps h))(i \<mapsto> (case x of None \<Rightarrow> 0 | Some x \<Rightarrow> sfd x))\<rparr>\<rparr>))"

definition NETIF_FLAG_BROADCAST :: u8 where "NETIF_FLAG_BROADCAST = 0x02"
definition NETIF_FLAG_ETHARP :: u8 where "NETIF_FLAG_ETHARP = 0x08"
definition NETIF_FLAG_IGMP :: u8 where "NETIF_FLAG_IGMP = 0x20"

definition low_level_init ::
  "int \<Rightarrow> main_env \<Rightarrow> af_xdp_if \<Rightarrow> netif \<Rightarrow> host \<Rightarrow> (lw_stop + af_xdp_if \<times> netif) \<times> host" where
  "low_level_init ifindex e aif nif h =
     (if e_setrlimit e \<noteq> 0 then (Inl (LwStop SetrlimitFailed), h)
      else if e_prog_load e \<noteq> 0 then (Inl (LwStop ProgLoadFailed), h)
      else if e_prog_fd e < 0 then (Inl (LwStop NoProgram), h)
      else if e_qidconf_map e < 0 then (Inl (LwStop NoQidconfMap), h)
      else if e_xsks_map e < 0 then (Inl (LwStop NoXsksMap), h)
      else
      let aif = aif\<lparr>if_idx := ifindex\<rparr> in
      if e_set_link e < 0 then (Inl (LwStop SetLinkFailed), h)
      else
      let h = h\<lparr>attached := (attached h)(if_idx aif \<mapsto> (e_prog_fd e, 0))\<rparr>;
          aif = aif\<lparr>opt_queue := 0\<rparr> in
      if e_update_qidconf e \<noteq> 0 then (Inl (LwStop UpdateQidconfFailed), h)
      else
      let h = h\<lparr>maps := (maps h)\<lparr>qidconf_map := (qidconf_map (maps h))(0 \<mapsto> opt_queue aif)\<rparr>\<rparr> in
      case lw_xsk_configure (e_call_ok e) (if_idx aif) (opt_queue aif) (e_bufs e) (e_fqm e) (e_cqm e)
             (e_rxm e) (e_txm e) (e_sfd e) None of
        Inl c \<Rightarrow> (Inl (LwStop (AssertFailed c)), h)
      | Inr xsk \<Rightarrow>
      if num_socks aif < 0 \<or> num_socks aif \<ge> int (length (xsks aif))
      then (Inl (StoreOutOfBounds (num_socks aif)), h)
      else
      let aif = aif\<lparr>xsks := (xsks aif)[nat (num_socks aif) := Some xsk], num_socks := num_socks aif + 1\<rparr> in
      (case lw_insert_socks (e_update_xsks e) 0 (take (nat (num_socks aif)) (xsks aif)) h of
         (Inl s, h) \<Rightarrow> (Inl s, h)
       | (Inr _, h) \<Rightarrow>
           (Inr (aif, nif\<lparr>ni_hwaddr := [0x02, 0x12, 0x34, 0x56, 0x78, 0xab],
              ni_flags := NETIF_FLAG_BROADCAST OR NETIF_FLAG_ETHARP OR NETIF_FLAG_IGMP,
              ni_link_up := True\<rparr>), h)))"

text \<open>\<open>mem\<close> is what \<open>mem_malloc\<close> returns: nothing, or a block with some content.\<close>

definition af_xdp_if_init ::
  "int \<Rightarrow> main_env \<Rightarrow> af_xdp_if option \<Rightarrow> netif \<Rightarrow> host
     \<Rightarrow> (lw_stop + err_t \<times> (af_xdp_if \<times> netif) option) \<times> host" where
  "af_xdp_if_init ifindex e mem nif h =
     (case mem of
        None \<Rightarrow> (Inr (ERR_MEM, None), h)
      | Some aif \<Rightarrow>
          let nif = nif\<lparr>ni_name := ''af'', ni_mtu := 1500\<rparr> in
          case low_level_init ifindex e aif nif h of
            (Inl s, h) \<Rightarrow> (Inl s, h)
          | (Inr r, h) \<Rightarrow> (Inr (ERR_OK, Some r), h))"

section \<open>The driver's rings are the benchmark's\<close>

lemma lw_nb_free_eq: "lw_xq_nb_free = umem_nb_free" "lw_umem_nb_free = umem_nb_free"
  by (simp_all add: fun_eq_iff lw_xq_nb_free_def lw_umem_nb_free_def umem_nb_free_def)

lemma lw_nb_avail_eq: "lw_xq_nb_avail = umem_nb_avail" "lw_umem_nb_avail = umem_nb_avail"
  by (simp_all add: fun_eq_iff lw_xq_nb_avail_def lw_umem_nb_avail_def umem_nb_avail_def)

lemma lw_complete_eq: "lw_umem_complete_from_kernel = umem_complete_from_kernel"
  by (simp add: fun_eq_iff lw_umem_complete_from_kernel_def umem_complete_from_kernel_def lw_nb_avail_eq)

lemma lw_fill_ex_eq: "lw_umem_fill_to_kernel_ex = umem_fill_to_kernel_ex"
  by (simp add: fun_eq_iff lw_umem_fill_to_kernel_ex_def umem_fill_to_kernel_ex_def lw_nb_free_eq)

lemma lw_fill_eq: "lw_umem_fill_to_kernel = umem_fill_to_kernel"
  by (simp add: fun_eq_iff lw_umem_fill_to_kernel_def umem_fill_to_kernel_def lw_nb_free_eq)

lemma lw_xq_deq_eq: "lw_xq_deq = xq_deq"
  by (simp add: fun_eq_iff lw_xq_deq_def xq_deq_def lw_nb_avail_eq xq_nb_avail_eq)

lemma lw_kick_tx_eq: "lw_kick_tx = kick_tx"
  by (simp add: fun_eq_iff lw_kick_tx_def kick_tx_def)

lemmas lw_eqs = lw_nb_free_eq lw_nb_avail_eq lw_complete_eq lw_fill_ex_eq lw_fill_eq lw_xq_deq_eq
  lw_kick_tx_eq

lemma lw_fill_frames_eq: "lw_fill_frames is q = fill_frames is q"
  by (induction "is" arbitrary: q) (simp_all add: lw_eqs split: prod.split sum.split)

lemmas lw_consts = LW_NUM_DESCS_def LW_FQ_NUM_DESCS_def LW_CQ_NUM_DESCS_def LW_FRAME_SIZE_def
  FQ_NUM_DESCS_def CQ_NUM_DESCS_def NUM_DESCS_def FRAME_SIZE_def

text \<open>
  Up to the size of the registered UMEM, the driver configures a socket as the benchmark does
  for \<open>BENCH_RXDROP\<close> and no bind flags.
\<close>

lemma lw_configure_eq:
  assumes "lw_xsk_configure ok ix oq bufs fqm cqm rxm txm fd None = Inr x"
  shows "\<exists>ok'. xsk_configure ok' BENCH_RXDROP ix oq 0 bufs fqm cqm rxm txm fd None = Inr x"
proof
  have "fill_addrs NUM_DESCS = map (\<lambda>k. of_nat (k * LW_FRAME_SIZE)) [0..<LW_NUM_DESCS]"
    by (simp add: fill_addrs_def lw_consts)
  then show "xsk_configure (\<lambda>_. True) BENCH_RXDROP ix oq 0 bufs fqm cqm rxm txm fd None = Inr x"
    using assms by (auto simp: lw_xsk_configure_def lw_xdp_umem_configure_def xsk_configure_def
        xdp_umem_configure_def lassert_ok_def Let_def lw_fill_frames_eq FQ_NUM_DESCS_def CQ_NUM_DESCS_def
        LW_FQ_NUM_DESCS_def LW_CQ_NUM_DESCS_def split: if_splits sum.splits)
      (simp_all add: NUM_DESCS_def LW_NUM_DESCS_def)
qed

section \<open>Output\<close>

text \<open>The store of \<open>low_level_output\<close> is the enqueueing of one descriptor of frame 0.\<close>

lemma output_enqueue:
  assumes inv: "prod_inv q" and f: "umem_nb_free q 1 = (f, q1)" and room: "\<not> f < 1"
    and idx: "idx = unat (cached_prod q1 AND qmask q1)"
    and q2: "q2 = q1\<lparr>cached_prod := cached_prod q1 + 1,
       ring := (ring q1)[idx := (ring q1 ! idx)\<lparr>addr := a\<rparr>]\<rparr>"
    and q3: "q3 = q2\<lparr>ring := (ring q2)[idx := (ring q2 ! idx)\<lparr>dlen := l\<rparr>]\<rparr>"
  shows "xq_enq q [\<lparr>addr = a, dlen = l, options = 0\<rparr>] = (Inr (), q3\<lparr>producer := cached_prod q3\<rparr>)"
proof -
  have ok: "ring_ok q1"
    using nb_free_spec(2) [OF inv f] by (simp add: prod_inv_def)
  then have "idx < length (ring q1)"
    unfolding idx by (rule slot_in_bounds)
  then have "ring q3 = (ring q1)[idx := (ring q1 ! idx)\<lparr>addr := a, dlen := l\<rparr>]"
    by (simp add: q3 q2)
  then show ?thesis
    using f room by (simp add: xq_enq_def ring_simps q3 q2 idx [symmetric] Let_def)
qed

definition sent_desc :: "'p pbuf_ops \<Rightarrow> 'p \<Rightarrow> xdp_desc" where
  "sent_desc ops p = \<lparr>addr = 0, dlen = ucast (tot_len ops p), options = 0\<rparr>"

lemma low_level_output_cases:
  assumes inv: "prod_inv (tx xsk)" and eq: "low_level_output ops sent env junk p (nif, xsk) = r"
  obtains (full) q where "xq_enq (tx xsk) [sent_desc ops p] = (Inl ENOSPC, q)"
      "r = Inr (ERR_IF, nif\<lparr>ifoutdiscards := ifoutdiscards nif + 1\<rparr>, xsk\<lparr>tx := q\<rparr>)"
  | (sent) q where "xq_enq (tx xsk) [sent_desc ops p] = (Inr (), q)"
      "r = (case kick_tx sent of Inl e \<Rightarrow> Inl e | Inr _ \<Rightarrow>
         let xsk = env (xsk\<lparr>tx := q, umem := (umem xsk)\<lparr>frames := write_bytes (frames (umem xsk)) 0
                 (pbuf_copy_partial ops p (unat (tot_len ops p)))\<rparr>\<rparr>);
             (descs, cq') = umem_complete_from_kernel (cq (umem xsk)) 1;
             xsk = xsk\<lparr>umem := (umem xsk)\<lparr>cq := cq'\<rparr>\<rparr>
         in Inr (ERR_OK, nif\<lparr>ifoutoctets := ifoutoctets nif + junk\<rparr>,
             if length descs > 0 then xsk\<lparr>outstanding_tx := outstanding_tx xsk - of_nat (length descs),
                                         tx_npkts := tx_npkts xsk + of_nat (length descs)\<rparr> else xsk))"
proof -
  obtain f q1 where f: "umem_nb_free (tx xsk) 1 = (f, q1)" by fastforce
  show thesis
  proof (cases "f < 1")
    case True
    then have "xq_enq (tx xsk) [sent_desc ops p] = (Inl ENOSPC, q1)"
      using f by (simp add: xq_enq_def ring_simps)
    moreover have "r = Inr (ERR_IF, nif\<lparr>ifoutdiscards := ifoutdiscards nif + 1\<rparr>, xsk\<lparr>tx := q1\<rparr>)"
      using True f eq by (simp add: low_level_output_def lw_eqs Let_def)
    ultimately show thesis by (rule full)
  next
    case False
    define idx where "idx = unat (cached_prod q1 AND qmask q1)"
    define q2 where "q2 = q1\<lparr>cached_prod := cached_prod q1 + 1,
       ring := (ring q1)[idx := (ring q1 ! idx)\<lparr>addr := 0\<rparr>]\<rparr>"
    define q3 where "q3 = q2\<lparr>ring := (ring q2)[idx := (ring q2 ! idx)\<lparr>dlen := ucast (tot_len ops p)\<rparr>]\<rparr>"
    have e: "xq_enq (tx xsk) [sent_desc ops p] = (Inr (), q3\<lparr>producer := cached_prod q3\<rparr>)"
      unfolding sent_desc_def by (rule output_enqueue [OF inv f False idx_def q2_def q3_def])
    have "ring_ok q1"
      using nb_free_spec(2) [OF inv f] by (simp add: prod_inv_def)
    then have "idx < length (ring q1)"
      unfolding idx_def by (rule slot_in_bounds)
    then show thesis
      using False f eq
      by (intro sent [OF e]; cases "kick_tx sent")
        (simp_all add: low_level_output_def lw_eqs Let_def idx_def [symmetric] q2_def q3_def
          xq_get_data_def LW_BATCH_SIZE_def split_beta cong del: if_weak_cong)
  qed
qed

text \<open>The completion half of \<open>low_level_output\<close>, after \<open>sendto\<close>.\<close>

definition reap_one :: "xdpsock \<Rightarrow> xdpsock" where
  "reap_one x = (let (descs, cq') = umem_complete_from_kernel (cq (umem x)) 1;
       x = x\<lparr>umem := (umem x)\<lparr>cq := cq'\<rparr>\<rparr>
     in if length descs > 0 then x\<lparr>outstanding_tx := outstanding_tx x - of_nat (length descs),
                                  tx_npkts := tx_npkts x + of_nat (length descs)\<rparr> else x)"

lemma front_of_one:
  assumes "length ds \<le> 1" "fl = ds @ r" "ds = [] \<longleftrightarrow> fl = []"
  shows "length ds = min 1 (length fl)" "r = drop 1 fl" "ds = take 1 fl"
proof -
  have "fl = [] \<and> ds = [] \<and> r = [] \<or> (\<exists>a. ds = [a] \<and> fl = a # r)"
    using assms by (cases ds) auto
  then show "length ds = min 1 (length fl)" "r = drop 1 fl" "ds = take 1 fl"
    by auto
qed

lemma reap_one_counts:
  assumes "cons_inv (cq (umem x))"
  shows "outstanding_tx (reap_one x) = outstanding_tx x - of_nat (min 1 (length (in_flight (cq (umem x)))))"
    and "tx_npkts (reap_one x) = tx_npkts x + of_nat (min 1 (length (in_flight (cq (umem x)))))"
    and "in_flight (cq (umem (reap_one x))) = drop 1 (in_flight (cq (umem x)))"
proof -
  obtain ds q' where c: "umem_complete_from_kernel (cq (umem x)) 1 = (ds, q')" by fastforce
  have one: "(1::nat) < 2 ^ 31" by simp
  note spec = compl.deq_len [OF assms one c] compl.deq_pend [OF assms one c]
    compl.deq_progress [OF assms one c]
  define fl where "fl = in_flight (cq (umem x))"
  have "ds = [] \<longleftrightarrow> fl = []"
    using spec(3) unfolding fl_def by (metis one_neq_zero)
  note fr = front_of_one [OF spec(1) spec(2) [folded fl_def] this]
  have len: "length ds = min 1 (length fl)" by (rule fr(1))
  have rest: "in_flight q' = drop 1 fl" by (rule fr(2))
  have r: "reap_one x = (if ds = [] then x\<lparr>umem := (umem x)\<lparr>cq := q'\<rparr>\<rparr>
      else x\<lparr>umem := (umem x)\<lparr>cq := q'\<rparr>, outstanding_tx := outstanding_tx x - of_nat (length ds),
             tx_npkts := tx_npkts x + of_nat (length ds)\<rparr>)"
    using c by (simp add: reap_one_def Let_def)
  have "outstanding_tx (reap_one x) = outstanding_tx x - of_nat (length ds)"
    "tx_npkts (reap_one x) = tx_npkts x + of_nat (length ds)"
    by (simp_all add: r)
  then show "outstanding_tx (reap_one x) = outstanding_tx x - of_nat (min 1 (length (in_flight (cq (umem x)))))"
    "tx_npkts (reap_one x) = tx_npkts x + of_nat (min 1 (length (in_flight (cq (umem x)))))"
    by (simp_all only: len fl_def)
  have "cq (umem (reap_one x)) = q'" by (simp add: r)
  then show "in_flight (cq (umem (reap_one x))) = drop 1 (in_flight (cq (umem x)))"
    by (simp only: rest fl_def)
qed

lemma low_level_output_spec:
  assumes inv: "prod_inv (tx xsk)"
  obtains y where
    "length (tx_pending (tx xsk)) < capacity (tx xsk) \<Longrightarrow>
       tx_pending (tx y) = tx_pending (tx xsk) @ [(0, ucast (tot_len ops p))]
       \<and> prod_inv (tx y) \<and> outstanding_tx y = outstanding_tx xsk \<and> tx_npkts y = tx_npkts xsk
       \<and> cq (umem y) = cq (umem xsk)
       \<and> frames (umem y) = write_bytes (frames (umem xsk)) 0 (pbuf_copy_partial ops p (unat (tot_len ops p)))
       \<and> low_level_output ops sent env junk p (nif, xsk) = (case kick_tx sent of Inl e \<Rightarrow> Inl e
          | Inr _ \<Rightarrow> Inr (ERR_OK, nif\<lparr>ifoutoctets := ifoutoctets nif + junk\<rparr>, reap_one (env y)))"
    "\<not> length (tx_pending (tx xsk)) < capacity (tx xsk) \<Longrightarrow>
       low_level_output ops sent env junk p (nif, xsk)
         = Inr (ERR_IF, nif\<lparr>ifoutdiscards := ifoutdiscards nif + 1\<rparr>, y)
       \<and> tx_pending (tx y) = tx_pending (tx xsk) \<and> y\<lparr>tx := tx xsk\<rparr> = xsk"
proof (rule low_level_output_cases [OF inv refl, of ops p sent env junk nif])
  fix q
  assume e: "xq_enq (tx xsk) [sent_desc ops p] = (Inl ENOSPC, q)"
    and r: "low_level_output ops sent env junk p (nif, xsk)
      = Inr (ERR_IF, nif\<lparr>ifoutdiscards := ifoutdiscards nif + 1\<rparr>, xsk\<lparr>tx := q\<rparr>)"
  show thesis
  proof (rule that [of "xsk\<lparr>tx := q\<rparr>"], goal_cases)
    case 1
    then show ?case
      using tx.enq_ret [OF inv _ e] by (simp del: length_tx_pending split: if_splits)
  next
    case 2
    then show ?case
      using r tx.enq_pend [OF inv _ e] by simp
  qed
next
  fix q
  let ?y = "xsk\<lparr>tx := q, umem := (umem xsk)\<lparr>frames := write_bytes (frames (umem xsk)) 0
                 (pbuf_copy_partial ops p (unat (tot_len ops p)))\<rparr>\<rparr>"
  assume e: "xq_enq (tx xsk) [sent_desc ops p] = (Inr (), q)"
    and r: "low_level_output ops sent env junk p (nif, xsk) = (case kick_tx sent of Inl e \<Rightarrow> Inl e | Inr _ \<Rightarrow>
         let xsk = env ?y;
             (descs, cq') = umem_complete_from_kernel (cq (umem xsk)) 1;
             xsk = xsk\<lparr>umem := (umem xsk)\<lparr>cq := cq'\<rparr>\<rparr>
         in Inr (ERR_OK, nif\<lparr>ifoutoctets := ifoutoctets nif + junk\<rparr>,
             if length descs > 0 then xsk\<lparr>outstanding_tx := outstanding_tx xsk - of_nat (length descs),
                                         tx_npkts := tx_npkts xsk + of_nat (length descs)\<rparr> else xsk))"
  show thesis
  proof (rule that [of ?y], goal_cases)
    case 1
    have "low_level_output ops sent env junk p (nif, xsk) = (case kick_tx sent of Inl e \<Rightarrow> Inl e
          | Inr _ \<Rightarrow> Inr (ERR_OK, nif\<lparr>ifoutoctets := ifoutoctets nif + junk\<rparr>, reap_one (env ?y)))"
      unfolding r by (cases "kick_tx sent") (simp_all add: reap_one_def Let_def split_beta)
    moreover have "tx_pending q = tx_pending (tx xsk) @ [(0, ucast (tot_len ops p))]" "prod_inv q"
      using tx.enq_pend [OF inv _ e] tx.enq_inv [OF inv _ e] by (simp_all add: desc_view_def sent_desc_def)
    ultimately show ?case
      by simp
  next
    case 2
    then show ?case
      using tx.enq_ret [OF inv _ e] by (simp del: length_tx_pending split: if_splits)
  qed
qed

lemma low_level_output_returns:
  assumes "prod_inv (tx xsk)" and "length (tx_pending (tx xsk)) < capacity (tx xsk)"
  shows "\<exists>y. outstanding_tx y = outstanding_tx xsk \<and> low_level_output ops (Inr n) env junk p (nif, xsk)
    = Inr (ERR_OK, nif\<lparr>ifoutoctets := ifoutoctets nif + junk\<rparr>, reap_one (env y))"
  by (rule low_level_output_spec [OF assms(1), where ops = ops and p = p and sent = "Inr n" and env = env
        and junk = junk and nif = nif]) (use assms(2) in \<open>auto simp: kick_tx_def simp del: length_tx_pending\<close>)

section \<open>Input\<close>

text \<open>What becomes of a received descriptor, as a function of the packet memory.\<close>

definition event_of :: "(nat \<Rightarrow> bool) \<Rightarrow> (u8 list \<Rightarrow> err_t) \<Rightarrow> memory \<Rightarrow> xdp_desc \<Rightarrow> rx_event" where
  "event_of alloc input_fn m d =
     (let len = unat (ucast (dlen d) :: u16); bytes = read_bytes m (unat (addr d)) len
      in if \<not> alloc len then Dropped
         else if input_fn bytes = ERR_OK then Passed bytes else Refused bytes)"

lemma input_frame_event: "fst (input_frame alloc input_fn x d nif) = event_of alloc input_fn (frames (umem x)) d"
  by (simp add: input_frame_def event_of_def Let_def xq_get_data_def)

lemma input_frames_events:
  "fst (input_frames alloc input_fn x ds nif) = map (event_of alloc input_fn (frames (umem x))) ds"
proof (induction ds arbitrary: nif)
  case (Cons d ds)
  obtain e nif' where "input_frame alloc input_fn x d nif = (e, nif')" by fastforce
  with input_frame_event [of alloc input_fn x d nif] Cons show ?case
    by (simp add: split_beta)
qed simp

lemma input_one:
  assumes rxi: "cons_inv (rx x)" and fqi: "prod_inv (fq (umem x))"
    and room: "length (in_flight (fq (umem x))) + length (in_flight (rx x)) \<le> capacity (fq (umem x))"
    and eq: "af_xdp_if_input alloc input_fn (nif, x) = (es, nif', x')"
  shows "es = map (event_of alloc input_fn (frames (umem x))) (take 1 (in_flight (rx x)))"
    "in_flight (rx x') = drop 1 (in_flight (rx x))" "cons_inv (rx x')"
    "in_flight (fq (umem x')) = in_flight (fq (umem x)) @ map addr (take 1 (in_flight (rx x)))"
    "prod_inv (fq (umem x'))" "capacity (fq (umem x')) = capacity (fq (umem x))"
    "frames (umem x') = frames (umem x)"
proof -
  obtain r ds rx' where d: "xq_deq (rx x) (int 1) = (r, ds, rx')" by (metis prod_cases3)
  have one: "(1::nat) < 2 ^ 31" by simp
  have sd: "snd (xq_deq (rx x) (int 1)) = (ds, rx')" using d by simp
  note spec = rx.deq_inv [OF rxi one sd] rx.deq_len [OF rxi one sd] rx.deq_pend [OF rxi one sd]
    rx.deq_progress [OF rxi one sd]
  have "ds = [] \<longleftrightarrow> in_flight (rx x) = []"
    using spec(4) by (metis one_neq_zero)
  note fr = front_of_one [OF spec(2,3) this]
  have r: "r = int (length ds)"
    by (rule xq_deq_count [OF rxi one d])
  have small: "length ds < 2 ^ 32" using spec(2) by simp
  have fits: "length (in_flight (fq (umem x))) + length ds \<le> capacity (fq (umem x))"
    using room fr(1) by simp
  obtain fq' where fq': "umem_fill_to_kernel_ex (fq (umem x)) ds = (Inr (), fq')" "prod_inv fq'"
      "capacity fq' = capacity (fq (umem x))" "in_flight fq' = in_flight (fq (umem x)) @ map addr ds"
    by (rule fill_ex.enq_fits [OF fqi small fits])
  have "af_xdp_if_input alloc input_fn (nif, x) =
      (if ds = [] then ([], nif, x\<lparr>rx := rx'\<rparr>)
       else let (es, nif) = input_frames alloc input_fn (x\<lparr>rx := rx'\<rparr>) ds nif
            in (es, nif, (x\<lparr>rx := rx'\<rparr>)\<lparr>umem := (umem x)\<lparr>fq := fq'\<rparr>\<rparr>))"
    using d r fq'(1) by (simp add: af_xdp_if_input_def lw_eqs LW_BATCH_SIZE_def Let_def split_beta)
  then have x: "es = map (event_of alloc input_fn (frames (umem x))) ds \<and>
      x' = (if ds = [] then x\<lparr>rx := rx'\<rparr> else (x\<lparr>rx := rx'\<rparr>)\<lparr>umem := (umem x)\<lparr>fq := fq'\<rparr>\<rparr>)"
    using eq input_frames_events [of alloc input_fn "x\<lparr>rx := rx'\<rparr>" ds nif]
    by (auto simp: split_beta Let_def split: if_splits)
  then have "rx x' = rx'" and fqx: "fq (umem x') = (if ds = [] then fq (umem x) else fq')"
    by simp_all
  then show "es = map (event_of alloc input_fn (frames (umem x))) (take 1 (in_flight (rx x)))"
    "in_flight (rx x') = drop 1 (in_flight (rx x))" "cons_inv (rx x')"
    using x fr(2,3) spec(1) by simp_all
  show "frames (umem x') = frames (umem x)" using x by simp
  show "prod_inv (fq (umem x'))" "capacity (fq (umem x')) = capacity (fq (umem x))"
    using fqx fq' fqi by simp_all
  show "in_flight (fq (umem x')) = in_flight (fq (umem x)) @ map addr (take 1 (in_flight (rx x)))"
    unfolding fqx fr(3) [symmetric] using fq'(4) by simp
qed

text \<open>\<open>n\<close> passes of the receive thread whose \<open>poll\<close> reports input.\<close>

primrec thread_passes ::
  "nat \<Rightarrow> (nat \<Rightarrow> bool) \<Rightarrow> (u8 list \<Rightarrow> err_t) \<Rightarrow> netif \<times> xdpsock \<Rightarrow> rx_event list \<times> netif \<times> xdpsock" where
  "thread_passes 0 alloc input_fn st = ([], st)"
| "thread_passes (Suc n) alloc input_fn st =
     (let (es, st) = af_xdp_if_thread_pass 1 alloc input_fn st;
          (es', st) = thread_passes n alloc input_fn st
      in (es @ es', st))"

lemma take_drop_one: "take 1 xs @ take n (drop 1 xs) = take (Suc n) xs" "drop n (drop 1 xs) = drop (Suc n) xs"
  by (cases xs; simp)+

lemma thread_passes_spec:
  assumes "cons_inv (rx x)" "prod_inv (fq (umem x))"
    and "length (in_flight (fq (umem x))) + length (in_flight (rx x)) \<le> capacity (fq (umem x))"
    and "thread_passes n alloc input_fn (nif, x) = (es, nif', x')"
  shows "es = map (event_of alloc input_fn (frames (umem x))) (take n (in_flight (rx x)))
    \<and> in_flight (rx x') = drop n (in_flight (rx x))
    \<and> in_flight (fq (umem x')) = in_flight (fq (umem x)) @ map addr (take n (in_flight (rx x)))"
  using assms
proof (induction n arbitrary: nif x es)
  case 0
  then show ?case by simp
next
  case (Suc n)
  obtain es1 nif1 x1 where s1: "af_xdp_if_input alloc input_fn (nif, x) = (es1, nif1, x1)"
    by (metis prod_cases3)
  obtain es2 where s2: "thread_passes n alloc input_fn (nif1, x1) = (es2, nif', x')" and es: "es = es1 @ es2"
    using Suc.prems(4) s1 by (auto simp: af_xdp_if_thread_pass_def split: prod.splits)
  note one = input_one [OF Suc.prems(1-3) s1]
  have "length (in_flight (fq (umem x1))) + length (in_flight (rx x1)) \<le> capacity (fq (umem x1))"
    unfolding one(2,4,6) length_append length_map using Suc.prems(3) by (simp del: length_in_flight)
  note ih = Suc.IH [OF one(3,5) this s2]
  have "map (event_of alloc input_fn (frames (umem x))) (take 1 (in_flight (rx x)))
      @ map (event_of alloc input_fn (frames (umem x))) (take n (drop 1 (in_flight (rx x))))
      = map (event_of alloc input_fn (frames (umem x))) (take (Suc n) (in_flight (rx x)))"
    by (simp only: map_append [symmetric] take_drop_one)
  moreover have "map addr (take 1 (in_flight (rx x))) @ map addr (take n (drop 1 (in_flight (rx x))))
      = map addr (take (Suc n) (in_flight (rx x)))"
    by (simp only: map_append [symmetric] take_drop_one)
  ultimately show ?case
    using ih unfolding es one by (simp only: append_assoc take_drop_one)
qed

text \<open>A driver's socket and interface for the witnesses.\<close>

definition netif0 :: netif where
  "netif0 = \<lparr>ni_name = '''', ni_mtu = 0, ni_hwaddr = [], ni_flags = 0, ni_link_up = False,
     ifinoctets = 0, ifindiscards = 0, ifoutoctets = 0, ifoutdiscards = 0, link_recv = 0\<rparr>"

definition bytes_pbuf :: "u8 list pbuf_ops" where
  "bytes_pbuf = \<lparr>tot_len = (\<lambda>p. of_nat (length p)), pbuf_copy_partial = (\<lambda>p n. take n p)\<rparr>"

section \<open>Properties\<close>


text \<open>
  Output: with room on the TX ring the packet's bytes are copied to frame 0 and a
  descriptor of frame 0 with the packet's length is appended to what the kernel has yet to send
  (the state \<open>y\<close> that \<open>sendto\<close> sees), whatever else is in flight; with a full ring nothing is
  sent, the call returns \<open>ERR_IF\<close> and counts a discard.
\<close>

theorem low_level_output_sends:
  assumes "prod_inv (tx xsk)" and "length (pbuf_copy_partial ops p (unat (tot_len ops p))) = unat (tot_len ops p)"
  shows "\<exists>y. if length (tx_pending (tx xsk)) < capacity (tx xsk)
    then tx_pending (tx y) = tx_pending (tx xsk) @ [(0, ucast (tot_len ops p))]
      \<and> read_bytes (frames (umem y)) 0 (unat (tot_len ops p)) = pbuf_copy_partial ops p (unat (tot_len ops p))
      \<and> low_level_output ops sent env junk p (nif, xsk) = (case kick_tx sent of Inl e \<Rightarrow> Inl e
         | Inr _ \<Rightarrow> Inr (ERR_OK, nif\<lparr>ifoutoctets := ifoutoctets nif + junk\<rparr>, reap_one (env y)))
    else tx_pending (tx y) = tx_pending (tx xsk)
      \<and> low_level_output ops sent env junk p (nif, xsk)
         = Inr (ERR_IF, nif\<lparr>ifoutdiscards := ifoutdiscards nif + 1\<rparr>, y)"
proof -
  obtain y where y: "length (tx_pending (tx xsk)) < capacity (tx xsk) \<Longrightarrow>
       tx_pending (tx y) = tx_pending (tx xsk) @ [(0, ucast (tot_len ops p))]
       \<and> prod_inv (tx y) \<and> outstanding_tx y = outstanding_tx xsk \<and> tx_npkts y = tx_npkts xsk
       \<and> cq (umem y) = cq (umem xsk)
       \<and> frames (umem y) = write_bytes (frames (umem xsk)) 0 (pbuf_copy_partial ops p (unat (tot_len ops p)))
       \<and> low_level_output ops sent env junk p (nif, xsk) = (case kick_tx sent of Inl e \<Rightarrow> Inl e
          | Inr _ \<Rightarrow> Inr (ERR_OK, nif\<lparr>ifoutoctets := ifoutoctets nif + junk\<rparr>, reap_one (env y)))"
    "\<not> length (tx_pending (tx xsk)) < capacity (tx xsk) \<Longrightarrow>
       low_level_output ops sent env junk p (nif, xsk)
         = Inr (ERR_IF, nif\<lparr>ifoutdiscards := ifoutdiscards nif + 1\<rparr>, y)
       \<and> tx_pending (tx y) = tx_pending (tx xsk) \<and> y\<lparr>tx := tx xsk\<rparr> = xsk"
    using low_level_output_spec [OF assms(1), where ops = ops and p = p and sent = sent and env = env
        and junk = junk and nif = nif] by blast
  have "read_bytes (write_bytes (frames (umem xsk)) 0 (pbuf_copy_partial ops p (unat (tot_len ops p)))) 0
      (unat (tot_len ops p)) = pbuf_copy_partial ops p (unat (tot_len ops p))"
    using read_write_bytes [of "frames (umem xsk)" 0 "pbuf_copy_partial ops p (unat (tot_len ops p))"]
    by (simp only: assms(2))
  with y show ?thesis by (intro exI [of _ y]) (simp split: if_splits del: length_tx_pending)
qed

theorem low_level_output_sends_witness:
  "\<exists>y nif'. low_level_output bytes_pbuf (Inr 0) (\<lambda>x. x) 0 [7, 8] (netif0, bench_sock) = Inr (ERR_OK, nif', reap_one y)
     \<and> tx_pending (tx y) = [(0, 2)] \<and> read_bytes (frames (umem y)) 0 2 = [7, 8]"
proof -
  have i: "prod_inv (tx bench_sock)" "tx_pending (tx bench_sock) = []" "capacity (tx bench_sock) = 2"
    using ring2_inv(1) [of desc0] ring2_empty(1) [of desc0] ring2_capacity(1) [of desc0]
    by (simp_all add: bench_sock_def tx_pending_def)
  show ?thesis
    using low_level_output_sends [OF i(1), of bytes_pbuf "[7, 8]" "Inr 0" "\<lambda>x. x" 0 netif0] i(2,3)
    by (auto simp: bytes_pbuf_def kick_tx_def)
qed

text \<open>
  The driver never counts a transmission as outstanding but subtracts every completion
  from \<open>outstanding_tx\<close>: on a socket with none outstanding, an output whose completion is
  already there leaves the 32-bit counter at its largest value. What is added to the octet
  counter is the uninitialised \<open>descs[0].len\<close>, not the packet's length.
\<close>

theorem low_level_output_underflow:
  assumes "prod_inv (tx xsk)" and "length (tx_pending (tx xsk)) < capacity (tx xsk)"
    and "outstanding_tx xsk = 0"
    and "\<And>y. outstanding_tx (env y) = outstanding_tx y \<and> cons_inv (cq (umem (env y)))
        \<and> in_flight (cq (umem (env y))) \<noteq> []"
    and "low_level_output ops (Inr n) env junk p (nif, xsk) = Inr (r, nif', xsk')"
  shows "r = ERR_OK \<and> outstanding_tx xsk' = - 1 \<and> ifoutoctets nif' = ifoutoctets nif + junk"
proof -
  obtain y where y: "outstanding_tx y = outstanding_tx xsk"
    "low_level_output ops (Inr n) env junk p (nif, xsk)
        = Inr (ERR_OK, nif\<lparr>ifoutoctets := ifoutoctets nif + junk\<rparr>, reap_one (env y))"
    using low_level_output_returns [OF assms(1,2), of ops n env junk p nif] by blast
  have "min 1 (length (in_flight (cq (umem (env y))))) = 1"
    using assms(4) [of y] by (cases "in_flight (cq (umem (env y)))") (auto simp del: length_in_flight)
  then have "outstanding_tx (reap_one (env y)) = outstanding_tx (env y) - 1"
    using reap_one_counts(1) [of "env y"] assms(4) [of y] by (simp only: of_nat_1)
  then have "outstanding_tx (reap_one (env y)) = - 1"
    using assms(3) assms(4) [of y] y(1) by simp
  then show ?thesis
    using y(2) assms(5) by auto
qed

theorem low_level_output_underflow_witness:
  "\<exists>nif' xsk'. low_level_output bytes_pbuf (Inr 0)
      (\<lambda>y. y\<lparr>umem := (umem y)\<lparr>cq := kernel_produced [0] (ring2 0)\<rparr>\<rparr>) 5 [7, 8] (netif0, bench_sock)
      = Inr (ERR_OK, nif', xsk') \<and> outstanding_tx xsk' = 0xFFFFFFFF \<and> ifoutoctets nif' = 5"
proof -
  let ?env = "\<lambda>y::xdpsock. y\<lparr>umem := (umem y)\<lparr>cq := kernel_produced [0] (ring2 0)\<rparr>\<rparr>"
  have i: "prod_inv (tx bench_sock)" "length (tx_pending (tx bench_sock)) < capacity (tx bench_sock)"
    using ring2_inv(1) [of desc0] ring2_empty(1) [of desc0] ring2_capacity(1) [of desc0]
    by (simp_all add: bench_sock_def tx_pending_def)
  have z: "outstanding_tx bench_sock = 0" by (simp add: bench_sock_def)
  have k: "cons_inv (kernel_produced [0] (ring2 0))" "in_flight (kernel_produced [0] (ring2 0)) = [0 :: u64]"
    using kernel_produced_spec [where q = "ring2 0" and ds = "[0]", OF ring2_inv(3)]
    by (simp_all only: ring2_empty ring2_capacity) simp_all
  have env: "\<And>y. outstanding_tx (?env y) = outstanding_tx y \<and> cons_inv (cq (umem (?env y)))
        \<and> in_flight (cq (umem (?env y))) \<noteq> []"
    using k by (simp del: length_in_flight)
  obtain nif' xsk' where eq: "low_level_output bytes_pbuf (Inr 0) ?env 5 [7, 8] (netif0, bench_sock)
      = Inr (ERR_OK, nif', xsk')"
    using low_level_output_returns [OF i, of bytes_pbuf 0 ?env 5 "[7, 8]" netif0] by blast
  from low_level_output_underflow [OF i z env eq] eq show ?thesis
    by (auto simp: netif0_def)
qed



text \<open>
  (C39) The driver registers a UMEM of \<open>NUM_FRAMES\<close> = 256 frames but fills the fill ring with
  \<open>NUM_DESCS\<close> = 1024 frame addresses: after a successful configuration only the first quarter of
  what is on the fill ring lies inside the registered memory.
\<close>

theorem driver_fill_ring_exceeds_umem:
  assumes "fresh_mapping FQ_NUM_DESCS fqm" "fresh_mapping CQ_NUM_DESCS cqm"
    and "fresh_mapping NUM_DESCS rxm" "fresh_mapping NUM_DESCS txm"
    and "lw_xsk_configure ok ix oq bufs fqm cqm rxm txm fd None = Inr x"
  shows "in_flight (fq (umem x)) = map (\<lambda>k. of_nat (k * LW_FRAME_SIZE)) [0..<LW_NUM_DESCS]
    \<and> list_all (\<lambda>a. unat a + LW_FRAME_SIZE \<le> LW_NUM_FRAMES * LW_FRAME_SIZE) (take LW_NUM_FRAMES (in_flight (fq (umem x))))
    \<and> list_all (\<lambda>a. \<not> unat a < LW_NUM_FRAMES * LW_FRAME_SIZE) (drop LW_NUM_FRAMES (in_flight (fq (umem x))))
    \<and> length (drop LW_NUM_FRAMES (in_flight (fq (umem x)))) = 768"
proof -
  obtain ok' where "xsk_configure ok' BENCH_RXDROP ix oq 0 bufs fqm cqm rxm txm fd None = Inr x"
    using lw_configure_eq [OF assms(5)] by blast
  then have fl: "in_flight (fq (umem x)) = map (\<lambda>k. of_nat (k * LW_FRAME_SIZE)) [0..<LW_NUM_DESCS]"
    using configure_fresh [OF assms(1-4)] by (simp add: fill_addrs_def lw_consts)
  have u: "unat (of_nat (k * LW_FRAME_SIZE) :: u64) = k * LW_FRAME_SIZE" if "k < LW_NUM_DESCS" for k
    using that by (intro unat_of_nat_u64) (simp add: lw_consts)
  have parts: "take LW_NUM_FRAMES [0..<LW_NUM_DESCS] = [0..<LW_NUM_FRAMES]"
    "drop LW_NUM_FRAMES [0..<LW_NUM_DESCS] = [LW_NUM_FRAMES..<LW_NUM_DESCS]"
    by (simp_all only: take_upt drop_upt LW_NUM_FRAMES_def LW_NUM_DESCS_def) simp_all
  have "unat (of_nat (k * LW_FRAME_SIZE) :: u64) + LW_FRAME_SIZE \<le> LW_NUM_FRAMES * LW_FRAME_SIZE"
    if "k < LW_NUM_FRAMES" for k
    using that by (subst u) (simp_all add: LW_NUM_FRAMES_def LW_NUM_DESCS_def LW_FRAME_SIZE_def)
  moreover have "\<not> unat (of_nat (k * LW_FRAME_SIZE) :: u64) < LW_NUM_FRAMES * LW_FRAME_SIZE"
    if "LW_NUM_FRAMES \<le> k" "k < LW_NUM_DESCS" for k
    using that by (subst u) (simp_all add: LW_FRAME_SIZE_def)
  ultimately show ?thesis
    unfolding fl take_map drop_map parts list_all_iff length_map length_upt
    by (auto simp del: of_nat_mult) (simp add: LW_NUM_FRAMES_def LW_NUM_DESCS_def)
qed

theorem driver_fill_ring_exceeds_umem_witness:
  "\<exists>x. lw_xsk_configure (\<lambda>_. True) 2 0 (\<lambda>_. 0) (zero_mapping FQ_NUM_DESCS 0)
      (zero_mapping CQ_NUM_DESCS 0) (zero_mapping NUM_DESCS desc0) (zero_mapping NUM_DESCS desc0) 3 None
      = Inr x \<and> length (drop LW_NUM_FRAMES (in_flight (fq (umem x)))) = 768"
proof -
  let ?fq = "\<lparr>cached_prod = 0, cached_cons = 1024, qmask = 1023, qsize = 1024,
      producer = 0, consumer = 0, ring = replicate 1024 0\<rparr> :: xdp_umem_uqueue"
  have ring: "prod_inv ?fq" by (rule fresh_ring(1)) simp
  obtain q' where "fill_frames (map (\<lambda>k. of_nat (k * LW_FRAME_SIZE)) [0..<LW_NUM_DESCS]) ?fq = Inr q'"
    using fill_frames_spec [OF ring, of "map (\<lambda>k. of_nat (k * LW_FRAME_SIZE)) [0..<LW_NUM_DESCS]"]
    by (auto simp: fresh_ring_view LW_NUM_DESCS_def simp del: of_nat_mult)
  then obtain x where x: "lw_xsk_configure (\<lambda>_. True) 2 0 (\<lambda>_. 0) (zero_mapping FQ_NUM_DESCS 0)
      (zero_mapping CQ_NUM_DESCS 0) (zero_mapping NUM_DESCS desc0) (zero_mapping NUM_DESCS desc0) 3 None = Inr x"
    by (auto simp: lw_xsk_configure_def lw_xdp_umem_configure_def lassert_ok_def Let_def lw_fill_frames_eq
        zero_mapping_def LW_FQ_NUM_DESCS_def FQ_NUM_DESCS_def simp del: of_nat_mult)
  with driver_fill_ring_exceeds_umem [OF fresh_zero_mapping fresh_zero_mapping fresh_zero_mapping
      fresh_zero_mapping x] show ?thesis by blast
qed

definition env_succeeds :: "main_env \<Rightarrow> bool" where
  "env_succeeds e \<longleftrightarrow> e_setrlimit e = 0 \<and> e_prog_load e = 0 \<and> 0 \<le> e_prog_fd e \<and> 0 \<le> e_qidconf_map e
     \<and> 0 \<le> e_xsks_map e \<and> 0 \<le> e_set_link e \<and> e_update_qidconf e = 0 \<and> (\<forall>c. e_call_ok e c)
     \<and> e_update_xsks e 0 = 0 \<and> fresh_mapping LW_FQ_NUM_DESCS (e_fqm e)"

lemma lw_configure_all_ok:
  assumes "fresh_mapping LW_FQ_NUM_DESCS fqm" and "\<And>c. ok c"
  shows "\<exists>x. lw_xsk_configure ok ix oq bufs fqm cqm rxm txm fd None = Inr x \<and> sfd x = fd"
proof -
  let ?fq = "\<lparr>cached_prod = 0, cached_cons = 1024, qmask = 1023, qsize = 1024,
      producer = 0, consumer = 0, ring = m_ring fqm\<rparr> :: xdp_umem_uqueue"
  have len: "length (m_ring fqm) = 1024"
    using assms(1) by (simp add: fresh_mapping_def LW_FQ_NUM_DESCS_def)
  obtain q' where "fill_frames (map (\<lambda>k. of_nat (k * LW_FRAME_SIZE)) [0..<LW_NUM_DESCS]) ?fq = Inr q'"
    using fill_frames_spec [OF fresh_ring(1) [OF len], of "map (\<lambda>k. of_nat (k * LW_FRAME_SIZE)) [0..<LW_NUM_DESCS]"]
    by (auto simp: fresh_ring_view LW_NUM_DESCS_def simp del: of_nat_mult)
  then show ?thesis
    using assms by (auto simp: lw_xsk_configure_def lw_xdp_umem_configure_def lassert_ok_def Let_def
        lw_fill_frames_eq fresh_mapping_def LW_FQ_NUM_DESCS_def simp del: of_nat_mult)
qed

text \<open>
  Initialisation depends on uninitialised memory: with every call succeeding,
  \<open>af_xdp_if_init\<close> sets the interface up (name, MTU, address, flags, link, the program attached
  without flags, queue 0 steered to the one socket) exactly if the block from \<open>mem_malloc\<close>
  happens to hold 0 in \<open>num_socks\<close>, which nothing sets; any other value makes it store outside
  the one-entry socket array. Without a block it returns \<open>ERR_MEM\<close> and changes nothing.
\<close>

theorem af_xdp_if_init_result:
  assumes "env_succeeds e" and "length (xsks aif) = LW_MAX_SOCKS"
  shows "af_xdp_if_init ix e None nif h = (Inr (ERR_MEM, None), h)
    \<and> (\<exists>x h'. af_xdp_if_init ix e (Some aif) nif h =
       (if num_socks aif = 0
        then Inr (ERR_OK, Some (\<lparr>num_socks = 1, xsks = [Some x], opt_queue = 0, if_idx = ix\<rparr>,
          nif\<lparr>ni_name := ''af'', ni_mtu := 1500, ni_hwaddr := [0x02, 0x12, 0x34, 0x56, 0x78, 0xab],
              ni_flags := 0x2A, ni_link_up := True\<rparr>))
        else Inl (StoreOutOfBounds (num_socks aif)), h')
      \<and> attached h' = (attached h)(ix \<mapsto> (e_prog_fd e, 0))
      \<and> (num_socks aif = 0 \<longrightarrow> fst (xdp_sock_prog False redirect 0 (maps h')) = redirect (xsks_map (maps h')) 0
         \<and> xsks_map (maps h') 0 = Some (sfd x)))"
proof
  show "af_xdp_if_init ix e None nif h = (Inr (ERR_MEM, None), h)"
    by (simp add: af_xdp_if_init_def)
  obtain x where x: "lw_xsk_configure (e_call_ok e) ix 0 (e_bufs e) (e_fqm e) (e_cqm e)
             (e_rxm e) (e_txm e) (e_sfd e) None = Inr x"
    using lw_configure_all_ok [of "e_fqm e" "e_call_ok e" ix 0 "e_bufs e" "e_cqm e" "e_rxm e" "e_txm e" "e_sfd e"]
      assms(1) by (auto simp: env_succeeds_def)
  obtain y where y: "xsks aif = [y]"
    using assms(2) by (cases "xsks aif") (auto simp: LW_MAX_SOCKS_def)
  have flags: "NETIF_FLAG_BROADCAST OR NETIF_FLAG_ETHARP OR NETIF_FLAG_IGMP = 0x2A"
    by (simp add: NETIF_FLAG_BROADCAST_def NETIF_FLAG_ETHARP_def NETIF_FLAG_IGMP_def)
  let ?h = "h\<lparr>attached := (attached h)(ix \<mapsto> (e_prog_fd e, 0)),
    maps := (maps h)\<lparr>qidconf_map := (qidconf_map (maps h))(0 \<mapsto> 0)\<rparr>\<rparr>"
  let ?h' = "?h\<lparr>maps := (maps ?h)\<lparr>xsks_map := (xsks_map (maps ?h))(0 \<mapsto> sfd x)\<rparr>\<rparr>"
  show "\<exists>x h'. af_xdp_if_init ix e (Some aif) nif h =
       (if num_socks aif = 0
        then Inr (ERR_OK, Some (\<lparr>num_socks = 1, xsks = [Some x], opt_queue = 0, if_idx = ix\<rparr>,
          nif\<lparr>ni_name := ''af'', ni_mtu := 1500, ni_hwaddr := [0x02, 0x12, 0x34, 0x56, 0x78, 0xab],
              ni_flags := 0x2A, ni_link_up := True\<rparr>))
        else Inl (StoreOutOfBounds (num_socks aif)), h')
      \<and> attached h' = (attached h)(ix \<mapsto> (e_prog_fd e, 0))
      \<and> (num_socks aif = 0 \<longrightarrow> fst (xdp_sock_prog False redirect 0 (maps h')) = redirect (xsks_map (maps h')) 0
         \<and> xsks_map (maps h') 0 = Some (sfd x))"
    by (rule exI [of _ x], rule exI [of _ "if num_socks aif = 0 then ?h' else ?h"])
      (use assms(1) x y in \<open>auto simp: af_xdp_if_init_def low_level_init_def env_succeeds_def Let_def
        flags xdp_sock_prog_def\<close>)
qed

definition block :: "int \<Rightarrow> af_xdp_if" where
  "block n = \<lparr>num_socks = n, xsks = [None], opt_queue = 0, if_idx = 0\<rparr>"

theorem af_xdp_if_init_result_witness:
  "fst (af_xdp_if_init 2 env_ok (Some (block 5)) netif0 host0) = Inl (StoreOutOfBounds 5)
   \<and> (\<exists>r. fst (af_xdp_if_init 2 env_ok (Some (block 0)) netif0 host0) = Inr (ERR_OK, Some r))"
proof -
  have e: "env_succeeds env_ok"
    by (simp add: env_succeeds_def env_ok_def LW_FQ_NUM_DESCS_def FQ_NUM_DESCS_def)
  have l: "length (xsks (block n)) = LW_MAX_SOCKS" for n
    by (simp add: block_def LW_MAX_SOCKS_def)
  have five: "num_socks (block 5) = 5" "num_socks (block 0) = 0"
    by (simp_all add: block_def)
  from af_xdp_if_init_result [OF e l, of 2 netif0 host0 5 redirect_slot]
    af_xdp_if_init_result [OF e l, of 2 netif0 host0 0 redirect_slot]
  show ?thesis unfolding five by auto
qed

end
