(* ===== verification/Xdp_Text.thy ===== *)
theory Xdp_Text
  imports Af_Xdp C_Lib
begin

text \<open>
  What the benchmark and the driver print about packets and sockets: \<open>hex_dump\<close> with its rows of 32
  bytes, the line of \<open>print_benchmark\<close>, \<open>usage\<close>, and the driver's copies of \<open>hex_dump\<close> and of the
  statistics. Output is the string that the calls of \<open>printf\<close> write. \<open>DEBUG_HEXDUMP\<close> is 0 in both
  files and a parameter here.
\<close>

section \<open>Rows of bytes\<close>

definition newline :: string where "newline = [char_of (10 :: nat)]"

text \<open>\<open>printf("%c", (c < 33 || c == 255) ? 0x2E : c)\<close>\<close>

definition shown :: "u8 \<Rightarrow> char" where
  "shown c = (if c < 33 \<or> c = 255 then CHR ''.'' else char_of (unat c))"

text \<open>\<open>while (i++ % line_size) printf("__ ")\<close>, with the value of \<open>i\<close> after it.\<close>

function dump_pad :: "nat \<Rightarrow> string \<times> nat" where
  "dump_pad i = (if i mod 32 \<noteq> 0 then let (s, j) = dump_pad (i + 1) in (''__ '' @ s, j) else ('''', i + 1))"
  by pat_completeness auto
termination
proof (relation "measure (\<lambda>i. (32 - i mod 32) mod 32)")
  fix i :: nat
  assume "i mod 32 \<noteq> 0"
  then have "(32 - (i + 1) mod 32) mod 32 < (32 - i mod 32) mod 32"
    by (cases "i mod 32 = 31") (simp_all add: mod_Suc)
  then show "(i + 1, i) \<in> measure (\<lambda>i. (32 - i mod 32) mod 32)" by simp
qed simp

declare dump_pad.simps [simp del]

text \<open>
  The loop over the bytes at \<open>address\<close>; \<open>row\<close> are those from \<open>line\<close> on that were printed in hexadecimal. Packets are no
  longer than a frame, so \<open>i\<close> does not overflow.
\<close>

fun dump_loop :: "string \<Rightarrow> nat \<Rightarrow> u8 list \<Rightarrow> u8 list \<Rightarrow> string" where
  "dump_loop buf i row [] = ''''"
| "dump_loop buf i row (b # rest) =
     print_hex 2 (unat b) @ '' '' @
     (if (i + 1) mod 32 = 0 \<or> rest = [] \<and> (i + 1) mod 32 \<noteq> 0 then
        let (pad, i) = (if rest = [] then dump_pad (i + 1) else ('''', i + 1))
        in pad @ '' | '' @ map shown (row @ [b]) @ newline @ (if rest \<noteq> [] then buf @ '' | '' else '''')
             @ dump_loop buf i [] rest
      else dump_loop buf (i + 1) (row @ [b]) rest)"

definition hex_dump :: "bool \<Rightarrow> u8 list \<Rightarrow> u64 \<Rightarrow> string" where
  "hex_dump debug_hexdump pkt a =
     (if \<not> debug_hexdump then ''''
      else let buf = ''addr='' @ print_dec (unat a)
           in ''length = '' @ print_dec (length pkt) @ newline @ buf @ '' | '' @ dump_loop buf 0 [] pkt @ newline)"

section \<open>The rows as they should be\<close>

definition hexes :: "u8 list \<Rightarrow> string" where
  "hexes bs = concat (map (\<lambda>b. print_hex 2 (unat b) @ '' '') bs)"

definition dump_row :: "u8 list \<Rightarrow> string" where
  "dump_row bs = hexes bs @ concat (replicate (32 - length bs) ''__ '') @ '' | '' @ map shown bs @ newline"

function rows :: "u8 list \<Rightarrow> u8 list list" where
  "rows bs = (if bs = [] then [] else take 32 bs # rows (drop 32 bs))"
  by pat_completeness auto
termination by (relation "measure length") auto

declare rows.simps [simp del]

lemma rows_simps [simp]: "rows [] = []" "bs \<noteq> [] \<Longrightarrow> rows bs = take 32 bs # rows (drop 32 bs)"
  by (simp_all add: rows.simps [of "[]"] rows.simps [of bs])

lemma hexes_simps [simp]: "hexes [] = ''''" "hexes (b # bs) = print_hex 2 (unat b) @ '' '' @ hexes bs"
  by (simp_all add: hexes_def)

lemma pad_spec: "k < 32 \<Longrightarrow> i mod 32 = (32 - k) mod 32 \<Longrightarrow> fst (dump_pad i) = concat (replicate k ''__ '')"
proof (induction k arbitrary: i)
  case 0
  then show ?case by (simp add: dump_pad.simps [of i])
next
  case (Suc k)
  then have i: "i mod 32 = 31 - k" by simp
  then have "(i + 1) mod 32 = (32 - k) mod 32" using Suc.prems(1) by (cases "k = 0") (auto simp: mod_Suc)
  then have "fst (dump_pad (i + 1)) = concat (replicate k ''__ '')" using Suc by simp
  moreover have "i mod 32 \<noteq> 0" using i Suc.prems(1) by simp
  ultimately show ?case by (simp add: dump_pad.simps [of i] case_prod_beta)
qed

text \<open>The end of a row that is full, and of the last one.\<close>

lemma dump_full:
  assumes "bs \<noteq> []" "length row + length bs = 32" "i mod 32 = length row"
  shows "dump_loop buf i row (bs @ rest) = hexes bs @ '' | '' @ map shown (row @ bs) @ newline
    @ (if rest \<noteq> [] then buf @ '' | '' @ dump_loop buf (i + length bs) [] rest else '''')"
  using assms
proof (induction bs arbitrary: i row)
  case (Cons b bs)
  show ?case
  proof (cases bs)
    case Nil
    then have "(i + 1) mod 32 = 0" using Cons.prems by (simp add: mod_Suc)
    then show ?thesis using Nil by (auto simp: dump_pad.simps [of "Suc i"])
  next
    case (Cons c cs)
    then have n: "(i + 1) mod 32 = length (row @ [b])" "length (row @ [b]) + length bs = 32"
      using Cons.prems by (simp_all add: mod_Suc)
    then have "(i + 1) mod 32 \<noteq> 0" by simp
    moreover have "bs @ rest \<noteq> []" using Cons by simp
    ultimately show ?thesis using Cons.IH [OF _ n(2,1)] Cons by simp
  qed
qed simp

lemma dump_last:
  assumes "bs \<noteq> []" "length row + length bs < 32" "i mod 32 = length row"
  shows "dump_loop buf i row bs = hexes bs @ concat (replicate (32 - (length row + length bs)) ''__ '')
    @ '' | '' @ map shown (row @ bs) @ newline"
  using assms
proof (induction bs arbitrary: i row)
  case (Cons b bs)
  have n: "(i + 1) mod 32 = length (row @ [b])" using Cons.prems by (simp add: mod_Suc)
  show ?case
  proof (cases bs)
    case Nil
    then have "fst (dump_pad (i + 1)) = concat (replicate (31 - length row) ''__ '')"
      using n Cons.prems by (intro pad_spec) auto
    then show ?thesis using Nil n by (simp add: case_prod_beta)
  next
    case (Cons c cs)
    have "length (row @ [b]) + length bs < 32" using Cons.prems by simp
    then have "dump_loop buf (i + 1) (row @ [b]) bs = hexes bs @ concat (replicate (32 - (length (row @ [b]) + length bs)) ''__ '')
        @ '' | '' @ map shown ((row @ [b]) @ bs) @ newline"
      using Cons.IH [OF _ _ n] Cons by simp
    then show ?thesis using n Cons by simp
  qed
qed simp

lemma dump_rows:
  "pkt \<noteq> [] \<Longrightarrow> i mod 32 = 0 \<Longrightarrow>
    buf @ '' | '' @ dump_loop buf i [] pkt = concat (map (\<lambda>r. buf @ '' | '' @ dump_row r) (rows pkt))"
proof (induction "length pkt" arbitrary: pkt i rule: less_induct)
  case less
  show ?case
  proof (cases "length pkt < 32")
    case True
    then have "take 32 pkt = pkt" "drop 32 pkt = []" by simp_all
    then have "rows pkt = [pkt]" using less.prems(1) by simp
    then show ?thesis using dump_last [OF less.prems(1), of "[]" i buf] True less.prems(2) by (simp add: dump_row_def)
  next
    case False
    let ?row = "take 32 pkt" and ?rest = "drop 32 pkt"
    have row: "length ?row = 32" "?row \<noteq> []" using False by auto
    have d: "dump_loop buf i [] pkt = hexes ?row @ '' | '' @ map shown ?row @ newline
        @ (if ?rest \<noteq> [] then buf @ '' | '' @ dump_loop buf (i + 32) [] ?rest else '''')"
      using dump_full [OF row(2), of "[]" i buf ?rest] row(1) less.prems(2) by simp
    have r: "rows pkt = ?row # rows ?rest" using less.prems(1) by simp
    show ?thesis
    proof (cases "?rest = []")
      case True
      then show ?thesis using d True row(1) by (simp add: r dump_row_def)
    next
      case rest: False
      have "length ?rest < length pkt" using False by simp
      from less.hyps [OF this rest, of "i + 32"] less.prems(2) show ?thesis
        using d rest row(1) by (simp add: r dump_row_def)
    qed
  qed
qed

text \<open>
  \<open>hex_dump\<close> prints the bytes in rows of 32, each behind the address of the packet, the last
  one filled up; nothing of a packet is left out or printed twice.
\<close>

lemma hex_dump_rows:
  assumes "pkt \<noteq> []"
  shows "hex_dump True pkt a = ''length = '' @ print_dec (length pkt) @ newline
      @ concat (map (\<lambda>r. (''addr='' @ print_dec (unat a)) @ '' | '' @ dump_row r) (rows pkt)) @ newline"
    "concat (rows pkt) = pkt"
proof -
  show "hex_dump True pkt a = ''length = '' @ print_dec (length pkt) @ newline
      @ concat (map (\<lambda>r. (''addr='' @ print_dec (unat a)) @ '' | '' @ dump_row r) (rows pkt)) @ newline"
    using dump_rows [OF assms, of 0 "''addr='' @ print_dec (unat a)"] by (simp add: hex_dump_def Let_def)
  show "concat (rows pkt) = pkt"
  proof (induction "length pkt" arbitrary: pkt rule: less_induct)
    case less
    then show ?case by (cases "pkt = []") simp_all
  qed
qed

section \<open>The benchmark's line and its usage\<close>

definition tab_char :: string where "tab_char = [char_of (9 :: nat)]"

definition print_benchmark :: "options \<Rightarrow> bool \<Rightarrow> string" where
  "print_benchmark opt running =
     (let bench_str = (case o_bench opt of BENCH_RXDROP \<Rightarrow> ''rxdrop'' | BENCH_TXONLY \<Rightarrow> ''txonly'' | BENCH_L2FWD \<Rightarrow> ''l2fwd'')
      in o_if opt @ '':'' @ print_int (o_queue opt) @ '' '' @ bench_str @ '' ''
         @ (if o_xdp_flags opt AND XDP_FLAGS_SKB_MODE \<noteq> 0 then ''xdp-skb ''
            else if o_xdp_flags opt AND XDP_FLAGS_DRV_MODE \<noteq> 0 then ''xdp-drv '' else tab_char)
         @ (if o_poll opt then ''poll() '' else '''')
         @ (if running then ''running...'' else ''''))"

text \<open>The text goes to \<open>stderr\<close>; then the process exits with a failure.\<close>

definition usage :: "string \<Rightarrow> string" where
  "usage prog = concat (map (\<lambda>l. l @ newline)
     [''  Usage: '' @ prog @ '' [OPTIONS]'',
      ''  Options:'',
      ''  -r, --rxdrop'' @ tab_char @ tab_char @ ''Discard all incoming packets (default)'',
      ''  -t, --txonly'' @ tab_char @ tab_char @ ''Only send packets'',
      ''  -l, --l2fwd'' @ tab_char @ tab_char @ ''MAC swap L2 forwarding'',
      ''  -i, --interface=n'' @ tab_char @ ''Run on interface n'',
      ''  -q, --queue=n'' @ tab_char @ ''Use queue n (default 0)'',
      ''  -p, --poll'' @ tab_char @ tab_char @ ''Use poll syscall'',
      ''  -s, --shared-buffer'' @ tab_char @ ''Use shared packet buffer'',
      ''  -S, --xdp-skb=n'' @ tab_char @ ''Use XDP skb-mod'',
      ''  -N, --xdp-native=n'' @ tab_char @ ''Enfore XDP native mode'',
      ''  -n, --interval=n'' @ tab_char @ ''Specify statistics update interval (default 1 sec).'',
      ''  -z, --zero-copy      Force zero-copy mode.'',
      ''  -c, --copy           Force copy mode.'',
      ''''])"

text \<open>If both modes are asked for, the line names the first only.\<close>

lemma print_benchmark_both:
  assumes "o_xdp_flags opt = XDP_FLAGS_SKB_MODE OR XDP_FLAGS_DRV_MODE"
  shows "print_benchmark opt running = print_benchmark (opt\<lparr>o_xdp_flags := XDP_FLAGS_SKB_MODE\<rparr>) running"
  using assms by (simp add: print_benchmark_def XDP_FLAGS_SKB_MODE_def XDP_FLAGS_DRV_MODE_def)

section \<open>The driver's copies\<close>

definition lw_hex_dump :: "bool \<Rightarrow> u8 list \<Rightarrow> u64 \<Rightarrow> string" where
  "lw_hex_dump debug_hexdump pkt a =
     (if debug_hexdump then
        let buf = ''addr='' @ print_dec (unat a)
        in ''length = '' @ print_dec (length pkt) @ newline @ buf @ '' | '' @ dump_loop buf 0 [] pkt @ newline
      else '''')"

lemma lw_hex_dump_same: "lw_hex_dump = hex_dump"
  by (simp add: lw_hex_dump_def hex_dump_def Let_def fun_eq_iff)

definition lw_get_nsecs :: "u64 \<Rightarrow> u64 \<Rightarrow> u64" where
  "lw_get_nsecs tv_sec tv_nsec = tv_sec * 1000000000 + tv_nsec"

text \<open>
  \<open>for (i = 0; i < num_socks && xsks[i]; i++)\<close> over the array of \<open>MAX_SOCKS\<close> entries: the last result tells
  whether it is read behind its end.
\<close>

primrec lw_dump_socks ::
  "int \<Rightarrow> nat \<Rightarrow> int \<Rightarrow> xdpsock option list \<Rightarrow> stat_line list \<times> xdpsock option list \<times> bool" where
  "lw_dump_socks num i dt [] = ([], [], int i < num)"
| "lw_dump_socks num i dt (x # xs) =
     (if \<not> int i < num then ([], x # xs, False)
      else case x of None \<Rightarrow> ([], x # xs, False)
      | Some xsk \<Rightarrow>
          let (lines, xs', beyond) = lw_dump_socks num (Suc i) dt xs
          in (\<lparr>sl_sock = i, sl_rx_delta = rx_npkts xsk - prev_rx_npkts xsk,
               sl_tx_delta = tx_npkts xsk - prev_tx_npkts xsk, sl_dt = dt,
               sl_rx = rx_npkts xsk, sl_tx = tx_npkts xsk\<rparr> # lines,
              Some (xsk\<lparr>prev_rx_npkts := rx_npkts xsk, prev_tx_npkts := tx_npkts xsk\<rparr>) # xs', beyond))"

definition lw_dump_stats :: "u64 \<Rightarrow> u64 \<times> af_xdp_if \<Rightarrow> stat_line list \<times> (u64 \<times> af_xdp_if) \<times> bool" where
  "lw_dump_stats now = (\<lambda>(prev_time, i).
     let dt = sint (now - prev_time);
         (lines, socks, beyond) = lw_dump_socks (num_socks i) 0 dt (xsks i)
     in (lines, (now, i\<lparr>xsks := socks\<rparr>), beyond))"

definition af_xdp_if_poll ::
  "(nat \<Rightarrow> bool) \<Rightarrow> (u8 list \<Rightarrow> err_t) \<Rightarrow> netif \<times> xdpsock \<Rightarrow> rx_event list \<times> netif \<times> xdpsock" where
  "af_xdp_if_poll alloc input_fn = af_xdp_if_input alloc input_fn"

text \<open>Within the array the driver's report is that of the benchmark; with more sockets than it has entries, all
  of them there, the array is read behind its end.\<close>

lemma lw_dump_socks_bench:
  "num = int (i + length xs) \<Longrightarrow>
    lw_dump_socks num i dt xs = (fst (dump_socks i dt xs), snd (dump_socks i dt xs), False)"
  by (induction xs arbitrary: i) (simp_all add: Let_def case_prod_beta split: option.split)

lemma lw_dump_beyond:
  "int (i + length xs) < num \<Longrightarrow> None \<notin> set xs \<Longrightarrow> snd (snd (lw_dump_socks num i dt xs))"
proof (induction xs arbitrary: i)
  case (Cons x xs)
  then show ?case using Cons.IH [of "Suc i"] by (cases x) (simp_all add: Let_def case_prod_beta)
qed simp

end
