(* ===== verification/Ping.thy ===== *)
theory Ping
  imports Lwip
begin

text \<open>
  The ping client of lwip/ping.c, in both of its builds: over lwIP's socket interface
  (\<open>PING_USE_SOCKETS\<close>, the default) and over the raw interface. A packet is the list of its
  bytes. The checksum function, the socket and pbuf calls are lwIP's and are arguments. The
  64-byte receive buffer is kept across datagrams, and a read behind its end is a result of its
  own. Multi-byte fields that the code stores in host order are stored low byte first.
\<close>

definition PING_ID :: u16 where "PING_ID = 0xAFAF"
definition PING_DATA_SIZE :: nat where "PING_DATA_SIZE = 32"
definition PING_DELAY :: nat where "PING_DELAY = 1000"
definition ICMP_ECHO :: u8 where "ICMP_ECHO = 8"
definition ICMP_ER :: u8 where "ICMP_ER = 0"
definition ECHO_HDR :: nat where "ECHO_HDR = 8"
definition IP_HDR :: nat where "IP_HDR = 20"
definition RECV_BUF :: nat where "RECV_BUF = 64"

definition store16 :: "u16 \<Rightarrow> u8 list" where
  "store16 w = [ucast w, ucast (drop_bit 8 w)]"

section \<open>Echo requests\<close>

text \<open>The request of \<open>len\<close> bytes, and the sequence number, which is incremented first.\<close>

definition ping_prepare_echo :: "(u8 list \<Rightarrow> u16) \<Rightarrow> nat \<Rightarrow> u16 \<Rightarrow> u8 list \<times> u16" where
  "ping_prepare_echo inet_chksum len ping_seq_num =
     (let data_len = len - ECHO_HDR;
          ping_seq_num = ping_seq_num + 1;
          iecho = [ICMP_ECHO, 0] @ store16 0 @ store16 PING_ID @ be16 ping_seq_num
                    @ map of_nat [0..<data_len];
          chksum = inet_chksum iecho
      in (take 2 iecho @ store16 chksum @ drop 4 iecho, ping_seq_num))"

datatype ip_addr = IP4 u32 | IP6 "u32 list"

text \<open>\<open>ping_send\<close> over a socket: \<open>mapped\<close> is \<open>ip6_addr_isipv4mappedipv6\<close>, \<open>alloc\<close> whether the
  allocation succeeds, \<open>sendto\<close> what \<open>lwip_sendto\<close> returns for the packet and the address. The
  result lists the packet sent.\<close>

definition ping_send ::
  "(u8 list \<Rightarrow> u16) \<Rightarrow> (u32 list \<Rightarrow> bool) \<Rightarrow> bool \<Rightarrow> (u8 list \<Rightarrow> ip_addr \<Rightarrow> int) \<Rightarrow> ip_addr \<Rightarrow> u16
     \<Rightarrow> err_t \<times> u8 list option \<times> u16" where
  "ping_send inet_chksum mapped alloc sendto addr ping_seq_num =
     (if (case addr of IP6 a \<Rightarrow> \<not> mapped a | IP4 _ \<Rightarrow> False) then (ERR_VAL, None, ping_seq_num)
      else if \<not> alloc then (ERR_MEM, None, ping_seq_num)
      else let (iecho, ping_seq_num) = ping_prepare_echo inet_chksum (ECHO_HDR + PING_DATA_SIZE) ping_seq_num;
               err = sendto iecho addr
           in (if err \<noteq> 0 then ERR_OK else ERR_VAL, Some iecho, ping_seq_num))"

section \<open>Replies over a socket\<close>

datatype family = AF_INET | AF_INET6 | AF_OTHER

text \<open>\<open>PING_RESULT ok\<close>, or a read behind the end of the receive buffer.\<close>

datatype recv_outcome = PingResult bool | ReadOutOfBounds

text \<open>
  The loop over \<open>lwip_recvfrom\<close>: the list holds the datagrams it delivers before it times out
  or fails; an empty one ends the loop as well. \<open>buf\<close> is the buffer's content. An address
  of an unknown family is left zero, which lwIP reads as IPv4.
\<close>

primrec ping_recv :: "u16 \<Rightarrow> u8 list \<Rightarrow> (family \<times> u8 list) list \<Rightarrow> recv_outcome" where
  "ping_recv ping_seq_num buf [] = PingResult False"
| "ping_recv ping_seq_num buf (d # ds) =
     (let (fam, dgram) = d;
          len = min (length dgram) RECV_BUF;
          buf = take len dgram @ drop len buf;
          iecho = unat (hd buf AND 0x0F) * 4
      in if len = 0 then PingResult False
         else if IP_HDR + ECHO_HDR \<le> len \<and> fam \<noteq> AF_INET6 then
           if iecho + ECHO_HDR > RECV_BUF then ReadOutOfBounds
           else if take 2 (drop (iecho + 4) buf) = store16 PING_ID
                   \<and> take 2 (drop (iecho + 6) buf) = be16 ping_seq_num
           then PingResult (buf ! iecho = ICMP_ER)
           else ping_recv ping_seq_num buf ds
         else ping_recv ping_seq_num buf ds)"

text \<open>One pass of \<open>ping_thread\<close>: send; if that went well, wait for the reply; then sleep.\<close>

definition ping_thread_pass ::
  "(u8 list \<Rightarrow> u16) \<Rightarrow> (u32 list \<Rightarrow> bool) \<Rightarrow> bool \<Rightarrow> (u8 list \<Rightarrow> ip_addr \<Rightarrow> int) \<Rightarrow> ip_addr
     \<Rightarrow> u8 list \<Rightarrow> (family \<times> u8 list) list \<Rightarrow> u16 \<Rightarrow> recv_outcome option \<times> u16" where
  "ping_thread_pass inet_chksum mapped alloc sendto target buf ds ping_seq_num =
     (let (err, _, ping_seq_num) = ping_send inet_chksum mapped alloc sendto target ping_seq_num
      in if err = ERR_OK then (Some (ping_recv ping_seq_num buf ds), ping_seq_num)
         else (None, ping_seq_num))"

section \<open>The raw interface\<close>

text \<open>A pbuf by its operations: total length, bytes of the first buffer from the payload on,
  hiding and uncovering a header.\<close>

record 'p raw_ops =
  r_tot_len :: "'p \<Rightarrow> nat"
  r_payload :: "'p \<Rightarrow> u8 list"
  r_remove_header :: "'p \<Rightarrow> nat \<Rightarrow> 'p option"
  r_add_header :: "'p \<Rightarrow> nat \<Rightarrow> 'p"

datatype 'p raw_result = Eaten | NotEaten 'p | PayloadOutOfBounds

definition raw_ping_recv :: "'p raw_ops \<Rightarrow> u16 \<Rightarrow> 'p \<Rightarrow> 'p raw_result" where
  "raw_ping_recv ops ping_seq_num p =
     (if IP_HDR + ECHO_HDR \<le> r_tot_len ops p then
        (case r_remove_header ops p IP_HDR of
           None \<Rightarrow> NotEaten p
         | Some q \<Rightarrow>
             let iecho = r_payload ops q
             in if length iecho < ECHO_HDR then PayloadOutOfBounds
                else if take 2 (drop 4 iecho) = store16 PING_ID \<and> take 2 (drop 6 iecho) = be16 ping_seq_num
                then Eaten
                else NotEaten (r_add_header ops q IP_HDR))
      else NotEaten p)"

text \<open>The allocation may fail or return a chain (\<open>Some False\<close>), which is not used.\<close>

definition raw_ping_send ::
  "(u8 list \<Rightarrow> u16) \<Rightarrow> bool option \<Rightarrow> u16 \<Rightarrow> u8 list option \<times> u16" where
  "raw_ping_send inet_chksum alloc ping_seq_num =
     (case alloc of
        None \<Rightarrow> (None, ping_seq_num)
      | Some single \<Rightarrow>
          if single then
            let (iecho, ping_seq_num) = ping_prepare_echo inet_chksum (ECHO_HDR + PING_DATA_SIZE) ping_seq_num
            in (Some iecho, ping_seq_num)
          else (None, ping_seq_num))"

text \<open>The timer handler sends and re-arms itself: the second component is the next delay.\<close>

definition ping_timeout ::
  "(u8 list \<Rightarrow> u16) \<Rightarrow> bool option \<Rightarrow> u16 \<Rightarrow> u8 list option \<times> nat \<times> u16" where
  "ping_timeout inet_chksum alloc ping_seq_num =
     (let (sent, ping_seq_num) = raw_ping_send inet_chksum alloc ping_seq_num
      in (sent, PING_DELAY, ping_seq_num))"

text \<open>
  The raw build makes a protocol control block (\<open>pcb\<close> tells whether there was memory) and sets the timer; the
  application may also send at once. The failing assertion is a value.
\<close>

definition ping_raw_init :: "bool \<Rightarrow> string + nat" where
  "ping_raw_init pcb = (if \<not> pcb then Inl ''ping_pcb != NULL'' else Inr PING_DELAY)"

definition ping_send_now ::
  "bool \<Rightarrow> (u8 list \<Rightarrow> u16) \<Rightarrow> bool option \<Rightarrow> u16 \<Rightarrow> string + u8 list option \<times> u16" where
  "ping_send_now pcb inet_chksum alloc ping_seq_num =
     (if \<not> pcb then Inl ''ping_pcb != NULL'' else Inr (raw_ping_send inet_chksum alloc ping_seq_num))"

section \<open>Round trip\<close>

lemma length_store16 [simp]: "length (store16 w) = 2"
  by (simp add: store16_def)

lemma length_echo: "ECHO_HDR \<le> len \<Longrightarrow> length (fst (ping_prepare_echo chk len n)) = len"
  by (simp add: ping_prepare_echo_def Let_def ECHO_HDR_def store16_def be16_def)

lemma echo_shape:
  "\<exists>c. ping_prepare_echo chk len n =
     (ICMP_ECHO # 0 # store16 c @ store16 PING_ID @ be16 (n + 1) @ map of_nat [0..<len - ECHO_HDR], n + 1)"
  by (rule exI [of _ "chk ([ICMP_ECHO, 0] @ store16 0 @ store16 PING_ID @ be16 (n + 1)
                    @ map of_nat [0..<len - ECHO_HDR])"])
    (simp add: ping_prepare_echo_def Let_def store16_def be16_def eval_nat_numeral)

text \<open>What a host answers: an IPv4 header of 20 bytes, the type changed to reply, the checksum
  replaced, identifier, sequence number and data echoed.\<close>

definition echo_reply :: "u8 list \<Rightarrow> u16 \<Rightarrow> u8 list \<Rightarrow> u8 list" where
  "echo_reply iphdr c req = iphdr @ [ICMP_ER, 0] @ store16 c @ drop 4 req"

definition plain_ip_header :: "u8 list \<Rightarrow> bool" where
  "plain_ip_header h \<longleftrightarrow> length h = IP_HDR \<and> hd h AND 0x0F = 5"

text \<open>A datagram that \<open>ping_recv\<close> passes over whatever the buffer holds.\<close>

definition passed_over :: "family \<times> u8 list \<Rightarrow> bool" where
  "passed_over d \<longleftrightarrow> snd d \<noteq> [] \<and> (fst d = AF_INET6 \<or> length (snd d) < IP_HDR + ECHO_HDR)"

lemma ping_recv_passes_over:
  "list_all passed_over ds \<Longrightarrow> length buf = RECV_BUF \<Longrightarrow>
   \<exists>buf'. length buf' = RECV_BUF \<and> ping_recv n buf (ds @ es) = ping_recv n buf' es"
proof (induction ds arbitrary: buf)
  case Nil
  then show ?case by auto
next
  case (Cons d ds)
  obtain fam g where d: "d = (fam, g)" by fastforce
  let ?len = "min (length g) RECV_BUF"
  let ?buf = "take ?len g @ drop ?len buf"
  have "length ?buf = RECV_BUF"
    using Cons.prems(2) by simp
  moreover have "ping_recv n buf ((d # ds) @ es) = ping_recv n ?buf (ds @ es)"
  proof -
    have "?len \<noteq> 0"
      using Cons.prems(1) by (auto simp: d passed_over_def RECV_BUF_def min_def)
    moreover have "\<not> (IP_HDR + ECHO_HDR \<le> ?len \<and> fam \<noteq> AF_INET6)"
      using Cons.prems(1) by (auto simp: d passed_over_def)
    ultimately show ?thesis
      by (simp only: append_Cons ping_recv.simps d Let_def prod.case if_False)
  qed
  ultimately show ?case
    using Cons.IH [of ?buf] Cons.prems(1) by auto
qed

lemma ping_recv_reply:
  assumes buf: "length buf = RECV_BUF" and h: "plain_ip_header h" and len: "ECHO_HDR \<le> len"
    and eq: "ping_prepare_echo chk len n = (req, n')" and fam: "fam \<noteq> AF_INET6"
  shows "ping_recv n' buf ((fam, echo_reply h c req) # es) = PingResult True"
proof -
  obtain ck where req: "req = ICMP_ECHO # 0 # store16 ck @ store16 PING_ID @ be16 n'
      @ map of_nat [0..<len - ECHO_HDR]"
    using echo_shape [of chk len n] eq by auto
  define data where "data = (map of_nat [0..<len - ECHO_HDR] :: u8 list)"
  obtain h0 ht where hh: "h = h0 # ht" "length ht = 19" "h0 AND 0x0F = 5"
    using h by (cases h) (auto simp: plain_ip_header_def IP_HDR_def)
  have hlen: "length h = 20" using hh by simp
  let ?r = "echo_reply h c req"
  have r: "?r = h @ [ICMP_ER, 0] @ store16 c @ store16 PING_ID @ be16 n' @ data"
    by (simp add: echo_reply_def req data_def store16_def)
  let ?len = "min (length ?r) RECV_BUF"
  let ?buf = "take ?len ?r @ drop ?len buf"
  have lr: "length ?r = 28 + length data"
    by (simp add: r hlen)
  then have l28: "28 \<le> ?len" by (simp add: RECV_BUF_def)
  have b: "take 28 ?buf = h @ [ICMP_ER, 0] @ store16 c @ store16 PING_ID @ be16 n'"
    using l28 by (simp add: r hlen)
  then obtain t where t: "?buf = h @ [ICMP_ER, 0] @ store16 c @ store16 PING_ID @ be16 n' @ t"
    by (metis append_assoc append_take_drop_id)
  have off: "unat (hd ?buf AND 0x0F) * 4 = 20"
    unfolding t using hh by simp
  have f: "take 2 (drop (20 + 4) ?buf) = store16 PING_ID" "take 2 (drop (20 + 6) ?buf) = be16 n'"
      "?buf ! 20 = ICMP_ER"
    unfolding t by (simp_all add: hlen nth_append)
  have "?len \<noteq> 0" "IP_HDR + ECHO_HDR \<le> ?len"
    using l28 by (simp_all only: IP_HDR_def ECHO_HDR_def)
  moreover have "\<not> 20 + ECHO_HDR > RECV_BUF"
    by (simp add: ECHO_HDR_def RECV_BUF_def)
  ultimately show ?thesis
    using fam by (simp only: ping_recv.simps Let_def prod.case off f if_False if_True simp_thms)
qed

section \<open>Properties\<close>

text \<open>
  An echo request has the requested length, type 8 and code 0, the ping identifier, the
  incremented sequence number in network order (wrapping at 65536), data bytes counting up
  modulo 256, and in its checksum field the checksum of the packet with that field zero.
\<close>

theorem ping_request_format:
  assumes "ECHO_HDR \<le> len" and "ping_prepare_echo chk len n = (req, n')"
  shows "n' = n + 1 \<and> length req = len \<and> take 2 req = [ICMP_ECHO, 0]
    \<and> take 2 (drop 4 req) = store16 PING_ID \<and> of_be16 (take 2 (drop 6 req)) = n'
    \<and> drop 8 req = map of_nat [0..<len - ECHO_HDR]
    \<and> take 2 (drop 2 req) = store16 (chk (take 2 req @ [0, 0] @ drop 4 req))"
proof -
  have len: "length req = len" using length_echo [OF assms(1), of chk n] assms(2) by simp
  define ck where "ck = chk ([ICMP_ECHO, 0] @ store16 0 @ store16 PING_ID @ be16 (n + 1)
                    @ map of_nat [0..<len - ECHO_HDR])"
  have n': "n' = n + 1" and req: "req = ([ICMP_ECHO, 0] @ store16 ck) @ store16 PING_ID @ be16 n'
      @ map of_nat [0..<len - ECHO_HDR]"
    using assms(2) by (auto simp: ping_prepare_echo_def Let_def store16_def be16_def eval_nat_numeral ck_def)
  have "take 2 req @ [0, 0] @ drop 4 req
      = [ICMP_ECHO, 0] @ store16 0 @ store16 PING_ID @ be16 (n + 1) @ map of_nat [0..<len - ECHO_HDR]"
    by (simp add: req n') (simp add: store16_def)
  then have "ck = chk (take 2 req @ [0, 0] @ drop 4 req)" by (simp only: ck_def)
  then have "take 2 (drop 2 req) = store16 (chk (take 2 req @ [0, 0] @ drop 4 req))"
    by (simp add: req)
  then show ?thesis
    using len n' by (simp add: req)
qed

theorem ping_request_format_witness:
  "drop 8 (fst (ping_prepare_echo (\<lambda>_. 7) 10 0xFFFF)) = [0, 1]
   \<and> of_be16 (take 2 (drop 6 (fst (ping_prepare_echo (\<lambda>_. 7) 10 0xFFFF)))) = 0"
proof -
  have "ECHO_HDR \<le> 10" by (simp add: ECHO_HDR_def)
  from ping_request_format [OF this, where chk = "\<lambda>_. 7" and n = "0xFFFF",
      OF prod.collapse [symmetric]]
  show ?thesis by (simp add: ECHO_HDR_def upt_rec)
qed

text \<open>
  (C40) A request finds its reply: whatever datagrams come first that are too short or IPv6,
  when the host's answer to the request just prepared arrives, \<open>ping_recv\<close> ends with success,
  for every content of the buffer and every checksum.
\<close>

theorem ping_round_trip:
  assumes "length buf = RECV_BUF" and "list_all passed_over ds" and "plain_ip_header h"
    and "ECHO_HDR \<le> len" and "ping_prepare_echo chk len n = (req, n')"
  shows "ping_recv n' buf (ds @ (AF_INET, echo_reply h c req) # es) = PingResult True"
proof -
  obtain buf' where "length buf' = RECV_BUF"
    "ping_recv n' buf (ds @ (AF_INET, echo_reply h c req) # es) = ping_recv n' buf' ((AF_INET, echo_reply h c req) # es)"
    using ping_recv_passes_over [OF assms(2,1)] by blast
  with ping_recv_reply [OF _ assms(3,4,5)] show ?thesis by simp
qed

definition ip_header0 :: "u8 list" where
  "ip_header0 = 0x45 # replicate 19 0"

theorem ping_round_trip_witness:
  "ping_recv 1 (replicate 64 0) [(AF_INET, [1, 2]),
      (AF_INET, echo_reply ip_header0 0 (fst (ping_prepare_echo (\<lambda>_. 7) 40 0)))] = PingResult True"
proof -
  have e: "ping_prepare_echo (\<lambda>_. 7) 40 0 = (fst (ping_prepare_echo (\<lambda>_. 7) 40 0), 1)"
    using echo_shape [of "\<lambda>_. 7" 40 0] by auto
  have h: "plain_ip_header ip_header0"
    by (simp add: plain_ip_header_def ip_header0_def IP_HDR_def)
  have d: "list_all passed_over [(AF_INET, [1, 2])]"
    by (simp add: passed_over_def IP_HDR_def)
  have "ECHO_HDR \<le> 40" "length (replicate 64 0 :: u8 list) = RECV_BUF"
    by (simp_all add: ECHO_HDR_def RECV_BUF_def)
  from ping_round_trip [OF this(2) d h this(1) e, of 0 "[]"] show ?thesis by simp
qed

text \<open>
  \<open>ping_recv\<close> trusts the header length of the datagram: an IPv4 datagram of at least 28
  bytes whose header claims 15 words makes it compare identifier and sequence number behind the
  end of the 64-byte buffer; any header length up to 14 words stays inside.
\<close>

theorem ping_recv_header_length:
  assumes "IP_HDR + ECHO_HDR \<le> length g" and "fam \<noteq> AF_INET6"
  shows "(hd g AND 0x0F = 15 \<longrightarrow> ping_recv n buf ((fam, g) # ds) = ReadOutOfBounds)
    \<and> (unat (hd g AND 0x0F) \<le> 14 \<longrightarrow> ping_recv n buf [(fam, g)] \<noteq> ReadOutOfBounds)"
proof -
  have g: "g \<noteq> []" using assms(1) by (auto simp: IP_HDR_def)
  then have hd: "hd (take (min (length g) RECV_BUF) g @ drop (min (length g) RECV_BUF) buf) = hd g"
    by (cases g) (auto simp: RECV_BUF_def)
  have len: "min (length g) RECV_BUF \<noteq> 0" "IP_HDR + ECHO_HDR \<le> min (length g) RECV_BUF"
    using g assms(1) by (simp_all add: RECV_BUF_def IP_HDR_def ECHO_HDR_def)
  have "ping_recv n buf ((fam, g) # ds) = ReadOutOfBounds" if "hd g AND 0x0F = 15"
  proof -
    have "unat (hd g AND 0x0F) * 4 + ECHO_HDR > RECV_BUF"
      using that by (simp add: ECHO_HDR_def RECV_BUF_def)
    with len assms(2) show ?thesis
      by (simp only: ping_recv.simps Let_def prod.case hd if_True if_False simp_thms)
  qed
  moreover have "ping_recv n buf [(fam, g)] \<noteq> ReadOutOfBounds" if "unat (hd g AND 0x0F) \<le> 14"
  proof -
    have "\<not> unat (hd g AND 0x0F) * 4 + ECHO_HDR > RECV_BUF"
      using that by (simp add: ECHO_HDR_def RECV_BUF_def)
    with len assms(2) show ?thesis
      by (simp only: ping_recv.simps Let_def prod.case hd if_True if_False simp_thms) simp
  qed
  ultimately show ?thesis by blast
qed

theorem ping_recv_header_length_witness:
  "ping_recv 1 (replicate 64 0) [(AF_INET, 0x4F # replicate 39 0)] = ReadOutOfBounds"
proof -
  have "IP_HDR + ECHO_HDR \<le> length (0x4F # replicate 39 0 :: u8 list)"
    by (simp add: IP_HDR_def ECHO_HDR_def)
  from ping_recv_header_length [OF this, of AF_INET 1 "replicate 64 0" "[]"] show ?thesis by simp
qed

text \<open>
  \<open>ping_send\<close> reports the opposite of what \<open>lwip_sendto\<close> said: a failing call (-1) gives
  \<open>ERR_OK\<close>, so that the thread waits for a reply to a packet that was not sent, and only a
  result of 0 gives \<open>ERR_VAL\<close>. Plain IPv6 targets and a failed allocation send nothing and
  keep the sequence number.
\<close>

theorem ping_send_result:
  "ping_send chk mapped alloc sendto a n =
     (if (\<exists>w. a = IP6 w \<and> \<not> mapped w) then (ERR_VAL, None, n)
      else if \<not> alloc then (ERR_MEM, None, n)
      else (if sendto (fst (ping_prepare_echo chk 40 n)) a = 0 then ERR_VAL else ERR_OK,
            Some (fst (ping_prepare_echo chk 40 n)), n + 1))
   \<and> fst (ping_send chk mapped True (\<lambda>_ _. - 1) (IP4 w4) n) = ERR_OK
   \<and> fst (ping_send chk mapped True (\<lambda>_ _. 0) (IP4 w4) n) = ERR_VAL"
proof -
  obtain req where "ping_prepare_echo chk 40 n = (req, n + 1)"
    using echo_shape [of chk 40 n] by auto
  moreover have "ECHO_HDR + PING_DATA_SIZE = 40"
    by (simp add: ECHO_HDR_def PING_DATA_SIZE_def)
  ultimately show ?thesis
    by (auto simp: ping_send_def Let_def split: ip_addr.splits)
qed

text \<open>
  The raw receive hook eats a packet exactly if its header can be taken off and it
  carries the identifier and the current sequence number; every packet it does not eat goes
  on to the stack as it came in.
\<close>

theorem raw_ping_recv_restores:
  assumes "\<And>p q. r_remove_header ops p IP_HDR = Some q \<Longrightarrow> r_add_header ops q IP_HDR = p"
    and "\<And>p q. r_remove_header ops p IP_HDR = Some q \<Longrightarrow> ECHO_HDR \<le> length (r_payload ops q)"
  shows "raw_ping_recv ops n p =
    (if IP_HDR + ECHO_HDR \<le> r_tot_len ops p
        \<and> (case r_remove_header ops p IP_HDR of None \<Rightarrow> False
           | Some q \<Rightarrow> take 4 (drop 4 (r_payload ops q)) = store16 PING_ID @ be16 n)
     then Eaten else NotEaten p)"
proof -
  have split4: "take 4 (drop 4 xs) = take 2 (drop 4 xs) @ take 2 (drop 6 xs)" for xs :: "u8 list"
    using take_add [of 2 2 "drop 4 xs"] by simp
  have two: "xs @ ys = zs @ ws \<longleftrightarrow> xs = zs \<and> ys = ws" if "length zs = 2" "length xs = 2"
    for xs ys zs ws :: "u8 list"
    using that by simp
  show ?thesis
  proof (cases "r_remove_header ops p IP_HDR")
    case None
    then show ?thesis by (simp add: raw_ping_recv_def)
  next
    case (Some q)
    have "length (take 2 (drop 4 (r_payload ops q))) = 2" "\<not> length (r_payload ops q) < ECHO_HDR"
      using assms(2) [OF Some] by (simp_all add: ECHO_HDR_def)
    then show ?thesis
      using Some assms(1) [OF Some] split4 [of "r_payload ops q"]
      by (simp add: raw_ping_recv_def Let_def)
  qed
qed

definition list_raw_ops :: "(u8 list \<times> u8 list) raw_ops" where
  "list_raw_ops = \<lparr>r_tot_len = (\<lambda>(h, p). length p), r_payload = snd,
     r_remove_header = (\<lambda>(h, p) k. if k + 8 \<le> length p then Some (h @ take k p, drop k p) else None),
     r_add_header = (\<lambda>(h, p) k. (take (length h - k) h, drop (length h - k) h @ p))\<rparr>"

theorem raw_ping_recv_restores_witness:
  "raw_ping_recv list_raw_ops 1 ([], replicate 28 0) = NotEaten ([], replicate 28 0)
   \<and> raw_ping_recv list_raw_ops 1 ([], replicate 20 0 @ [0, 0, 0, 0, 0xAF, 0xAF, 0, 1]) = Eaten"
proof -
  have 1: "r_remove_header list_raw_ops p IP_HDR = Some q \<Longrightarrow> r_add_header list_raw_ops q IP_HDR = p" for p q
    by (auto simp: list_raw_ops_def split: prod.splits if_splits)
  have 2: "r_remove_header list_raw_ops p IP_HDR = Some q \<Longrightarrow> ECHO_HDR \<le> length (r_payload list_raw_ops q)" for p q
    by (auto simp: list_raw_ops_def ECHO_HDR_def split: prod.splits if_splits)
  have 4: "replicate 4 (0::u8) = [0, 0, 0, 0]" by (simp add: numeral_eq_Suc)
  have "raw_ping_recv list_raw_ops 1 ([], replicate 28 0) = NotEaten ([], replicate 28 0)"
    by (subst raw_ping_recv_restores [OF 1 2])
      (assumption | simp add: 4 list_raw_ops_def IP_HDR_def ECHO_HDR_def PING_ID_def store16_def be16_def)+
  moreover have "raw_ping_recv list_raw_ops 1 ([], replicate 20 0 @ [0, 0, 0, 0, 0xAF, 0xAF, 0, 1]) = Eaten"
    by (subst raw_ping_recv_restores [OF 1 2])
      (assumption | simp add: list_raw_ops_def IP_HDR_def ECHO_HDR_def PING_ID_def store16_def be16_def)+
  ultimately show ?thesis by blast
qed

end
