(* ===== verification/Swrap_Base.thy ===== *)
theory Swrap_Base
  imports C_Lib
begin

text \<open>
  The data of socket_wrapper.c and its configuration from the environment. A \<open>sockaddr\<close> is the
  view of the first bytes of the address union that the code has: the family, the port that
  \<open>sockaddr_in\<close> and \<open>sockaddr_in6\<close> keep at the same place, the four address bytes of the one
  (which are the flow information of the other) and the sixteen of the other. Ports and
  IPv4 addresses are host-order values here; where bytes go on the wire, the network order is
  written out. The locks are not modelled: an operation is one atomic step.
\<close>

section \<open>Addresses\<close>

datatype sa_family = Unspec | Unix | Inet | Inet6 | OtherFamily int
datatype sock_type = Stream | Dgram | OtherType int

record sockaddr =
  sa_fam :: sa_family
  sa_port :: u16
  sa_in :: u32
  sa_in6 :: "u8 list"

record swrap_address =
  sa_socklen :: nat
  sa :: sockaddr

definition zero_sockaddr :: sockaddr where
  "zero_sockaddr = \<lparr>sa_fam = Unspec, sa_port = 0, sa_in = 0, sa_in6 = replicate 16 0\<rparr>"

definition zero_address :: swrap_address where
  "zero_address = \<lparr>sa_socklen = 0, sa = zero_sockaddr\<rparr>"

record socket_info =
  family :: sa_family
  sotype :: sock_type
  protocol :: int
  bound :: bool
  bcast :: bool
  is_server :: bool
  connected :: bool
  defer_connect :: bool
  pktinfo :: int
  tcp_nodelay :: int
  un_addr :: string
  bindname :: swrap_address
  myname :: swrap_address
  peername :: swrap_address
  pck_snd :: u64
  pck_rcv :: u64

definition zero_info :: socket_info where
  "zero_info = \<lparr>family = Unspec, sotype = OtherType 0, protocol = 0, bound = False, bcast = False,
     is_server = False, connected = False, defer_connect = False, pktinfo = 0, tcp_nodelay = 0,
     un_addr = '''', bindname = zero_address, myname = zero_address, peername = zero_address,
     pck_snd = 0, pck_rcv = 0\<rparr>"

text \<open>FD00::5357:5F00\<close>

definition swrap_ipv6 :: "u8 list" where
  "swrap_ipv6 = [0xFD, 0, 0, 0, 0, 0, 0, 0, 0, 0, 0, 0, 0x53, 0x57, 0x5F, 0]"

definition set_port :: "sa_family \<Rightarrow> nat \<Rightarrow> swrap_address \<Rightarrow> swrap_address" where
  "set_port fam prt a = (case fam of
      Inet \<Rightarrow> a\<lparr>sa := (sa a)\<lparr>sa_port := of_nat prt\<rparr>\<rparr>
    | Inet6 \<Rightarrow> a\<lparr>sa := (sa a)\<lparr>sa_port := of_nat prt\<rparr>\<rparr>
    | _ \<Rightarrow> a)"

definition socket_length :: "sa_family \<Rightarrow> nat" where
  "socket_length fam = (case fam of Inet \<Rightarrow> 16 | Inet6 \<Rightarrow> 28 | _ \<Rightarrow> 0)"

section \<open>The environment\<close>

type_synonym env = "string \<Rightarrow> string option"

definition MAX_WRAPPED_INTERFACES :: nat where "MAX_WRAPPED_INTERFACES = 64"
definition SOCKET_WRAPPER_MTU_DEFAULT :: nat where "SOCKET_WRAPPER_MTU_DEFAULT = 1500"
definition SOCKET_WRAPPER_MTU_MIN :: nat where "SOCKET_WRAPPER_MTU_MIN = 512"
definition SOCKET_WRAPPER_MTU_MAX :: nat where "SOCKET_WRAPPER_MTU_MAX = 32768"
definition SOCKET_WRAPPER_MAX_SOCKETS_DEFAULT :: nat where "SOCKET_WRAPPER_MAX_SOCKETS_DEFAULT = 65535"
definition SOCKET_WRAPPER_MAX_SOCKETS_LIMIT :: nat where "SOCKET_WRAPPER_MAX_SOCKETS_LIMIT = 262140"

definition strip_dot :: "string \<Rightarrow> string" where
  "strip_dot s = (if take 2 s = ''./'' then drop 2 s else s)"

definition socket_wrapper_dir :: "env \<Rightarrow> string option" where
  "socket_wrapper_dir getenv = map_option strip_dot (getenv ''SOCKET_WRAPPER_DIR'')"

text \<open>\<open>max_mtu\<close> is the static variable, zero until the first call; the result is its new value.\<close>

definition socket_wrapper_mtu :: "env \<Rightarrow> u32 \<Rightarrow> u32" where
  "socket_wrapper_mtu getenv max_mtu =
     (if max_mtu \<noteq> 0 then max_mtu
      else let max_mtu = of_nat SOCKET_WRAPPER_MTU_DEFAULT in
      case getenv ''SOCKET_WRAPPER_MTU'' of
        None \<Rightarrow> max_mtu
      | Some s \<Rightarrow>
          (case strtol s of
             None \<Rightarrow> max_mtu
           | Some n \<Rightarrow>
               let tmp = word_of_int n :: u32
               in if tmp < of_nat SOCKET_WRAPPER_MTU_MIN \<or> tmp > of_nat SOCKET_WRAPPER_MTU_MAX
                  then max_mtu else tmp))"

definition socket_wrapper_max_sockets :: "env \<Rightarrow> nat \<Rightarrow> nat" where
  "socket_wrapper_max_sockets getenv socket_info_max =
     (if socket_info_max \<noteq> 0 then socket_info_max
      else let socket_info_max = SOCKET_WRAPPER_MAX_SOCKETS_DEFAULT in
      case getenv ''SOCKET_WRAPPER_MAX_SOCKETS'' of
        None \<Rightarrow> socket_info_max
      | Some s \<Rightarrow>
          if s = '''' then socket_info_max
          else (case strtoul s of
             None \<Rightarrow> socket_info_max
           | Some tmp \<Rightarrow>
               let tmp = (if tmp = 0 then SOCKET_WRAPPER_MAX_SOCKETS_DEFAULT else tmp)
               in if tmp > SOCKET_WRAPPER_MAX_SOCKETS_LIMIT then SOCKET_WRAPPER_MAX_SOCKETS_LIMIT else tmp))"

text \<open>\<open>sscanf\<close> with \<open>%u\<close> converts as \<open>strtoul\<close> does and keeps 32 bits.\<close>

definition socket_wrapper_default_iface :: "env \<Rightarrow> nat" where
  "socket_wrapper_default_iface getenv =
     (case getenv ''SOCKET_WRAPPER_DEFAULT_IFACE'' of
        None \<Rightarrow> 1
      | Some s \<Rightarrow>
          (case strtoul s of
             None \<Rightarrow> 1
           | Some n \<Rightarrow>
               let iface = n mod 2 ^ 32
               in if 1 \<le> iface \<and> iface \<le> MAX_WRAPPED_INTERFACES then iface else 1))"

lemma default_iface_range:
  "1 \<le> socket_wrapper_default_iface getenv" "socket_wrapper_default_iface getenv \<le> MAX_WRAPPED_INTERFACES"
  by (auto simp: socket_wrapper_default_iface_def MAX_WRAPPED_INTERFACES_def Let_def split: option.splits)

lemma mtu_range:
  assumes "m = 0 \<or> of_nat SOCKET_WRAPPER_MTU_MIN \<le> m \<and> m \<le> of_nat SOCKET_WRAPPER_MTU_MAX"
  shows "of_nat SOCKET_WRAPPER_MTU_MIN \<le> socket_wrapper_mtu getenv m"
    "socket_wrapper_mtu getenv m \<le> of_nat SOCKET_WRAPPER_MTU_MAX"
  using assms by (auto simp: socket_wrapper_mtu_def Let_def SOCKET_WRAPPER_MTU_DEFAULT_def
      SOCKET_WRAPPER_MTU_MIN_def SOCKET_WRAPPER_MTU_MAX_def not_less split: option.splits)

lemma max_sockets_range:
  "0 < socket_wrapper_max_sockets getenv 0"
  "socket_wrapper_max_sockets getenv 0 \<le> SOCKET_WRAPPER_MAX_SOCKETS_LIMIT"
  by (auto simp: socket_wrapper_max_sockets_def Let_def SOCKET_WRAPPER_MAX_SOCKETS_DEFAULT_def
      SOCKET_WRAPPER_MAX_SOCKETS_LIMIT_def split: option.splits)

end
