(* ===== verification/Swrap_Pcap.thy ===== *)
theory Swrap_Pcap
  imports Swrap_Base Lwip
begin

text \<open>
  Packet capture in socket_wrapper.c: for every socket event a synthetic IP packet with its
  pcap record header is built and appended to the capture file. Headers that the code fills in
  structure by structure are the byte lists of those structures, one behind the other: the
  record header is in host order (low byte first), the packet in network order. The sequence
  and acknowledgement numbers come from two counters of the socket.
\<close>

section \<open>Byte orders\<close>

definition le16 :: "u16 \<Rightarrow> u8 list" where
  "le16 w = [ucast w, ucast (drop_bit 8 w)]"

definition le32 :: "u32 \<Rightarrow> u8 list" where
  "le32 w = [ucast w, ucast (drop_bit 8 w), ucast (drop_bit 16 w), ucast (drop_bit 24 w)]"

definition be32 :: "u32 \<Rightarrow> u8 list" where
  "be32 w = [ucast (drop_bit 24 w), ucast (drop_bit 16 w), ucast (drop_bit 8 w), ucast w]"

definition of_le32 :: "u8 list \<Rightarrow> u32" where
  "of_le32 bs = (case bs of
      [a, b, c, d] \<Rightarrow> ucast a OR push_bit 8 (ucast b) OR push_bit 16 (ucast c) OR push_bit 24 (ucast d)
    | _ \<Rightarrow> 0)"

definition of_be32 :: "u8 list \<Rightarrow> u32" where
  "of_be32 bs = of_le32 (rev bs)"

lemma length_le16 [simp]: "length (le16 w) = 2"
  by (simp add: le16_def)

lemma length_le32 [simp]: "length (le32 w) = 4"
  by (simp add: le32_def)

lemma length_be32 [simp]: "length (be32 w) = 4"
  by (simp add: be32_def)

lemma of_le32_le32 [simp]: "of_le32 (le32 w) = w"
proof (rule bit_word_eqI)
  fix n
  assume n: "n < LENGTH(32)"
  have b: "bit (of_le32 (le32 w)) n = (n < 8 \<and> bit w n \<or> 8 \<le> n \<and> n - 8 < 8 \<and> bit w n
    \<or> 16 \<le> n \<and> n - 16 < 8 \<and> bit w n \<or> 24 \<le> n \<and> n - 24 < 8 \<and> bit w n)"
    using n unfolding le32_def of_le32_def list.case
    by (simp only: bit_or_iff bit_push_bit_iff bit_ucast_iff bit_drop_bit_eq o_def bit_word.rep_eq [symmetric])
      (simp add: conj_commute cong: conj_cong, auto)
  show "bit (of_le32 (le32 w)) n = bit w n"
    unfolding b using n by auto
qed

lemma of_be32_be32 [simp]: "of_be32 (be32 w) = w"
proof -
  have "rev (be32 w) = le32 w" by (simp add: le32_def be32_def)
  then show ?thesis by (simp add: of_be32_def)
qed

section \<open>Building a packet\<close>

definition SWRAP_PACKET_FRAME_SIZE :: nat where "SWRAP_PACKET_FRAME_SIZE = 16"
definition SWRAP_PACKET_IP_V4_SIZE :: nat where "SWRAP_PACKET_IP_V4_SIZE = 20"
definition SWRAP_PACKET_IP_V6_SIZE :: nat where "SWRAP_PACKET_IP_V6_SIZE = 40"
definition SWRAP_PACKET_PAYLOAD_TCP_SIZE :: nat where "SWRAP_PACKET_PAYLOAD_TCP_SIZE = 20"
definition SWRAP_PACKET_PAYLOAD_UDP_SIZE :: nat where "SWRAP_PACKET_PAYLOAD_UDP_SIZE = 8"
definition SWRAP_PACKET_PAYLOAD_ICMP_SIZE :: nat where "SWRAP_PACKET_PAYLOAD_ICMP_SIZE = 8"
definition SWRAP_PACKET_MIN_ALLOC :: nat where "SWRAP_PACKET_MIN_ALLOC = 76"
definition SWRAP_FRAME_LENGTH_MAX :: nat where "SWRAP_FRAME_LENGTH_MAX = 0xFFFF"

text \<open>The lengths computed first: of the packet on the wire, of the ICMP header with the quoted IP
  header, and of what is cut off; and the two protocol numbers.\<close>

record pcap_lens =
  wire_len :: nat
  icmp_hdr_len :: nat
  icmp_truncate_len :: nat
  proto :: u8
  icmp_proto :: u8

definition pcap_lengths :: "sa_family \<Rightarrow> sock_type \<Rightarrow> nat \<Rightarrow> bool \<Rightarrow> pcap_lens option" where
  "pcap_lengths fam socket_type payload_len unreachable =
     (case (case fam of Inet \<Rightarrow> Some SWRAP_PACKET_IP_V4_SIZE | Inet6 \<Rightarrow> Some SWRAP_PACKET_IP_V6_SIZE
            | _ \<Rightarrow> None) of None \<Rightarrow> None | Some ip_hdr_len \<Rightarrow>
     (case (case socket_type of
              Stream \<Rightarrow> Some (0x06, ip_hdr_len + SWRAP_PACKET_PAYLOAD_TCP_SIZE)
            | Dgram \<Rightarrow> Some (0x11, ip_hdr_len + SWRAP_PACKET_PAYLOAD_UDP_SIZE)
            | _ \<Rightarrow> None) of None \<Rightarrow> None | Some (prot, wire_hdr_len) \<Rightarrow>
      let wire_len = wire_hdr_len + payload_len in
      Some (if unreachable then
              let icmp_hdr_len = ip_hdr_len + SWRAP_PACKET_PAYLOAD_ICMP_SIZE
              in \<lparr>wire_len = wire_len + icmp_hdr_len, icmp_hdr_len = icmp_hdr_len,
                  icmp_truncate_len = (if wire_len > 64 then wire_len - 64 else 0),
                  proto = (if fam = Inet then 0x01 else 0x3A), icmp_proto = prot\<rparr>
            else \<lparr>wire_len = wire_len, icmp_hdr_len = 0, icmp_truncate_len = 0,
                  proto = prot, icmp_proto = 0\<rparr>)))"

definition pcap_frame :: "nat \<times> nat \<Rightarrow> nat \<Rightarrow> u8 list" where
  "pcap_frame tval len =
     le32 (of_nat (fst tval)) @ le32 (of_nat (snd tval)) @ le32 (of_nat len) @ le32 (of_nat len)"

text \<open>The hop limit of the IPv6 header is never written and stays zero.\<close>

definition pcap_ip_header :: "sockaddr \<Rightarrow> sockaddr \<Rightarrow> nat \<Rightarrow> u8 \<Rightarrow> u8 list" where
  "pcap_ip_header src dest len prot =
     (if sa_fam src = Inet then
        [0x45, 0x00] @ be16 (of_nat len) @ be16 0xFFFF @ [0x40, 0, 0xFF, prot] @ be16 0
          @ be32 (sa_in src) @ be32 (sa_in dest)
      else
        [0x60, 0x00, 0, 0] @ be16 (of_nat len) @ [prot, 0] @ sa_in6 src @ sa_in6 dest)"

text \<open>The ICMP header with the header of the packet it answers, whose source and destination are
  swapped. For IPv6 the quoted header gets the protocol number of ICMPv6, not \<open>icmp_proto\<close>.\<close>

definition pcap_icmp :: "pcap_lens \<Rightarrow> sockaddr \<Rightarrow> sockaddr \<Rightarrow> u8 list" where
  "pcap_icmp l src dest =
     (if sa_fam src = Inet then
        [0x03, 0x01] @ be16 0 @ be32 0
          @ pcap_ip_header (dest\<lparr>sa_fam := Inet\<rparr>) src (wire_len l - icmp_hdr_len l) (icmp_proto l)
      else
        [0x01, 0x03] @ be16 0 @ be32 0
          @ pcap_ip_header (dest\<lparr>sa_fam := Inet6\<rparr>) src (wire_len l - icmp_truncate_len l) (proto l))"

definition pcap_payload_header ::
  "sock_type \<Rightarrow> u16 \<Rightarrow> u16 \<Rightarrow> u64 \<Rightarrow> u64 \<Rightarrow> u8 \<Rightarrow> nat \<Rightarrow> u8 list" where
  "pcap_payload_header socket_type src_port dest_port tcp_seqno tcp_ack tcp_ctl payload_len =
     (case socket_type of
        Stream \<Rightarrow> be16 src_port @ be16 dest_port @ be32 (ucast tcp_seqno) @ be32 (ucast tcp_ack)
                    @ [0x50, tcp_ctl] @ be16 0x7FFF @ be16 0 @ be16 0
      | Dgram \<Rightarrow> be16 src_port @ be16 dest_port @ be16 (of_nat (8 + payload_len)) @ be16 0
      | _ \<Rightarrow> [])"

text \<open>
  The buffer is zeroed and at least \<open>SWRAP_PACKET_MIN_ALLOC\<close> bytes long; a missing payload
  leaves zeros. The result is the part of the buffer that is written to the file.
\<close>

definition swrap_pcap_packet_init ::
  "bool \<Rightarrow> nat \<times> nat \<Rightarrow> sockaddr \<Rightarrow> sockaddr \<Rightarrow> sock_type \<Rightarrow> u8 list option \<Rightarrow> nat
     \<Rightarrow> u64 \<Rightarrow> u64 \<Rightarrow> u8 \<Rightarrow> bool \<Rightarrow> u8 list option" where
  "swrap_pcap_packet_init alloc tval src dest socket_type payload payload_len tcp_seqno tcp_ack tcp_ctl
     unreachable =
     (case pcap_lengths (sa_fam src) socket_type payload_len unreachable of
        None \<Rightarrow> None
      | Some l \<Rightarrow>
          if \<not> alloc then None
          else
          let packet_len = SWRAP_PACKET_FRAME_SIZE + wire_len l;
              alloc_len = (if packet_len < SWRAP_PACKET_MIN_ALLOC then SWRAP_PACKET_MIN_ALLOC else packet_len);
              src_port = (if unreachable then sa_port dest else sa_port src);
              dest_port = (if unreachable then sa_port src else sa_port dest);
              hdrs = pcap_frame tval (wire_len l - icmp_truncate_len l)
                   @ pcap_ip_header src dest (wire_len l - icmp_truncate_len l) (proto l)
                   @ (if unreachable then pcap_icmp l src dest else [])
                   @ pcap_payload_header socket_type src_port dest_port tcp_seqno tcp_ack tcp_ctl payload_len;
              data = (case payload of None \<Rightarrow> [] | Some p \<Rightarrow> take payload_len p);
              base = hdrs @ data @ replicate (alloc_len - length (hdrs @ data)) 0
          in Some (take (packet_len - icmp_truncate_len l) base))"

section \<open>The packet of an event\<close>

datatype packet_type =
    SWRAP_CONNECT_SEND | SWRAP_CONNECT_UNREACH | SWRAP_CONNECT_RECV | SWRAP_CONNECT_ACK
  | SWRAP_ACCEPT_SEND | SWRAP_ACCEPT_RECV | SWRAP_ACCEPT_ACK
  | SWRAP_RECVFROM | SWRAP_SENDTO | SWRAP_SENDTO_UNREACH
  | SWRAP_PENDING_RST | SWRAP_RECV | SWRAP_RECV_RST | SWRAP_SEND | SWRAP_SEND_RST
  | SWRAP_CLOSE_SEND | SWRAP_CLOSE_RECV | SWRAP_CLOSE_ACK

text \<open>What the switch decides: who sends to whom, the TCP fields, and whether an ICMP error is
  shown; \<open>None\<close> where the code returns no packet.\<close>

record segment =
  g_src :: sockaddr
  g_dest :: sockaddr
  g_seq :: u64
  g_ack :: u64
  g_ctl :: u8
  g_unreach :: bool

definition outgoing :: "socket_info \<Rightarrow> sockaddr \<Rightarrow> u8 \<Rightarrow> segment" where
  "outgoing si peer ctl = \<lparr>g_src = sa (myname si), g_dest = peer, g_seq = pck_snd si, g_ack = pck_rcv si,
     g_ctl = ctl, g_unreach = False\<rparr>"

definition incoming :: "socket_info \<Rightarrow> sockaddr \<Rightarrow> u8 \<Rightarrow> segment" where
  "incoming si peer ctl = \<lparr>g_src = peer, g_dest = sa (myname si), g_seq = pck_rcv si, g_ack = pck_snd si,
     g_ctl = ctl, g_unreach = False\<rparr>"

definition untimed :: "sockaddr \<Rightarrow> sockaddr \<Rightarrow> bool \<Rightarrow> segment" where
  "untimed src dest unreach = \<lparr>g_src = src, g_dest = dest, g_seq = 0, g_ack = 0, g_ctl = 0, g_unreach = unreach\<rparr>"

definition pcap_handshake :: "socket_info \<Rightarrow> sockaddr \<Rightarrow> packet_type \<Rightarrow> (segment \<times> socket_info) option" where
  "pcap_handshake si addr t =
     (if sotype si \<noteq> Stream then None
      else case t of
        SWRAP_CONNECT_SEND \<Rightarrow> Some (outgoing si addr 0x02, si\<lparr>pck_snd := pck_snd si + 1\<rparr>)
      | SWRAP_CONNECT_RECV \<Rightarrow> Some (incoming si addr 0x12, si\<lparr>pck_rcv := pck_rcv si + 1\<rparr>)
      | SWRAP_CONNECT_UNREACH \<Rightarrow>
          Some (\<lparr>g_src = addr, g_dest = sa (myname si), g_seq = pck_snd si - 1, g_ack = pck_rcv si,
                 g_ctl = 0x02, g_unreach = True\<rparr>, si)
      | SWRAP_CONNECT_ACK \<Rightarrow> Some (outgoing si addr 0x10, si)
      | SWRAP_ACCEPT_SEND \<Rightarrow> Some (incoming si addr 0x02, si\<lparr>pck_rcv := pck_rcv si + 1\<rparr>)
      | SWRAP_ACCEPT_RECV \<Rightarrow> Some (outgoing si addr 0x12, si\<lparr>pck_snd := pck_snd si + 1\<rparr>)
      | SWRAP_ACCEPT_ACK \<Rightarrow> Some (incoming si addr 0x10, si)
      | _ \<Rightarrow> None)"

definition pcap_data :: "socket_info \<Rightarrow> sockaddr \<Rightarrow> packet_type \<Rightarrow> nat \<Rightarrow> (segment \<times> socket_info) option" where
  "pcap_data si addr t len = (case t of
        SWRAP_SEND \<Rightarrow> Some (outgoing si (sa (peername si)) 0x18, si\<lparr>pck_snd := pck_snd si + of_nat len\<rparr>)
      | SWRAP_SEND_RST \<Rightarrow>
          if sotype si = Dgram then Some (untimed (sa (peername si)) (sa (myname si)) True, si)
          else Some (incoming si (sa (peername si)) 0x14, si)
      | SWRAP_PENDING_RST \<Rightarrow>
          if sotype si = Dgram then None else Some (incoming si (sa (peername si)) 0x14, si)
      | SWRAP_RECV \<Rightarrow> Some (incoming si (sa (peername si)) 0x18, si\<lparr>pck_rcv := pck_rcv si + of_nat len\<rparr>)
      | SWRAP_RECV_RST \<Rightarrow>
          if sotype si = Dgram then None else Some (incoming si (sa (peername si)) 0x14, si)
      | SWRAP_SENDTO \<Rightarrow> Some (untimed (sa (myname si)) addr False, si\<lparr>pck_snd := pck_snd si + of_nat len\<rparr>)
      | SWRAP_SENDTO_UNREACH \<Rightarrow> Some (untimed addr (sa (myname si)) True, si)
      | SWRAP_RECVFROM \<Rightarrow> Some (untimed addr (sa (myname si)) False, si\<lparr>pck_rcv := pck_rcv si + of_nat len\<rparr>)
      | _ \<Rightarrow> None)"

definition pcap_close :: "socket_info \<Rightarrow> packet_type \<Rightarrow> (segment \<times> socket_info) option" where
  "pcap_close si t =
     (if sotype si \<noteq> Stream then None
      else case t of
        SWRAP_CLOSE_SEND \<Rightarrow> Some (outgoing si (sa (peername si)) 0x11, si\<lparr>pck_snd := pck_snd si + 1\<rparr>)
      | SWRAP_CLOSE_RECV \<Rightarrow> Some (incoming si (sa (peername si)) 0x11, si\<lparr>pck_rcv := pck_rcv si + 1\<rparr>)
      | SWRAP_CLOSE_ACK \<Rightarrow> Some (outgoing si (sa (peername si)) 0x10, si)
      | _ \<Rightarrow> None)"

definition handshake_types :: "packet_type list" where
  "handshake_types = [SWRAP_CONNECT_SEND, SWRAP_CONNECT_UNREACH, SWRAP_CONNECT_RECV, SWRAP_CONNECT_ACK,
     SWRAP_ACCEPT_SEND, SWRAP_ACCEPT_RECV, SWRAP_ACCEPT_ACK]"

definition close_types :: "packet_type list" where
  "close_types = [SWRAP_CLOSE_SEND, SWRAP_CLOSE_RECV, SWRAP_CLOSE_ACK]"

definition swrap_pcap_marshall_packet ::
  "bool \<Rightarrow> nat \<times> nat \<Rightarrow> socket_info \<Rightarrow> sockaddr \<Rightarrow> packet_type \<Rightarrow> u8 list option \<Rightarrow> nat
     \<Rightarrow> u8 list option \<times> socket_info" where
  "swrap_pcap_marshall_packet alloc tv si addr t buf len =
     (if family si \<noteq> Inet \<and> family si \<noteq> Inet6 then (None, si)
      else case (if t \<in> set handshake_types then pcap_handshake si addr t
                 else if t \<in> set close_types then pcap_close si t
                 else pcap_data si addr t len) of
        None \<Rightarrow> (None, si)
      | Some (g, si) \<Rightarrow>
          (swrap_pcap_packet_init alloc tv (g_src g) (g_dest g) (sotype si) buf len
             (g_seq g) (g_ack g) (g_ctl g) (g_unreach g), si))"

section \<open>The capture file\<close>

definition swrap_pcap_init_file :: "env \<Rightarrow> string option" where
  "swrap_pcap_init_file getenv = map_option strip_dot (getenv ''SOCKET_WRAPPER_PCAP_FILE'')"

text \<open>The static descriptor (-1 before the first success) and the bytes written to the file.\<close>

record pcap_state =
  pc_fd :: int
  pc_bytes :: "u8 list"

text \<open>What the calls return: opening a new file, opening an existing one, how many bytes of the file
  header and of the packet are written, and for the packet an allocation and the time.\<close>

record pcap_os =
  o_open_new :: int
  o_open_old :: int
  o_header_written :: nat
  o_written :: nat
  o_alloc :: bool
  o_now :: "nat \<times> nat"

definition file_header :: "u8 list" where
  "file_header = le32 0xA1B2C3D4 @ le16 2 @ le16 4 @ le32 0 @ le32 0
     @ le32 (of_nat SWRAP_FRAME_LENGTH_MAX) @ le32 0x65"

definition swrap_pcap_get_fd :: "pcap_os \<Rightarrow> pcap_state \<Rightarrow> pcap_state" where
  "swrap_pcap_get_fd os pc =
     (if pc_fd pc \<noteq> - 1 then pc
      else if o_open_new os \<noteq> - 1 then
        \<lparr>pc_fd = (if o_header_written os \<noteq> length file_header then - 1 else o_open_new os),
         pc_bytes = pc_bytes pc @ take (o_header_written os) file_header\<rparr>
      else pc\<lparr>pc_fd := o_open_old os\<rparr>)"

definition swrap_pcap_dump_packet ::
  "env \<Rightarrow> pcap_os \<Rightarrow> sockaddr \<Rightarrow> packet_type \<Rightarrow> u8 list option \<Rightarrow> nat \<Rightarrow> socket_info \<times> pcap_state
     \<Rightarrow> socket_info \<times> pcap_state" where
  "swrap_pcap_dump_packet getenv os addr t buf len st = (case st of (si, pc) \<Rightarrow>
     (case swrap_pcap_init_file getenv of
        None \<Rightarrow> (si, pc)
      | Some _ \<Rightarrow>
          (case swrap_pcap_marshall_packet (o_alloc os) (o_now os) si addr t buf len of
             (None, si) \<Rightarrow> (si, pc)
           | (Some packet, si) \<Rightarrow>
               let pc = swrap_pcap_get_fd os pc
               in if pc_fd pc \<noteq> - 1
                  then (si, pc\<lparr>pc_bytes := pc_bytes pc @ take (o_written os) packet\<rparr>)
                  else (si, pc))))"

section \<open>Lengths\<close>

lemma pcap_lengths_wire:
  assumes "pcap_lengths fam st n un = Some l"
  shows "wire_len l = (if fam = Inet then 20 else 40) + (if st = Stream then 20 else 8) + n + icmp_hdr_len l"
    and "icmp_hdr_len l = (if un then (if fam = Inet then 28 else 48) else 0)"
    and "icmp_truncate_len l \<le> wire_len l" and "fam = Inet \<or> fam = Inet6" and "st = Stream \<or> st = Dgram"
    and "proto l = (if un then if fam = Inet then 1 else 0x3A else if st = Stream then 6 else 0x11)"
    and "un \<Longrightarrow> icmp_proto l = (if st = Stream then 6 else 0x11)"
  using assms
  by (auto simp: pcap_lengths_def Let_def SWRAP_PACKET_IP_V4_SIZE_def SWRAP_PACKET_IP_V6_SIZE_def
      SWRAP_PACKET_PAYLOAD_TCP_SIZE_def SWRAP_PACKET_PAYLOAD_UDP_SIZE_def SWRAP_PACKET_PAYLOAD_ICMP_SIZE_def
      split: option.splits sa_family.splits sock_type.splits if_splits)

definition addr_ok :: "sockaddr \<Rightarrow> bool" where
  "addr_ok a \<longleftrightarrow> length (sa_in6 a) = 16"

lemma length_ip_header:
  "addr_ok src \<Longrightarrow> addr_ok dest \<Longrightarrow>
   length (pcap_ip_header src dest len p) = (if sa_fam src = Inet then 20 else 40)"
  by (simp add: pcap_ip_header_def addr_ok_def)

lemma length_icmp:
  "addr_ok src \<Longrightarrow> addr_ok dest \<Longrightarrow>
   length (pcap_icmp l src dest) = (if sa_fam src = Inet then 28 else 48)"
  by (simp add: pcap_icmp_def length_ip_header addr_ok_def)

lemma length_payload_header:
  "st = Stream \<or> st = Dgram \<Longrightarrow> length (pcap_payload_header st sp dp sq ak ctl n) = (if st = Stream then 20 else 8)"
  by (auto simp: pcap_payload_header_def)

lemma length_frame [simp]: "length (pcap_frame tv n) = 16"
  by (simp add: pcap_frame_def)

text \<open>The IP packet in front of the payload.\<close>

definition wire_headers ::
  "pcap_lens \<Rightarrow> sockaddr \<Rightarrow> sockaddr \<Rightarrow> sock_type \<Rightarrow> nat \<Rightarrow> u64 \<Rightarrow> u64 \<Rightarrow> u8 \<Rightarrow> bool \<Rightarrow> u8 list" where
  "wire_headers l src dest st n sq ak ctl un =
     pcap_ip_header src dest (wire_len l - icmp_truncate_len l) (proto l)
     @ (if un then pcap_icmp l src dest else [])
     @ pcap_payload_header st (if un then sa_port dest else sa_port src)
         (if un then sa_port src else sa_port dest) sq ak ctl n"

lemma length_wire_headers:
  assumes "pcap_lengths (sa_fam src) st n un = Some l" and "addr_ok src" "addr_ok dest"
  shows "length (wire_headers l src dest st n sq ak ctl un) = wire_len l - n"
  using pcap_lengths_wire [OF assms(1)] assms(2,3)
  by (simp add: wire_headers_def length_ip_header length_icmp length_payload_header)

lemma packet_init_eq:
  assumes "swrap_pcap_packet_init alloc tv src dest st payload n sq ak ctl un = Some p"
  obtains l pad where "pcap_lengths (sa_fam src) st n un = Some l" "pad = max 76 (16 + wire_len l)"
    "p = take (16 + wire_len l - icmp_truncate_len l)
       ((pcap_frame tv (wire_len l - icmp_truncate_len l)
        @ wire_headers l src dest st n sq ak ctl un)
        @ (case payload of None \<Rightarrow> [] | Some d \<Rightarrow> take n d)
        @ replicate (pad - length ((pcap_frame tv (wire_len l - icmp_truncate_len l)
        @ wire_headers l src dest st n sq ak ctl un) @ (case payload of None \<Rightarrow> [] | Some d \<Rightarrow> take n d))) 0)"
proof -
  obtain l where l: "pcap_lengths (sa_fam src) st n un = Some l"
    using assms(1) by (auto simp: swrap_pcap_packet_init_def split: option.splits)
  have al: alloc
    using assms l by (auto simp: swrap_pcap_packet_init_def split: if_splits)
  have m: "(if SWRAP_PACKET_FRAME_SIZE + wire_len l < SWRAP_PACKET_MIN_ALLOC then SWRAP_PACKET_MIN_ALLOC
       else SWRAP_PACKET_FRAME_SIZE + wire_len l) = max 76 (16 + wire_len l)"
    by (auto simp: SWRAP_PACKET_FRAME_SIZE_def SWRAP_PACKET_MIN_ALLOC_def max_def)
  have h: "pcap_frame tv (wire_len l - icmp_truncate_len l)
        @ wire_headers l src dest st n sq ak ctl un
      = pcap_frame tv (wire_len l - icmp_truncate_len l)
        @ pcap_ip_header src dest (wire_len l - icmp_truncate_len l) (proto l)
        @ (if un then pcap_icmp l src dest else [])
        @ pcap_payload_header st (if un then sa_port dest else sa_port src)
            (if un then sa_port src else sa_port dest) sq ak ctl n"
    by (simp add: wire_headers_def)
  show thesis
  proof (rule that [OF l refl])
    show "p = take (16 + wire_len l - icmp_truncate_len l)
       ((pcap_frame tv (wire_len l - icmp_truncate_len l)
        @ wire_headers l src dest st n sq ak ctl un)
        @ (case payload of None \<Rightarrow> [] | Some d \<Rightarrow> take n d)
        @ replicate (max 76 (16 + wire_len l) - length ((pcap_frame tv (wire_len l - icmp_truncate_len l)
        @ wire_headers l src dest st n sq ak ctl un) @ (case payload of None \<Rightarrow> [] | Some d \<Rightarrow> take n d))) 0)"
      unfolding h using assms unfolding swrap_pcap_packet_init_def l Let_def option.case m
      by (simp only: al not_True_eq_False if_False option.inject SWRAP_PACKET_FRAME_SIZE_def)
  qed
qed

text \<open>The packet in two parts: the record header, and exactly as many bytes as it announces.\<close>

lemma packet_split:
  assumes "swrap_pcap_packet_init alloc tv src dest st payload n sq ak ctl un = Some p"
    and ok: "addr_ok src" "addr_ok dest"
  obtains l where "pcap_lengths (sa_fam src) st n un = Some l"
    "take 16 p = pcap_frame tv (wire_len l - icmp_truncate_len l)"
    "length p = 16 + (wire_len l - icmp_truncate_len l)"
    "\<And>d. payload = Some d \<Longrightarrow> length d = n \<Longrightarrow>
       drop 16 p = take (wire_len l - icmp_truncate_len l) (wire_headers l src dest st n sq ak ctl un @ d)"
proof (rule packet_init_eq [OF assms(1)])
  fix l pad
  let ?h = "wire_headers l src dest st n sq ak ctl un"
  let ?f = "pcap_frame tv (wire_len l - icmp_truncate_len l)"
  let ?d = "case payload of None \<Rightarrow> [] | Some d \<Rightarrow> take n d"
  assume l: "pcap_lengths (sa_fam src) st n un = Some l" and pad: "pad = max 76 (16 + wire_len l)"
    and p: "p = take (16 + wire_len l - icmp_truncate_len l)
       ((?f @ ?h) @ ?d @ replicate (pad - length ((?f @ ?h) @ ?d)) 0)"
  note w = pcap_lengths_wire [OF l]
  have h: "length ?h = wire_len l - n"
    by (rule length_wire_headers [OF l ok])
  have n: "n \<le> wire_len l" using w(1) by simp
  have d: "length ?d \<le> n" by (auto split: option.splits)
  have e: "16 + wire_len l - icmp_truncate_len l = 16 + (wire_len l - icmp_truncate_len l)"
    using w(3) by simp
  show thesis
  proof (rule that [OF l])
    show "take 16 p = ?f" unfolding p e by simp
    show "length p = 16 + (wire_len l - icmp_truncate_len l)"
      unfolding p e using h n d by (simp add: pad)
    show "drop 16 p = take (wire_len l - icmp_truncate_len l) (?h @ da)"
      if "payload = Some da" "length da = n" for da
    proof -
      have "length ?h + length da = wire_len l" using h n that(2) by simp
      then show ?thesis
        unfolding p e using that by simp
    qed
  qed
qed

section \<open>Reading the file back\<close>

text \<open>A pcap reader: records are taken off one by one, each as long as its header says.\<close>

function pcap_records :: "u8 list \<Rightarrow> u8 list list option" where
  "pcap_records bs =
     (if bs = [] then Some []
      else let n = 16 + unat (of_le32 (take 4 (drop 8 bs)))
           in if length bs < n then None
              else map_option (\<lambda>ps. take n bs # ps) (pcap_records (drop n bs)))"
  by pat_completeness auto

termination
  by (relation "measure length") (auto simp: Let_def)

declare pcap_records.simps [simp del]

definition pcap_packet :: "u8 list \<Rightarrow> bool" where
  "pcap_packet p \<longleftrightarrow> (\<exists>alloc tv src dest st payload n sq ak ctl un.
     swrap_pcap_packet_init alloc tv src dest st payload n sq ak ctl un = Some p
     \<and> addr_ok src \<and> addr_ok dest \<and> n < 2 ^ 31)"

lemma pcap_packet_length:
  assumes "pcap_packet p"
  shows "length p = 16 + unat (of_le32 (take 4 (drop 8 p)))"
proof -
  obtain alloc tv src dest st payload n sq ak ctl un where
    e: "swrap_pcap_packet_init alloc tv src dest st payload n sq ak ctl un = Some p"
    and ok: "addr_ok src" "addr_ok dest" and n: "n < 2 ^ 31"
    using assms by (auto simp: pcap_packet_def)
  show ?thesis
  proof (rule packet_split [OF e ok])
    fix l
    assume l: "pcap_lengths (sa_fam src) st n un = Some l"
      and f: "take 16 p = pcap_frame tv (wire_len l - icmp_truncate_len l)"
      and len: "length p = 16 + (wire_len l - icmp_truncate_len l)"
    have "wire_len l < 2 ^ 32"
      using pcap_lengths_wire(1,2) [OF l] n by (auto split: if_splits)
    then have small: "wire_len l - icmp_truncate_len l < 2 ^ 32" by simp
    have "take 4 (drop 8 p) = take 4 (drop 8 (take 16 p))"
      by (simp add: drop_take min_def)
    also have "\<dots> = le32 (of_nat (wire_len l - icmp_truncate_len l))"
      by (simp add: f pcap_frame_def)
    finally show ?thesis
      using len small by (simp only: of_le32_le32 unat_of_nat_u32)
  qed
qed

lemma pcap_records_concat: "list_all pcap_packet ps \<Longrightarrow> pcap_records (concat ps) = Some ps"
proof (induction ps)
  case Nil
  then show ?case by (simp add: pcap_records.simps)
next
  case (Cons p ps)
  define k where "k = unat (of_le32 (take 4 (drop 8 p)))"
  have "pcap_packet p" using Cons.prems by simp
  then have len: "length p = 16 + k"
    unfolding k_def by (rule pcap_packet_length)
  have "take 4 (drop 8 (p @ concat ps)) = take 4 (drop 8 p)" using len by simp
  then have k: "unat (of_le32 (take 4 (drop 8 (p @ concat ps)))) = k"
    by (simp only: k_def)
  have "p @ concat ps \<noteq> []" using len by auto
  then show ?case
    using Cons len by (subst pcap_records.simps) (simp add: Let_def k_def [symmetric])
qed

text \<open>Marshalling on a socket yields such packets.\<close>

definition info_ok :: "socket_info \<Rightarrow> bool" where
  "info_ok si \<longleftrightarrow> addr_ok (sa (myname si)) \<and> addr_ok (sa (peername si))"

definition same_ends :: "socket_info \<Rightarrow> sockaddr \<Rightarrow> segment \<Rightarrow> socket_info \<Rightarrow> bool" where
  "same_ends si addr g si' \<longleftrightarrow> g_src g \<in> {addr, sa (myname si), sa (peername si)}
     \<and> g_dest g \<in> {addr, sa (myname si), sa (peername si)} \<and> sotype si' = sotype si
     \<and> myname si' = myname si \<and> peername si' = peername si \<and> family si' = family si
     \<and> un_addr si' = un_addr si"

lemmas segment_defs = outgoing_def incoming_def untimed_def

lemma handshake_ends:
  "case pcap_handshake si addr t of None \<Rightarrow> True | Some gs \<Rightarrow> same_ends si addr (fst gs) (snd gs)"
  by (cases t) (simp_all add: pcap_handshake_def segment_defs same_ends_def)

lemma close_ends:
  "case pcap_close si t of None \<Rightarrow> True | Some gs \<Rightarrow> same_ends si addr (fst gs) (snd gs)"
  by (cases t) (simp_all add: pcap_close_def segment_defs same_ends_def)

lemma data_ends:
  "case pcap_data si addr t n of None \<Rightarrow> True | Some gs \<Rightarrow> same_ends si addr (fst gs) (snd gs)"
  by (cases t) (simp_all add: pcap_data_def segment_defs same_ends_def)

lemma marshall_cases:
  assumes "swrap_pcap_marshall_packet alloc tv si addr t buf n = (r, si')"
  obtains "r = None" "si' = si"
  | g where "same_ends si addr g si'" "r = swrap_pcap_packet_init alloc tv (g_src g) (g_dest g) (sotype si) buf n
      (g_seq g) (g_ack g) (g_ctl g) (g_unreach g)"
proof (cases "if t \<in> set handshake_types then pcap_handshake si addr t
     else if t \<in> set close_types then pcap_close si t else pcap_data si addr t n")
  case None
  then show ?thesis using assms that(1) by (auto simp: swrap_pcap_marshall_packet_def split: if_splits)
next
  case (Some gs)
  obtain g si1 where gs: "gs = (g, si1)" by fastforce
  have e: "same_ends si addr g si1"
    using Some gs handshake_ends [of si addr t] close_ends [where si = si and t = t and addr = addr] data_ends [of si addr t n]
    by (simp split: if_splits)
  show ?thesis
  proof (cases "family si \<noteq> Inet \<and> family si \<noteq> Inet6")
    case True
    then show ?thesis using assms that(1) by (simp add: swrap_pcap_marshall_packet_def)
  next
    case False
    have "swrap_pcap_marshall_packet alloc tv si addr t buf n =
      (swrap_pcap_packet_init alloc tv (g_src g) (g_dest g) (sotype si1) buf n
             (g_seq g) (g_ack g) (g_ctl g) (g_unreach g), si1)"
      unfolding swrap_pcap_marshall_packet_def Some gs using False by auto
    moreover have "sotype si1 = sotype si" using e by (simp add: same_ends_def)
    ultimately show ?thesis using assms e by (intro that(2) [of g]) auto
  qed
qed

lemma marshall_path:
  assumes "swrap_pcap_marshall_packet alloc tv si addr t buf n = (r, si')"
  shows "un_addr si' = un_addr si"
  by (rule marshall_cases [OF assms]) (simp_all add: same_ends_def)

lemma dump_path: "un_addr (fst (swrap_pcap_dump_packet getenv os addr t buf n (si, pc))) = un_addr si"
proof (cases "swrap_pcap_marshall_packet (o_alloc os) (o_now os) si addr t buf n")
  case (Pair p si')
  then show ?thesis
    using marshall_path [OF Pair] by (simp add: swrap_pcap_dump_packet_def Let_def split: option.split)
qed

lemma marshall_packet:
  assumes "swrap_pcap_marshall_packet alloc tv si addr t buf n = (r, si')"
    and "info_ok si" and "addr_ok addr" and "n < 2 ^ 31"
  shows "info_ok si'" "r = Some p \<Longrightarrow> pcap_packet p"
proof -
  show "info_ok si'"
    using assms(1,2) by (rule_tac marshall_cases [OF assms(1)]) (auto simp: info_ok_def same_ends_def)
  show "pcap_packet p" if "r = Some p"
  proof (rule marshall_cases [OF assms(1)])
    fix g
    assume "same_ends si addr g si'" and r: "r = swrap_pcap_packet_init alloc tv (g_src g) (g_dest g) (sotype si) buf n
      (g_seq g) (g_ack g) (g_ctl g) (g_unreach g)"
    then have "addr_ok (g_src g)" "addr_ok (g_dest g)"
      using assms(2,3) by (auto simp: same_ends_def info_ok_def)
    then show ?thesis
      using that assms(4) unfolding r pcap_packet_def by blast
  qed (use that in simp)
qed

section \<open>Capture runs\<close>

text \<open>A sequence of events on sockets, each with what the calls return at that moment. A file is
  written without accidents if it can be created, its header is written in full, and every
  packet is written in full or not at all.\<close>

record pcap_event =
  ev_os :: pcap_os
  ev_si :: socket_info
  ev_addr :: sockaddr
  ev_type :: packet_type
  ev_buf :: "u8 list option"
  ev_len :: nat

definition event_packet :: "pcap_event \<Rightarrow> u8 list option" where
  "event_packet e = fst (swrap_pcap_marshall_packet (o_alloc (ev_os e)) (o_now (ev_os e)) (ev_si e)
     (ev_addr e) (ev_type e) (ev_buf e) (ev_len e))"

definition event_ok :: "pcap_event \<Rightarrow> bool" where
  "event_ok e \<longleftrightarrow> info_ok (ev_si e) \<and> addr_ok (ev_addr e) \<and> ev_len e < 2 ^ 31
     \<and> o_open_new (ev_os e) \<noteq> - 1 \<and> o_header_written (ev_os e) = length file_header
     \<and> (case event_packet e of None \<Rightarrow> True
        | Some p \<Rightarrow> o_written (ev_os e) = 0 \<or> length p \<le> o_written (ev_os e))"

primrec capture :: "env \<Rightarrow> pcap_event list \<Rightarrow> pcap_state \<Rightarrow> pcap_state" where
  "capture getenv [] pc = pc"
| "capture getenv (e # es) pc =
     capture getenv es (snd (swrap_pcap_dump_packet getenv (ev_os e) (ev_addr e) (ev_type e) (ev_buf e)
       (ev_len e) (ev_si e, pc)))"

definition pcap_start :: pcap_state where
  "pcap_start = \<lparr>pc_fd = - 1, pc_bytes = []\<rparr>"

definition file_ok :: "pcap_state \<Rightarrow> bool" where
  "file_ok pc \<longleftrightarrow> (if pc_fd pc = - 1 then pc_bytes pc = []
     else \<exists>ps. list_all pcap_packet ps \<and> pc_bytes pc = file_header @ concat ps)"

lemma dump_keeps_file:
  assumes "event_ok e" and "file_ok pc"
  shows "file_ok (snd (swrap_pcap_dump_packet getenv (ev_os e) (ev_addr e) (ev_type e) (ev_buf e)
       (ev_len e) (ev_si e, pc)))"
proof -
  obtain r si' where m: "swrap_pcap_marshall_packet (o_alloc (ev_os e)) (o_now (ev_os e)) (ev_si e)
     (ev_addr e) (ev_type e) (ev_buf e) (ev_len e) = (r, si')" by fastforce
  show ?thesis
  proof (cases "swrap_pcap_init_file getenv = None \<or> r = None")
    case True
    then show ?thesis using assms(2) m by (auto simp: swrap_pcap_dump_packet_def split: option.split)
  next
    case False
    then obtain f p where f: "swrap_pcap_init_file getenv = Some f" and r: "r = Some p" by auto
    have pp: "pcap_packet p"
      using marshall_packet(2) [OF m _ _ _ r] assms(1) by (simp add: event_ok_def)
    have w: "o_written (ev_os e) = 0 \<or> length p \<le> o_written (ev_os e)"
      using assms(1) m r by (simp add: event_ok_def event_packet_def)
    obtain fd bs where g: "swrap_pcap_get_fd (ev_os e) pc = \<lparr>pc_fd = fd, pc_bytes = bs\<rparr>"
      by (cases "swrap_pcap_get_fd (ev_os e) pc") auto
    have fd: "fd \<noteq> - 1" and bs: "\<exists>ps. list_all pcap_packet ps \<and> bs = file_header @ concat ps"
      using g assms by (auto simp: swrap_pcap_get_fd_def file_ok_def event_ok_def
          intro!: exI [of _ "[]"] split: if_splits)
    obtain ps where ps: "list_all pcap_packet ps" "bs = file_header @ concat ps" using bs by blast
    have "swrap_pcap_dump_packet getenv (ev_os e) (ev_addr e) (ev_type e) (ev_buf e) (ev_len e) (ev_si e, pc)
        = (si', \<lparr>pc_fd = fd, pc_bytes = bs @ take (o_written (ev_os e)) p\<rparr>)"
      using f m r g fd by (simp add: swrap_pcap_dump_packet_def)
    moreover have "\<exists>qs. list_all pcap_packet qs \<and> bs @ take (o_written (ev_os e)) p = file_header @ concat qs"
      using w
    proof
      assume "o_written (ev_os e) = 0"
      then show ?thesis using ps by (intro exI [of _ ps]) simp
    next
      assume "length p \<le> o_written (ev_os e)"
      then show ?thesis using ps pp by (intro exI [of _ "ps @ [p]"]) simp
    qed
    ultimately show ?thesis using fd by (simp add: file_ok_def)
  qed
qed

lemma capture_keeps_file: "list_all event_ok es \<Longrightarrow> file_ok pc \<Longrightarrow> file_ok (capture getenv es pc)"
proof (induction es arbitrary: pc)
  case (Cons e es)
  then show ?case using dump_keeps_file [of e pc getenv] by simp
qed simp

section \<open>Properties\<close>


definition stream4 :: socket_info where
  "stream4 = zero_info\<lparr>family := Inet, sotype := Stream,
     myname := \<lparr>sa_socklen = 16, sa = zero_sockaddr\<lparr>sa_fam := Inet, sa_port := 5001, sa_in := 0x7F000001\<rparr>\<rparr>,
     peername := \<lparr>sa_socklen = 16, sa = zero_sockaddr\<lparr>sa_fam := Inet, sa_port := 80, sa_in := 0x7F000002\<rparr>\<rparr>\<rparr>"

definition os_ok :: pcap_os where
  "os_ok = \<lparr>o_open_new = 5, o_open_old = 5, o_header_written = 24, o_written = 58, o_alloc = True, o_now = (1, 2)\<rparr>"

definition pcap_env :: env where
  "pcap_env = (\<lambda>n. if n = ''SOCKET_WRAPPER_PCAP_FILE'' then Some ''./c.pcap'' else None)"

definition send_event :: pcap_event where
  "send_event = \<lparr>ev_os = os_ok, ev_si = stream4, ev_addr = zero_sockaddr, ev_type = SWRAP_SEND,
     ev_buf = Some [104, 105], ev_len = 2\<rparr>"

lemma stream4_ok: "info_ok stream4"
  by (simp add: info_ok_def stream4_def zero_info_def addr_ok_def zero_sockaddr_def)

lemma zero_addr_ok: "addr_ok zero_sockaddr"
  by (simp add: addr_ok_def zero_sockaddr_def)

lemma stream_segment:
  assumes "family si = Inet" "sotype si = Stream" "sa_fam (sa (myname si)) = Inet" "info_ok si"
    and "length d = n"
  shows "swrap_pcap_marshall_packet True tv si a SWRAP_SEND (Some d) n =
    (Some (pcap_frame tv (40 + n)
       @ [0x45, 0x00] @ be16 (of_nat (40 + n)) @ be16 0xFFFF @ [0x40, 0, 0xFF, 6] @ be16 0
       @ be32 (sa_in (sa (myname si))) @ be32 (sa_in (sa (peername si)))
       @ be16 (sa_port (sa (myname si))) @ be16 (sa_port (sa (peername si)))
       @ be32 (ucast (pck_snd si)) @ be32 (ucast (pck_rcv si))
       @ [0x50, 0x18] @ be16 0x7FFF @ be16 0 @ be16 0 @ d),
     si\<lparr>pck_snd := pck_snd si + of_nat n\<rparr>)"
proof -
  have "SWRAP_SEND \<notin> set handshake_types" "SWRAP_SEND \<notin> set close_types"
    by (simp_all add: handshake_types_def close_types_def)
  then have m: "swrap_pcap_marshall_packet True tv si a SWRAP_SEND (Some d) n =
    (swrap_pcap_packet_init True tv (sa (myname si)) (sa (peername si)) Stream (Some d) n
       (pck_snd si) (pck_rcv si) 0x18 False, si\<lparr>pck_snd := pck_snd si + of_nat n\<rparr>)"
    using assms(1,2) by (simp add: swrap_pcap_marshall_packet_def pcap_data_def outgoing_def)
  have l: "pcap_lengths Inet Stream n False = Some \<lparr>wire_len = 40 + n, icmp_hdr_len = 0,
      icmp_truncate_len = 0, proto = 6, icmp_proto = 0\<rparr>"
    by (simp add: pcap_lengths_def SWRAP_PACKET_IP_V4_SIZE_def SWRAP_PACKET_PAYLOAD_TCP_SIZE_def)
  show ?thesis
    unfolding m using assms(3,5) l
    by (simp add: swrap_pcap_packet_init_def pcap_ip_header_def pcap_payload_header_def
        SWRAP_PACKET_FRAME_SIZE_def SWRAP_PACKET_MIN_ALLOC_def Let_def)
qed

lemma send_event_ok: "event_ok send_event"
proof -
  have "length [104, 105 :: u8] = 2" by simp
  note seg = stream_segment [of stream4 "[104, 105]" 2 "(1, 2)" zero_sockaddr, OF _ _ _ stream4_ok this]
  have "family stream4 = Inet" "sotype stream4 = Stream" "sa_fam (sa (myname stream4)) = Inet"
    by (simp_all add: stream4_def)
  then have "event_packet send_event = Some p \<Longrightarrow> length p = 58" for p
    unfolding event_packet_def send_event_def os_ok_def using seg
    by (auto simp: pcap_frame_def)
  then show ?thesis
    by (auto simp: event_ok_def send_event_def os_ok_def stream4_ok zero_addr_ok file_header_def
        split: option.split)
qed


text \<open>
  A segment sent over an IPv4 stream socket is captured as the TCP/IP packet it stands
  for: both length fields cover headers and data, addresses and ports are those of the socket
  and its peer, the sequence number is the count of bytes sent before and the acknowledgement
  the count received, the payload follows unchanged, and the next segment's sequence number is
  this one's plus its length.
\<close>

theorem send_captured:
  assumes "family si = Inet" "sotype si = Stream" "sa_fam (sa (myname si)) = Inet" "info_ok si"
    and "length d = n" and "n < 2 ^ 16 - 40"
    and "swrap_pcap_marshall_packet True tv si a SWRAP_SEND (Some d) n = (Some p, si')"
  shows "length p = 16 + 40 + n \<and> unat (of_le32 (take 4 (drop 8 p))) = 40 + n
    \<and> unat (of_be16 (take 2 (drop 18 p))) = 40 + n
    \<and> of_be32 (take 4 (drop 28 p)) = sa_in (sa (myname si)) \<and> of_be32 (take 4 (drop 32 p)) = sa_in (sa (peername si))
    \<and> of_be16 (take 2 (drop 36 p)) = sa_port (sa (myname si)) \<and> of_be16 (take 2 (drop 38 p)) = sa_port (sa (peername si))
    \<and> of_be32 (take 4 (drop 40 p)) = ucast (pck_snd si) \<and> of_be32 (take 4 (drop 44 p)) = ucast (pck_rcv si)
    \<and> drop 56 p = d \<and> pck_snd si' = pck_snd si + of_nat n \<and> pck_rcv si' = pck_rcv si"
proof -
  note seg = assms(7) [unfolded stream_segment [OF assms(1-5)]]
  have "unat (of_nat (40 + n) :: u32) = 40 + n" "unat (of_nat (40 + n) :: u16) = 40 + n"
    using assms(6) by (simp_all only: unat_of_nat) simp_all
  then show ?thesis
    using seg assms(5) by (auto simp: pcap_frame_def simp del: of_nat_add)
qed

theorem send_captured_witness:
  "\<exists>p si'. swrap_pcap_marshall_packet True (1, 2) stream4 zero_sockaddr SWRAP_SEND (Some [104, 105]) 2 = (Some p, si')
     \<and> drop 56 p = [104, 105] \<and> unat (of_le32 (take 4 (drop 8 p))) = 42 \<and> pck_snd si' = 2"
proof -
  have f: "family stream4 = Inet" "sotype stream4 = Stream" "sa_fam (sa (myname stream4)) = Inet"
    by (simp_all add: stream4_def)
  have n: "length [104, 105 :: u8] = 2" "(2::nat) < 2 ^ 16 - 40" by simp_all
  obtain p si' where e: "swrap_pcap_marshall_packet True (1, 2) stream4 zero_sockaddr SWRAP_SEND (Some [104, 105]) 2
      = (Some p, si')"
    using stream_segment [OF f stream4_ok n(1), of "(1, 2)" zero_sockaddr] by blast
  have "pck_snd stream4 = 0" by (simp add: stream4_def zero_info_def)
  with send_captured [OF f stream4_ok n e] e show ?thesis by simp
qed

text \<open>
  ICMP errors quote the packet they answer; the quoted header of an IPv4 error carries the
  protocol of the socket (TCP or UDP), but that of an IPv6 error carries 0x3A, the protocol of
  the error itself, although the quoted packet is TCP or UDP as well.
\<close>

theorem icmp_quoted_protocol:
  assumes "sa_fam src = Inet \<or> sa_fam src = Inet6" "st = Stream \<or> st = Dgram"
    and "addr_ok src" "addr_ok dest" "length d = n"
    and "swrap_pcap_packet_init True tv src dest st (Some d) n sq ak ctl True = Some p"
  shows "(if sa_fam src = Inet then p ! 53 = (if st = Stream then 0x06 else 0x11)
     else p ! 70 = 0x3A \<and> p ! 22 = 0x3A)"
proof (rule packet_split [OF assms(6,3,4)])
  fix l :: pcap_lens
  let ?L = "wire_len l - icmp_truncate_len l"
  let ?w = "wire_headers l src dest st n sq ak ctl True @ d"
  assume l: "pcap_lengths (sa_fam src) st n True = Some l" and len: "length p = 16 + ?L"
    and w: "\<And>da. Some d = Some da \<Longrightarrow> length da = n \<Longrightarrow>
       drop 16 p = take ?L (wire_headers l src dest st n sq ak ctl True @ da)"
  note ll = pcap_lengths_wire [OF l]
  have L: "(if sa_fam src = Inet then 54 else 76) \<le> ?L"
    using l assms(1,2) by (auto simp: pcap_lengths_def Let_def SWRAP_PACKET_IP_V4_SIZE_def
        SWRAP_PACKET_IP_V6_SIZE_def SWRAP_PACKET_PAYLOAD_TCP_SIZE_def SWRAP_PACKET_PAYLOAD_UDP_SIZE_def
        SWRAP_PACKET_PAYLOAD_ICMP_SIZE_def split: if_splits)
  have d: "drop 16 p = take ?L ?w" using w [OF refl] assms(5) by simp
  have at: "p ! (16 + i) = ?w ! i" if "i < ?L" for i
  proof -
    have "p ! (16 + i) = drop 16 p ! i" using len that by (simp add: nth_drop)
    then show ?thesis unfolding d by (simp only: nth_take [OF that])
  qed
  show ?thesis
  proof (cases "sa_fam src = Inet")
    case True
    have "p ! 53 = ?w ! 37" using at [of 37] L True by simp
    also have "\<dots> = icmp_proto l"
      using True by (simp add: wire_headers_def nth_append length_ip_header assms(3,4) pcap_icmp_def)
        (simp add: pcap_ip_header_def nth_append)
    finally show ?thesis using True ll(7) by simp
  next
    case False
    have i6: "proto l = 0x3A" using ll(6) False by simp
    have "p ! 70 = ?w ! 54" "p ! 22 = ?w ! 6" using at [of 54] at [of 6] L False by simp_all
    moreover have "?w ! 54 = proto l" "?w ! 6 = proto l"
      using False by (simp_all add: wire_headers_def nth_append length_ip_header assms(3,4) pcap_icmp_def)
        (simp_all add: pcap_ip_header_def nth_append)
    ultimately show ?thesis using False i6 by simp
  qed
qed

lemma packet_init_exists:
  "pcap_lengths (sa_fam src) st n un = Some l \<Longrightarrow>
   \<exists>p. swrap_pcap_packet_init True tv src dest st payload n sq ak ctl un = Some p"
  by (simp add: swrap_pcap_packet_init_def Let_def)

theorem icmp_quoted_protocol_witness:
  "\<exists>p. swrap_pcap_packet_init True (1, 2) (zero_sockaddr\<lparr>sa_fam := Inet6\<rparr>) zero_sockaddr Dgram
       (Some [104, 105]) 2 0 0 0 True = Some p \<and> p ! 70 = 0x3A"
proof -
  have ok: "addr_ok (zero_sockaddr\<lparr>sa_fam := Inet6\<rparr>)"
    using zero_addr_ok by (simp add: addr_ok_def)
  have l: "length [104, 105 :: u8] = 2" by simp
  have "pcap_lengths (sa_fam (zero_sockaddr\<lparr>sa_fam := Inet6\<rparr>)) Dgram 2 True \<noteq> None"
    by (simp add: pcap_lengths_def)
  then obtain p where p: "swrap_pcap_packet_init True (1, 2) (zero_sockaddr\<lparr>sa_fam := Inet6\<rparr>) zero_sockaddr Dgram
       (Some [104, 105]) 2 0 0 0 True = Some p"
    using packet_init_exists by blast
  have f: "sa_fam (zero_sockaddr\<lparr>sa_fam := Inet6\<rparr>) = Inet6"
    by simp
  have "p ! 70 = 0x3A"
    using icmp_quoted_protocol [OF disjI2 [OF f] _ ok zero_addr_ok l p] unfolding f by simp
  with p show ?thesis by blast
qed

end
