(* ===== verification/Swrap_Pool.thy ===== *)
theory Swrap_Pool
  imports Swrap_Pcap
begin

text \<open>
  The descriptor table of socket_wrapper.c: the array of \<open>socket_info\<close> entries with their
  reference counts and free list, the table from descriptors to entries, and the calls that
  change them (creation, removal of stale entries, close, dup, dup2, fcntl, the calls that make
  other descriptors, the destructor). A library that is not initialised has an empty table.
  The results of libc calls are arguments. The table has \<open>SOCKET_FDS_MAX\<close> slots; a store
  outside is the fault \<open>TableOverrun\<close>. \<open>unlinked\<close> lists the socket files removed so far.
\<close>

section \<open>The table\<close>

definition SOCKET_FDS_MAX :: nat where "SOCKET_FDS_MAX = SOCKET_WRAPPER_MAX_SOCKETS_LIMIT"

record container =
  c_info :: socket_info
  c_refcount :: u32
  c_next_free :: int

record swrap =
  ready :: bool
  sockets :: "container list"
  first_free :: int
  fds_idx :: "nat \<Rightarrow> int"
  pcap :: pcap_state
  unlinked :: "string list"

datatype fault = TableOverrun int | BufferOverrun nat

definition swrap0 :: swrap where
  "swrap0 = \<lparr>ready = False, sockets = [], first_free = 0, fds_idx = (\<lambda>_. - 1), pcap = pcap_start, unlinked = []\<rparr>"

definition fresh_container :: "nat \<Rightarrow> nat \<Rightarrow> container" where
  "fresh_container max_sockets i = \<lparr>c_info = zero_info, c_refcount = 0,
     c_next_free = (if i = max_sockets - 1 then - 1 else int (i + 1))\<rparr>"

text \<open>The result is \<open>None\<close> where the code exits: an allocation or a mutex initialisation failed.\<close>

definition socket_wrapper_init_sockets ::
  "env \<Rightarrow> bool \<Rightarrow> bool \<Rightarrow> bool \<Rightarrow> swrap \<Rightarrow> swrap option" where
  "socket_wrapper_init_sockets getenv calloc_fds calloc_sockets mutexes st =
     (if ready st then Some st
      else if \<not> calloc_fds then None
      else let max_sockets = socket_wrapper_max_sockets getenv 0
      in if \<not> calloc_sockets then None
         else if \<not> mutexes then None
         else Some (st\<lparr>ready := True, fds_idx := (\<lambda>_. - 1), first_free := 0,
                       sockets := map (fresh_container max_sockets) [0..<max_sockets]\<rparr>))"

definition socket_wrapper_enabled ::
  "env \<Rightarrow> bool \<Rightarrow> bool \<Rightarrow> bool \<Rightarrow> swrap \<Rightarrow> (bool \<times> swrap) option" where
  "socket_wrapper_enabled getenv calloc_fds calloc_sockets mutexes st =
     (if socket_wrapper_dir getenv = None then Some (False, st)
      else map_option (Pair True) (socket_wrapper_init_sockets getenv calloc_fds calloc_sockets mutexes st))"

definition swrap_get_socket_info :: "int \<Rightarrow> swrap \<Rightarrow> socket_info" where
  "swrap_get_socket_info idx st = c_info (sockets st ! nat idx)"

definition upd_container :: "int \<Rightarrow> (container \<Rightarrow> container) \<Rightarrow> swrap \<Rightarrow> swrap" where
  "upd_container idx f st = st\<lparr>sockets := (sockets st)[nat idx := f (sockets st ! nat idx)]\<rparr>"

definition swrap_get_refcount :: "int \<Rightarrow> swrap \<Rightarrow> int" where
  "swrap_get_refcount idx st = sint (c_refcount (sockets st ! nat idx))"

definition swrap_inc_refcount :: "int \<Rightarrow> swrap \<Rightarrow> swrap" where
  "swrap_inc_refcount idx = upd_container idx (\<lambda>c. c\<lparr>c_refcount := c_refcount c + 1\<rparr>)"

definition swrap_dec_refcount :: "int \<Rightarrow> swrap \<Rightarrow> swrap" where
  "swrap_dec_refcount idx = upd_container idx (\<lambda>c. c\<lparr>c_refcount := c_refcount c - 1\<rparr>)"

definition swrap_get_next_free :: "int \<Rightarrow> swrap \<Rightarrow> int" where
  "swrap_get_next_free idx st = c_next_free (sockets st ! nat idx)"

definition swrap_set_next_free :: "int \<Rightarrow> int \<Rightarrow> swrap \<Rightarrow> swrap" where
  "swrap_set_next_free idx next_free = upd_container idx (\<lambda>c. c\<lparr>c_next_free := next_free\<rparr>)"

definition set_info :: "int \<Rightarrow> socket_info \<Rightarrow> swrap \<Rightarrow> swrap" where
  "set_info idx si = upd_container idx (\<lambda>c. c\<lparr>c_info := si\<rparr>)"

definition set_socket_info_index :: "int \<Rightarrow> int \<Rightarrow> swrap \<Rightarrow> fault + swrap" where
  "set_socket_info_index fd idx st =
     (if fd < 0 \<or> fd \<ge> int SOCKET_FDS_MAX then Inl (TableOverrun fd)
      else Inr (st\<lparr>fds_idx := (fds_idx st)(nat fd := idx)\<rparr>))"

text \<open>Called only for descriptors that were just found in the table.\<close>

definition reset_socket_info_index :: "int \<Rightarrow> swrap \<Rightarrow> swrap" where
  "reset_socket_info_index fd st =
     (case set_socket_info_index fd (- 1) st of Inl _ \<Rightarrow> st | Inr st \<Rightarrow> st)"

definition find_socket_info_index :: "int \<Rightarrow> swrap \<Rightarrow> int" where
  "find_socket_info_index fd st =
     (if fd < 0 then - 1
      else if \<not> ready st then - 1
      else if fd \<ge> int SOCKET_FDS_MAX then - 1
      else fds_idx st (nat fd))"

section \<open>Creating an entry\<close>

definition swrap_add_socket_info :: "socket_info option \<Rightarrow> swrap \<Rightarrow> int sysres \<times> swrap" where
  "swrap_add_socket_info si_input st =
     (case si_input of
        None \<Rightarrow> (Inl EINVAL, st)
      | Some si \<Rightarrow>
          if first_free st = - 1 then (Inl ENFILE, st)
          else let si_index = first_free st;
                   st = st\<lparr>first_free := swrap_get_next_free si_index st\<rparr>;
                   st = set_info si_index si st
               in (Inr si_index, swrap_inc_refcount si_index st))"

text \<open>\<open>None\<close> is the result -1. A negative descriptor is a large \<open>size_t\<close> in the comparison.\<close>

definition swrap_create_socket :: "socket_info \<Rightarrow> int \<Rightarrow> swrap \<Rightarrow> int option \<times> swrap" where
  "swrap_create_socket si fd st =
     (if fd < 0 \<or> fd \<ge> int SOCKET_FDS_MAX then (None, st)
      else case swrap_add_socket_info (Some si) st of
        (Inl _, st) \<Rightarrow> (None, st)
      | (Inr idx, st) \<Rightarrow>
          (case set_socket_info_index fd idx st of
             Inl _ \<Rightarrow> (None, st)
           | Inr st \<Rightarrow> (Some idx, st)))"

section \<open>Dropping references\<close>

definition unlink_path :: "string \<Rightarrow> swrap \<Rightarrow> swrap" where
  "unlink_path p st = (if p \<noteq> '''' then st\<lparr>unlinked := unlinked st @ [p]\<rparr> else st)"

definition swrap_remove_stale :: "int \<Rightarrow> swrap \<Rightarrow> swrap" where
  "swrap_remove_stale fd st =
     (let si_index = find_socket_info_index fd st in
      if si_index = - 1 then st
      else let st = reset_socket_info_index fd st;
               st = swrap_dec_refcount si_index st
      in if swrap_get_refcount si_index st > 0 then st
         else let st = unlink_path (un_addr (swrap_get_socket_info si_index st)) st;
                  st = swrap_set_next_free si_index (first_free st) st
              in st\<lparr>first_free := si_index\<rparr>)"

text \<open>A packet dump on an entry of the array; \<open>oses\<close> gives the results of the calls of each.\<close>

definition dump_on ::
  "env \<Rightarrow> (packet_type \<Rightarrow> pcap_os) \<Rightarrow> int \<Rightarrow> sockaddr \<Rightarrow> packet_type \<Rightarrow> u8 list option \<Rightarrow> nat \<Rightarrow> swrap \<Rightarrow> swrap" where
  "dump_on getenv oses idx addr t buf n st =
     (let (si, pc) = swrap_pcap_dump_packet getenv (oses t) addr t buf n (swrap_get_socket_info idx st, pcap st)
      in (set_info idx si st)\<lparr>pcap := pc\<rparr>)"

text \<open>The last segments of a connection, dumped when its last descriptor goes.\<close>

definition close_dumps :: "env \<Rightarrow> (packet_type \<Rightarrow> pcap_os) \<Rightarrow> int \<Rightarrow> swrap \<Rightarrow> swrap" where
  "close_dumps getenv oses si_index st =
     (let named = (\<lambda>st. sa_socklen (myname (swrap_get_socket_info si_index st)) > 0
                     \<and> sa_socklen (peername (swrap_get_socket_info si_index st)) > 0);
          st = (if named st then dump_on getenv oses si_index zero_sockaddr SWRAP_CLOSE_SEND None 0 st else st)
      in if named st then
           dump_on getenv oses si_index zero_sockaddr SWRAP_CLOSE_ACK None 0
             (dump_on getenv oses si_index zero_sockaddr SWRAP_CLOSE_RECV None 0 st)
         else st)"

definition swrap_close ::
  "env \<Rightarrow> (packet_type \<Rightarrow> pcap_os) \<Rightarrow> int \<Rightarrow> unit sysres \<Rightarrow> swrap \<Rightarrow> unit sysres \<times> swrap" where
  "swrap_close getenv oses fd libc_close st =
     (let si_index = find_socket_info_index fd st in
      if si_index = - 1 then (libc_close, st)
      else let st = reset_socket_info_index fd st;
               st = swrap_dec_refcount si_index st
      in if swrap_get_refcount si_index st > 0 then (libc_close, st)
         else let st = close_dumps getenv oses si_index st;
                  st = unlink_path (un_addr (swrap_get_socket_info si_index st)) st;
                  st = swrap_set_next_free si_index (first_free st) st
              in (libc_close, st\<lparr>first_free := si_index\<rparr>))"

section \<open>Duplicating descriptors\<close>

definition swrap_dup :: "int \<Rightarrow> int sysres \<Rightarrow> swrap \<Rightarrow> fault + int sysres \<times> swrap" where
  "swrap_dup fd libc_dup st =
     (let idx = find_socket_info_index fd st in
      if idx = - 1 then Inr (libc_dup, st)
      else case libc_dup of
        Inl e \<Rightarrow> Inr (Inl e, st)
      | Inr dup_fd \<Rightarrow>
          let st = swrap_inc_refcount idx st;
              st = swrap_remove_stale dup_fd st
          in (case set_socket_info_index dup_fd idx st of
                Inl f \<Rightarrow> Inl f
              | Inr st \<Rightarrow> Inr (Inr dup_fd, st)))"

definition swrap_dup2 ::
  "env \<Rightarrow> (packet_type \<Rightarrow> pcap_os) \<Rightarrow> int \<Rightarrow> int \<Rightarrow> unit sysres \<Rightarrow> int sysres \<Rightarrow> swrap
     \<Rightarrow> fault + int sysres \<times> swrap" where
  "swrap_dup2 getenv oses fd newfd libc_close libc_dup2 st =
     (let idx = find_socket_info_index fd st in
      if idx = - 1 then Inr (libc_dup2, st)
      else if fd = newfd then Inr (Inr newfd, st)
      else let st = (if find_socket_info_index newfd st \<noteq> - 1
                     then snd (swrap_close getenv oses newfd libc_close st) else st)
      in case libc_dup2 of
        Inl e \<Rightarrow> Inr (Inl e, st)
      | Inr dup_fd \<Rightarrow>
          let st = swrap_inc_refcount idx st;
              st = swrap_remove_stale dup_fd st
          in (case set_socket_info_index dup_fd idx st of
                Inl f \<Rightarrow> Inl f
              | Inr st \<Rightarrow> Inr (Inr dup_fd, st)))"

text \<open>\<open>dupfd\<close>: the command is \<open>F_DUPFD\<close>. \<open>F_DUPFD_CLOEXEC\<close> goes the default way.\<close>

definition swrap_vfcntl :: "int \<Rightarrow> bool \<Rightarrow> int sysres \<Rightarrow> swrap \<Rightarrow> fault + int sysres \<times> swrap" where
  "swrap_vfcntl fd dupfd libc_vfcntl st =
     (let idx = find_socket_info_index fd st in
      if idx = - 1 then Inr (libc_vfcntl, st)
      else if dupfd then
        (case libc_vfcntl of
           Inl e \<Rightarrow> Inr (Inl e, st)
         | Inr dup_fd \<Rightarrow>
             let st = swrap_inc_refcount idx st;
                 st = swrap_remove_stale dup_fd st
             in (case set_socket_info_index dup_fd idx st of
                   Inl f \<Rightarrow> Inl f
                 | Inr st \<Rightarrow> Inr (Inr dup_fd, st)))
      else Inr (libc_vfcntl, st))"

section \<open>Other descriptors\<close>

definition swrap_eventfd :: "int sysres \<Rightarrow> swrap \<Rightarrow> int sysres \<times> swrap" where
  "swrap_eventfd libc_eventfd st =
     (case libc_eventfd of Inl e \<Rightarrow> (Inl e, st) | Inr fd \<Rightarrow> (Inr fd, swrap_remove_stale fd st))"

text \<open>The stale entry of the argument is removed, not that of the result.\<close>

definition swrap_signalfd :: "int \<Rightarrow> int sysres \<Rightarrow> swrap \<Rightarrow> int sysres \<times> swrap" where
  "swrap_signalfd fd libc_signalfd st =
     (case libc_signalfd of Inl e \<Rightarrow> (Inl e, st) | Inr rc \<Rightarrow> (Inr rc, swrap_remove_stale fd st))"

definition swrap_timerfd_create :: "int sysres \<Rightarrow> swrap \<Rightarrow> int sysres \<times> swrap" where
  "swrap_timerfd_create libc_timerfd_create st =
     (case libc_timerfd_create of Inl e \<Rightarrow> (Inl e, st) | Inr fd \<Rightarrow> (Inr fd, swrap_remove_stale fd st))"

definition swrap_socketpair :: "(int \<times> int) sysres \<Rightarrow> swrap \<Rightarrow> (int \<times> int) sysres \<times> swrap" where
  "swrap_socketpair libc_socketpair st =
     (case libc_socketpair of Inl e \<Rightarrow> (Inl e, st)
      | Inr sv \<Rightarrow> (Inr sv, swrap_remove_stale (snd sv) (swrap_remove_stale (fst sv) st)))"

definition swrap_pipe :: "(int \<times> int) sysres \<Rightarrow> swrap \<Rightarrow> (int \<times> int) sysres \<times> swrap" where
  "swrap_pipe libc_pipe st =
     (case libc_pipe of Inl e \<Rightarrow> (Inl e, st)
      | Inr fds \<Rightarrow> (Inr fds, swrap_remove_stale (snd fds) (swrap_remove_stale (fst fds) st)))"

definition swrap_destructor ::
  "env \<Rightarrow> (packet_type \<Rightarrow> pcap_os) \<Rightarrow> (nat \<Rightarrow> unit sysres) \<Rightarrow> swrap \<Rightarrow> swrap" where
  "swrap_destructor getenv oses libc_close st =
     (let st = (if ready st then
                  fold (\<lambda>i st. if fds_idx st i \<noteq> - 1 then snd (swrap_close getenv oses (int i) (libc_close i) st) else st)
                    [0..<SOCKET_FDS_MAX] st
                else st)
      in st\<lparr>ready := False, sockets := [], fds_idx := (\<lambda>_. - 1)\<rparr>)"

section \<open>The invariant\<close>

definition nsock :: "swrap \<Rightarrow> nat" where "nsock st = length (sockets st)"
definition refc :: "swrap \<Rightarrow> nat \<Rightarrow> nat" where "refc st i = unat (c_refcount (sockets st ! i))"
definition nxt :: "swrap \<Rightarrow> nat \<Rightarrow> int" where "nxt st i = c_next_free (sockets st ! i)"

definition owners :: "swrap \<Rightarrow> nat \<Rightarrow> nat set" where
  "owners st i = {fd. fd < SOCKET_FDS_MAX \<and> fds_idx st fd = int i}"

primrec chain :: "(nat \<Rightarrow> int) \<Rightarrow> int \<Rightarrow> nat list \<Rightarrow> bool" where
  "chain nx f [] \<longleftrightarrow> f = - 1"
| "chain nx f (i # is) \<longleftrightarrow> f = int i \<and> chain nx (nx i) is"

text \<open>
  The free list holds exactly the entries with no reference, each once, except for those an
  operation has taken out (\<open>out\<close>); a reference count is the number of descriptors that lead to
  the entry, plus the references \<open>pend\<close> that calls under way hold before they enter them in the
  table; every descriptor in the table leads to an entry. Between operations nothing is held.
\<close>

definition free_list :: "nat set \<Rightarrow> swrap \<Rightarrow> nat list \<Rightarrow> bool" where
  "free_list out st fl \<longleftrightarrow> chain (nxt st) (first_free st) fl \<and> distinct fl
     \<and> set fl = {i. i < nsock st \<and> refc st i = 0} - out"

definition pool_inv :: "nat set \<Rightarrow> (nat \<Rightarrow> nat) \<Rightarrow> swrap \<Rightarrow> bool" where
  "pool_inv out pend st \<longleftrightarrow> ready st \<and> (\<exists>fl. free_list out st fl)
     \<and> (\<forall>i < nsock st. refc st i = card (owners st i) + pend i \<and> pend i \<le> SOCKET_FDS_MAX)
     \<and> (\<forall>fd. fds_idx st fd \<noteq> - 1 \<longrightarrow> fd < SOCKET_FDS_MAX \<and> 0 \<le> fds_idx st fd \<and> nat (fds_idx st fd) < nsock st)"

abbreviation pool_ok :: "swrap \<Rightarrow> bool" where "pool_ok \<equiv> pool_inv {} (\<lambda>_. 0)"

lemma chain_cong: "(\<And>i. i \<in> set fl \<Longrightarrow> nx' i = nx i) \<Longrightarrow> chain nx' f fl = chain nx f fl"
  by (induction fl arbitrary: f) auto

lemma chain_first: "chain nx f fl \<Longrightarrow> f = - 1 \<longleftrightarrow> fl = []"
  by (cases fl) auto

lemma finite_owners [simp]: "finite (owners st i)"
  by (simp add: owners_def)

lemma card_owners: "card (owners st i) \<le> SOCKET_FDS_MAX"
proof -
  have "owners st i \<subseteq> {0..<SOCKET_FDS_MAX}" by (auto simp: owners_def)
  then have "card (owners st i) \<le> card {0..<SOCKET_FDS_MAX}" by (intro card_mono) auto
  then show ?thesis by simp
qed

text \<open>Nothing else of the state matters.\<close>

lemma pool_inv_cong:
  assumes "nsock st' = nsock st" "\<And>i. i < nsock st \<Longrightarrow> refc st' i = refc st i"
    and "\<And>i. i < nsock st \<Longrightarrow> nxt st' i = nxt st i"
    and "first_free st' = first_free st" "fds_idx st' = fds_idx st" "ready st' = ready st"
  shows "pool_inv out pend st' = pool_inv out pend st"
proof -
  have s: "{i. i < nsock st' \<and> refc st' i = 0} - out = {i. i < nsock st \<and> refc st i = 0} - out"
    using assms(1,2) by auto
  have "free_list out st' fl = free_list out st fl" for fl
  proof (cases "set fl = {i. i < nsock st \<and> refc st i = 0} - out")
    case True
    then have "chain (nxt st') (first_free st) fl = chain (nxt st) (first_free st) fl"
      using assms(3) by (intro chain_cong) auto
    then show ?thesis using s assms(4) by (simp add: free_list_def)
  next
    case False
    then show ?thesis using s by (simp add: free_list_def)
  qed
  moreover have "owners st' i = owners st i" for i
    using assms(5) by (simp add: owners_def)
  ultimately show ?thesis
    using assms by (simp add: pool_inv_def)
qed

lemma upd_simps [pool_simps]:
  "nsock (upd_container idx f st) = nsock st"
  "first_free (upd_container idx f st) = first_free st"
  "fds_idx (upd_container idx f st) = fds_idx st"
  "ready (upd_container idx f st) = ready st"
  "unlinked (upd_container idx f st) = unlinked st"
  "owners (upd_container idx f st) i = owners st i"
  by (simp_all add: upd_container_def nsock_def owners_def)

lemma upd_at [pool_simps]:
  "nat idx < nsock st \<Longrightarrow> sockets (upd_container idx f st) ! i = (if i = nat idx then f (sockets st ! i) else sockets st ! i)"
  by (simp add: upd_container_def nsock_def)

lemma set_info_inv [simp]:
  "nat idx < nsock st \<Longrightarrow> pool_inv out pend (set_info idx si st) = pool_inv out pend st"
  by (rule pool_inv_cong) (auto simp: set_info_def refc_def nxt_def pool_simps)

lemma unlink_inv [simp]: "pool_inv out pend (unlink_path p st) = pool_inv out pend st"
  by (rule pool_inv_cong) (auto simp: unlink_path_def nsock_def refc_def nxt_def)

lemma pcap_inv [simp]: "pool_inv out pend (st\<lparr>pcap := pc\<rparr>) = pool_inv out pend st"
  by (rule pool_inv_cong) (auto simp: nsock_def refc_def nxt_def)

lemma find_index:
  assumes "pool_inv out pend st" and "find_socket_info_index fd st = idx" and "idx \<noteq> - 1"
  shows "0 \<le> fd" "nat fd < SOCKET_FDS_MAX" "fds_idx st (nat fd) = idx" "0 \<le> idx" "nat idx < nsock st"
    "nat fd \<in> owners st (nat idx)"
proof -
  show 1: "0 \<le> fd" "nat fd < SOCKET_FDS_MAX" and 2: "fds_idx st (nat fd) = idx"
    using assms(2,3) by (auto simp: find_socket_info_index_def split: if_splits)
  show 3: "0 \<le> idx" "nat idx < nsock st"
    using assms(1,3) 2 by (auto simp: pool_inv_def)
  show "nat fd \<in> owners st (nat idx)"
    using 1 2 3 by (simp add: owners_def)
qed

section \<open>Steps that keep the invariant\<close>

lemma refcount_small:
  assumes "pool_inv out pend st" "i < nsock st"
  shows "refc st i \<le> SOCKET_FDS_MAX + SOCKET_FDS_MAX"
  using assms card_owners [of st i] by (auto simp: pool_inv_def)

lemma get_refcount_pos:
  assumes "pool_inv out pend st" "nat idx < nsock st"
  shows "swrap_get_refcount idx st > 0 \<longleftrightarrow> refc st (nat idx) \<noteq> 0"
proof -
  have "refc st (nat idx) < 2 ^ 31"
    using refcount_small [OF assms] by (simp add: SOCKET_FDS_MAX_def SOCKET_WRAPPER_MAX_SOCKETS_LIMIT_def)
  then have "swrap_get_refcount idx st = int (refc st (nat idx))"
    unfolding swrap_get_refcount_def refc_def by (rule sint_eq_unat_u32)
  then show ?thesis by simp
qed

lemma inc_inv:
  assumes inv: "pool_inv out pend st" and i: "nat idx < nsock st"
    and used: "refc st (nat idx) \<noteq> 0 \<or> nat idx \<in> out" and p: "pend (nat idx) < SOCKET_FDS_MAX"
  shows "pool_inv (out - {nat idx}) (pend(nat idx := pend (nat idx) + 1)) (swrap_inc_refcount idx st)"
proof -
  let ?st = "swrap_inc_refcount idx st"
  have small: "refc st (nat idx) + 1 < 2 ^ 32"
    using refcount_small [OF inv i] by (simp add: SOCKET_FDS_MAX_def SOCKET_WRAPPER_MAX_SOCKETS_LIMIT_def)
  have "unat (c_refcount (sockets st ! nat idx) + 1) = unat (c_refcount (sockets st ! nat idx)) + 1"
    using small unat_add_lem [of "c_refcount (sockets st ! nat idx)" 1, THEN iffD1]
    by (simp add: refc_def)
  then have r: "refc ?st j = (if j = nat idx then refc st j + 1 else refc st j)" for j
    using i by (simp add: swrap_inc_refcount_def refc_def pool_simps)
  have nx: "nxt ?st j = nxt st j" for j
    using i by (simp add: swrap_inc_refcount_def nxt_def pool_simps)
  have same: "nsock ?st = nsock st" "first_free ?st = first_free st" "fds_idx ?st = fds_idx st"
    "ready ?st = ready st" "owners ?st = owners st"
    by (simp_all add: swrap_inc_refcount_def pool_simps fun_eq_iff)
  have "{j. j < nsock st \<and> refc ?st j = 0} - (out - {nat idx}) = {j. j < nsock st \<and> refc st j = 0} - out"
    using used by (auto simp: r)
  then have "free_list (out - {nat idx}) ?st fl = free_list out st fl" for fl
    by (simp add: free_list_def same nx [abs_def])
  then show ?thesis
    using inv p by (auto simp: pool_inv_def same r)
qed

lemma reset_found:
  assumes "find_socket_info_index fd st \<noteq> - 1"
  shows "reset_socket_info_index fd st = st\<lparr>fds_idx := (fds_idx st)(nat fd := - 1)\<rparr>"
  using assms by (auto simp: find_socket_info_index_def reset_socket_info_index_def
      set_socket_info_index_def split: if_splits)

lemma owners_upd:
  assumes "0 \<le> idx" "nat fd \<in> owners st (nat idx)"
  shows "owners (st\<lparr>fds_idx := (fds_idx st)(nat fd := - 1)\<rparr>) j
    = (if j = nat idx then owners st j - {nat fd} else owners st j)"
  using assms by (auto simp: owners_def)

text \<open>Taking a descriptor out of the table: its entry loses one reference, and is out of the free
  list if that was the last.\<close>

lemma release_inv:
  assumes inv: "pool_inv {} pend st" and idx: "find_socket_info_index fd st = idx" "idx \<noteq> - 1"
    and st': "st' = swrap_dec_refcount idx (reset_socket_info_index fd st)"
  shows "pool_inv (if refc st' (nat idx) = 0 then {nat idx} else {}) pend st'"
    and "\<And>j. refc st' j = (if j = nat idx then refc st j - 1 else refc st j)"
    and "\<And>j. j \<noteq> nat idx \<Longrightarrow> c_info (sockets st' ! j) = c_info (sockets st ! j)"
    and "c_info (sockets st' ! nat idx) = c_info (sockets st ! nat idx)"
    and "nsock st' = nsock st" "unlinked st' = unlinked st" "fds_idx st' = (fds_idx st)(nat fd := - 1)"
    and "refc st (nat idx) \<noteq> 0"
proof -
  note f = find_index [OF inv idx]
  let ?st1 = "st\<lparr>fds_idx := (fds_idx st)(nat fd := - 1)\<rparr>"
  have st1: "st' = swrap_dec_refcount idx ?st1"
    unfolding st' using reset_found [of fd st] idx by simp
  have n1: "nat idx < nsock ?st1" using f(5) by (simp add: nsock_def)
  have pos: "card (owners st (nat idx)) \<noteq> 0"
    using f(6) by auto
  have rc: "refc st (nat idx) = card (owners st (nat idx)) + pend (nat idx)"
    using inv f(5) by (simp add: pool_inv_def)
  show nz: "refc st (nat idx) \<noteq> 0" using pos rc by simp
  then have nz': "c_refcount (sockets st ! nat idx) \<noteq> 0" by (auto simp: refc_def)
  have "unat (c_refcount (sockets st ! nat idx) - 1) = unat (c_refcount (sockets st ! nat idx)) - 1"
    using nz' by (rule unat_minus_one)
  then show r: "\<And>j. refc st' j = (if j = nat idx then refc st j - 1 else refc st j)"
    using n1 by (simp add: st1 swrap_dec_refcount_def refc_def pool_simps)
  have nx: "nxt st' j = nxt st j" for j
    using n1 by (simp add: st1 swrap_dec_refcount_def nxt_def pool_simps)
  show "\<And>j. j \<noteq> nat idx \<Longrightarrow> c_info (sockets st' ! j) = c_info (sockets st ! j)"
    and "c_info (sockets st' ! nat idx) = c_info (sockets st ! nat idx)"
    using n1 by (simp_all add: st1 swrap_dec_refcount_def pool_simps)
  show same: "nsock st' = nsock st" "unlinked st' = unlinked st" "fds_idx st' = (fds_idx st)(nat fd := - 1)"
    by (simp_all add: st1 swrap_dec_refcount_def pool_simps nsock_def upd_container_def)
  have same2: "first_free st' = first_free st" "ready st' = ready st"
    by (simp_all add: st1 swrap_dec_refcount_def pool_simps)
  have o: "owners st' j = (if j = nat idx then owners st j - {nat fd} else owners st j)" for j
    unfolding st1 swrap_dec_refcount_def upd_simps using owners_upd [OF f(4,6)] by simp
  have "{j. j < nsock st' \<and> refc st' j = 0} - (if refc st' (nat idx) = 0 then {nat idx} else {})
      = {j. j < nsock st \<and> refc st j = 0}"
    using nz by (auto simp: same r)
  then have fl: "free_list (if refc st' (nat idx) = 0 then {nat idx} else {}) st' l = free_list {} st l" for l
    by (simp only: free_list_def same2 nx [abs_def] Diff_empty eta_contract_eq)
  have "refc st' j = card (owners st' j) + pend j" if "j < nsock st" for j
  proof (cases "j = nat idx")
    case True
    then have "card (owners st' j) = card (owners st j) - 1"
      using f(6) by (simp add: o card_Diff_singleton)
    moreover obtain k where "card (owners st (nat idx)) = Suc k"
      using pos not0_implies_Suc by blast
    ultimately show ?thesis using True rc by (simp add: r)
  next
    case False
    then show ?thesis using inv that by (simp add: pool_inv_def r o)
  qed
  then show "pool_inv (if refc st' (nat idx) = 0 then {nat idx} else {}) pend st'"
    using inv by (simp only: pool_inv_def fl same same2 simp_thms) (auto simp: fun_upd_def)
qed

lemma push_inv:
  assumes inv: "pool_inv {nat idx} pend st" and i: "0 \<le> idx" "nat idx < nsock st" "refc st (nat idx) = 0"
    and st': "st' = (swrap_set_next_free idx (first_free st) st)\<lparr>first_free := idx\<rparr>"
  shows "pool_inv {} pend st'"
proof -
  obtain fl where fl: "free_list {nat idx} st fl" using inv by (auto simp: pool_inv_def)
  have nx: "nxt st' j = (if j = nat idx then first_free st else nxt st j)" and r: "refc st' j = refc st j" for j
    using i(2) by (simp_all add: st' swrap_set_next_free_def nxt_def refc_def pool_simps)
  have same: "nsock st' = nsock st" "fds_idx st' = fds_idx st" "ready st' = ready st" "first_free st' = idx"
    "owners st' = owners st"
    by (simp_all add: st' swrap_set_next_free_def pool_simps nsock_def owners_def upd_container_def fun_eq_iff)
  have notin: "nat idx \<notin> set fl" using fl by (simp add: free_list_def)
  have "chain (nxt st') (first_free st) fl = chain (nxt st) (first_free st) fl"
    using notin by (intro chain_cong) (auto simp: nx)
  then have "chain (nxt st') idx (nat idx # fl)"
    using fl i(1) by (simp add: free_list_def nx)
  moreover have "set (nat idx # fl) = {j. j < nsock st \<and> refc st j = 0}"
    using fl i by (auto simp: free_list_def)
  ultimately have "free_list {} st' (nat idx # fl)"
    using fl notin by (simp add: free_list_def same r)
  then show ?thesis
    using inv by (auto simp: pool_inv_def same r)
qed

lemma take_inv:
  assumes inv: "pool_inv {} pend st" and ff: "first_free st \<noteq> - 1"
    and st': "st' = st\<lparr>first_free := swrap_get_next_free (first_free st) st\<rparr>"
  shows "0 \<le> first_free st" "nat (first_free st) < nsock st" "refc st (nat (first_free st)) = 0"
    "pool_inv {nat (first_free st)} pend st'"
proof -
  obtain fl where fl: "free_list {} st fl" using inv by (auto simp: pool_inv_def)
  then obtain i l where l: "fl = i # l" "first_free st = int i" "chain (nxt st) (nxt st i) l"
    using ff by (cases fl) (auto simp: free_list_def)
  show i: "0 \<le> first_free st" "nat (first_free st) < nsock st" "refc st (nat (first_free st)) = 0"
    using fl l by (auto simp: free_list_def)
  have same: "nsock st' = nsock st" "refc st' = refc st" "nxt st' = nxt st" "first_free st' = nxt st i"
    "owners st' = owners st" "ready st' = ready st" "fds_idx st' = fds_idx st"
    by (simp_all add: st' l swrap_get_next_free_def nsock_def refc_def nxt_def owners_def fun_eq_iff)
  have "free_list {i} st' l"
    using fl l by (auto simp: free_list_def same)
  then show "pool_inv {nat (first_free st)} pend st'"
    using inv l by (auto simp: pool_inv_def same)
qed

lemma full_pool:
  assumes "pool_inv {} pend st"
  shows "first_free st = - 1 \<longleftrightarrow> (\<forall>i < nsock st. refc st i \<noteq> 0)"
proof -
  obtain fl where fl: "free_list {} st fl" using assms by (auto simp: pool_inv_def)
  then have "chain (nxt st) (first_free st) fl" by (simp add: free_list_def)
  then have "first_free st = - 1 \<longleftrightarrow> fl = []" by (rule chain_first)
  moreover have "set fl = {i. i < nsock st \<and> refc st i = 0}"
    using fl by (simp add: free_list_def)
  then have "fl = [] \<longleftrightarrow> (\<forall>i. \<not> (i < nsock st \<and> refc st i = 0))"
    by (simp only: set_empty [symmetric] Collect_empty_eq)
  ultimately show ?thesis by (simp only: not_less imp_conv_disj de_Morgan_conj)
qed

lemma enter_inv:
  assumes inv: "pool_inv {} (pend(nat idx := pend (nat idx) + 1)) st" and i: "0 \<le> idx" "nat idx < nsock st"
    and free: "fds_idx st (nat fd) = - 1" and set: "set_socket_info_index fd idx st = Inr st'"
  shows "pool_inv {} pend st'"
proof -
  have fd: "nat fd < SOCKET_FDS_MAX" and st': "st' = st\<lparr>fds_idx := (fds_idx st)(nat fd := idx)\<rparr>"
    using set by (auto simp: set_socket_info_index_def split: if_splits)
  have same: "nsock st' = nsock st" "refc st' = refc st" "nxt st' = nxt st" "ready st' = ready st"
    "first_free st' = first_free st" "fds_idx st' = (fds_idx st)(nat fd := idx)"
    by (simp_all add: st' nsock_def refc_def nxt_def fun_eq_iff)
  have o: "owners st' j = (if j = nat idx then insert (nat fd) (owners st j) else owners st j)" for j
    using fd i free by (auto simp: st' owners_def)
  have "nat fd \<notin> owners st (nat idx)" using free by (simp add: owners_def)
  then have "refc st' j = card (owners st' j) + pend j \<and> pend j \<le> SOCKET_FDS_MAX" if "j < nsock st" for j
    using inv that by (auto simp: pool_inv_def same o split: if_splits)
  moreover have "free_list {} st' fl = free_list {} st fl" for fl
    by (simp add: free_list_def same)
  ultimately show ?thesis
    using inv fd i by (auto simp: pool_inv_def same)
qed

section \<open>Leaving the table\<close>

definition path_of :: "swrap \<Rightarrow> nat \<Rightarrow> string" where
  "path_of st i = un_addr (c_info (sockets st ! i))"

text \<open>What a packet dump leaves alone.\<close>

definition same_table :: "swrap \<Rightarrow> swrap \<Rightarrow> bool" where
  "same_table st st' \<longleftrightarrow> nsock st' = nsock st \<and> refc st' = refc st \<and> nxt st' = nxt st
     \<and> first_free st' = first_free st \<and> fds_idx st' = fds_idx st \<and> ready st' = ready st
     \<and> path_of st' = path_of st \<and> unlinked st' = unlinked st"

lemma same_table_refl: "same_table st st"
  by (simp add: same_table_def)

lemma same_table_trans: "same_table a b \<Longrightarrow> same_table b c \<Longrightarrow> same_table a c"
  by (simp add: same_table_def)

lemma same_table_inv: "same_table st st' \<Longrightarrow> pool_inv out pend st' = pool_inv out pend st"
  by (rule pool_inv_cong) (simp_all add: same_table_def)

lemma set_info_same_table:
  assumes "nat idx < nsock st" "un_addr si = path_of st (nat idx)"
  shows "same_table st (set_info idx si st)"
  using assms by (auto simp: same_table_def fun_eq_iff set_info_def path_of_def refc_def nxt_def pool_simps)

lemma dump_same_table:
  assumes "nat idx < nsock st"
  shows "same_table st (dump_on getenv oses idx a t buf n st)"
proof -
  obtain si pc where d: "swrap_pcap_dump_packet getenv (oses t) a t buf n (swrap_get_socket_info idx st, pcap st) = (si, pc)"
    by fastforce
  then have "un_addr si = path_of st (nat idx)"
    using dump_path [of getenv "oses t" a t buf n "swrap_get_socket_info idx st" "pcap st"]
    by (simp add: swrap_get_socket_info_def path_of_def)
  then have "same_table st (set_info idx si st)" by (rule set_info_same_table [OF assms])
  then show ?thesis
    by (simp add: dump_on_def d same_table_def fun_eq_iff path_of_def refc_def nxt_def nsock_def)
qed

text \<open>What dropping descriptor \<open>fd\<close> of entry \<open>idx\<close> does.\<close>

definition drops :: "int \<Rightarrow> int \<Rightarrow> swrap \<Rightarrow> swrap \<Rightarrow> bool" where
  "drops fd idx st st' \<longleftrightarrow> nsock st' = nsock st \<and> fds_idx st' = (fds_idx st)(nat fd := - 1)
     \<and> path_of st' = path_of st
     \<and> (\<forall>j. refc st' j = (if j = nat idx then refc st j - 1 else refc st j))
     \<and> refc st (nat idx) \<noteq> 0
     \<and> unlinked st' = unlinked st
         @ (if refc st (nat idx) = 1 \<and> path_of st (nat idx) \<noteq> '''' then [path_of st (nat idx)] else [])"

lemma unlink_simps [pool_simps]:
  "nsock (unlink_path p st) = nsock st" "refc (unlink_path p st) = refc st" "nxt (unlink_path p st) = nxt st"
  "first_free (unlink_path p st) = first_free st" "fds_idx (unlink_path p st) = fds_idx st"
  "path_of (unlink_path p st) = path_of st"
  "unlinked (unlink_path p st) = unlinked st @ (if p \<noteq> '''' then [p] else [])"
  by (auto simp: unlink_path_def nsock_def refc_def nxt_def path_of_def fun_eq_iff)

lemma push_simps:
  assumes "nat idx < nsock st"
  shows "nsock ((swrap_set_next_free idx n st)\<lparr>first_free := f\<rparr>) = nsock st"
    "fds_idx ((swrap_set_next_free idx n st)\<lparr>first_free := f\<rparr>) = fds_idx st"
    "path_of ((swrap_set_next_free idx n st)\<lparr>first_free := f\<rparr>) = path_of st"
    "refc ((swrap_set_next_free idx n st)\<lparr>first_free := f\<rparr>) = refc st"
    "unlinked ((swrap_set_next_free idx n st)\<lparr>first_free := f\<rparr>) = unlinked st"
  using assms by (auto simp: swrap_set_next_free_def nsock_def refc_def path_of_def fun_eq_iff upd_container_def
      nth_list_update)

lemma drop_inv:
  assumes inv: "pool_inv {} pend st" and idx: "find_socket_info_index fd st = idx" "idx \<noteq> - 1"
    and st1: "st1 = swrap_dec_refcount idx (reset_socket_info_index fd st)" and st2: "same_table st1 st2"
    and st3: "st3 = unlink_path (path_of st2 (nat idx)) st2"
    and st': "st' = (if swrap_get_refcount idx st1 > 0 then st1
       else (swrap_set_next_free idx (first_free st3) st3)\<lparr>first_free := idx\<rparr>)"
  shows "pool_inv {} pend st' \<and> drops fd idx st st'"
proof -
  note rel = release_inv [OF inv idx st1]
  note f = find_index [OF inv idx]
  have n1: "nat idx < nsock st1" using f(5) rel(5) by simp
  have p1: "path_of st1 = path_of st"
    using rel(3,4) by (auto simp: path_of_def fun_eq_iff) metis
  have rc: "swrap_get_refcount idx st1 > 0 \<longleftrightarrow> refc st (nat idx) - 1 \<noteq> 0"
    using get_refcount_pos [OF rel(1) n1] rel(2) [of "nat idx"] by simp
  show ?thesis
  proof (cases "swrap_get_refcount idx st1 > 0")
    case True
    then have "pool_inv {} pend st1" using rel(1) rel(2) [of "nat idx"] rc by simp
    moreover have "drops fd idx st st1"
      using True rc rel by (simp add: drops_def p1)
    ultimately show ?thesis using True st' by simp
  next
    case False
    then have one: "refc st (nat idx) = 1" and z: "refc st1 (nat idx) = 0"
      using rc rel(2) [of "nat idx"] rel(8) by simp_all
    have s: "nsock st2 = nsock st" "fds_idx st2 = (fds_idx st)(nat fd := - 1)" "path_of st2 = path_of st"
        "refc st2 = refc st1" "unlinked st2 = unlinked st"
      using st2 rel p1 by (simp_all add: same_table_def)
    have n3: "nat idx < nsock st3" using f(5) s by (simp add: st3 pool_simps)
    have "pool_inv {nat idx} pend st3"
      using rel(1) z same_table_inv [OF st2] by (simp add: st3)
    then have "pool_inv {} pend st'"
      by (rule push_inv) (use f n3 z s False st' in \<open>simp_all add: st3 pool_simps\<close>)
    moreover have "drops fd idx st st'"
      using False one s rel(2) st' push_simps [OF n3]
      by (simp add: drops_def) (simp add: st3 pool_simps s)
    ultimately show ?thesis by simp
  qed
qed

lemma remove_stale_drops:
  assumes "pool_inv {} pend st" and "find_socket_info_index fd st \<noteq> - 1"
  shows "pool_inv {} pend (swrap_remove_stale fd st)
    \<and> drops fd (find_socket_info_index fd st) st (swrap_remove_stale fd st)"
  by (rule drop_inv [OF assms(1) refl assms(2) refl same_table_refl refl])
    (simp add: swrap_remove_stale_def Let_def assms(2) swrap_get_socket_info_def path_of_def)

lemma close_dumps_same_table:
  assumes "nat idx < nsock st"
  shows "same_table st (close_dumps getenv oses idx st)"
proof -
  have d: "same_table st s \<Longrightarrow> same_table st (dump_on getenv oses idx a t buf n s)" for s a t buf n
    using assms by (intro same_table_trans [OF _ dump_same_table]) (auto simp: same_table_def)
  show ?thesis
    by (simp add: close_dumps_def Let_def d same_table_refl)
qed

lemma close_drops:
  assumes "pool_inv {} pend st" and "find_socket_info_index fd st \<noteq> - 1"
  shows "pool_inv {} pend (snd (swrap_close getenv oses fd r st))
    \<and> drops fd (find_socket_info_index fd st) st (snd (swrap_close getenv oses fd r st))"
proof -
  define idx where "idx = find_socket_info_index fd st"
  define st1 where "st1 = swrap_dec_refcount idx (reset_socket_info_index fd st)"
  have i: "idx \<noteq> - 1" using assms(2) by (simp add: idx_def)
  note rel = release_inv [OF assms(1) idx_def [symmetric] i st1_def]
  have "nat idx < nsock st1"
    using find_index(5) [OF assms(1) idx_def [symmetric] i] rel(5) by simp
  note same = close_dumps_same_table [OF this, of getenv oses]
  show ?thesis
    unfolding idx_def [symmetric]
    by (rule drop_inv [OF assms(1) idx_def [symmetric] i st1_def same refl])
      (simp add: swrap_close_def Let_def idx_def [symmetric] st1_def [symmetric] i
        swrap_get_socket_info_def path_of_def)
qed

section \<open>Entering the table\<close>

lemma same_table_simps:
  "refc (set_info idx si st) = refc st" "nxt (set_info idx si st) = nxt st"
  if "nat idx < nsock st"
  using that by (auto simp: set_info_def refc_def nxt_def fun_eq_iff pool_simps)

lemma inc_simps:
  assumes "nat idx < nsock st" "refc st (nat idx) + 1 < 2 ^ 32"
  shows "nsock (swrap_inc_refcount idx st) = nsock st" "fds_idx (swrap_inc_refcount idx st) = fds_idx st"
    "unlinked (swrap_inc_refcount idx st) = unlinked st" "path_of (swrap_inc_refcount idx st) = path_of st"
    "refc (swrap_inc_refcount idx st) = (refc st)(nat idx := refc st (nat idx) + 1)"
    "c_info (sockets (swrap_inc_refcount idx st) ! j) = c_info (sockets st ! j)"
proof -
  have "unat (c_refcount (sockets st ! nat idx) + 1) = unat (c_refcount (sockets st ! nat idx)) + 1"
    using assms(2) unat_add_lem [of "c_refcount (sockets st ! nat idx)" 1, THEN iffD1]
    by (simp add: refc_def)
  then show "refc (swrap_inc_refcount idx st) = (refc st)(nat idx := refc st (nat idx) + 1)"
    using assms(1) by (simp add: swrap_inc_refcount_def refc_def pool_simps fun_eq_iff)
qed (use assms(1) in \<open>simp_all add: swrap_inc_refcount_def path_of_def pool_simps fun_eq_iff\<close>)

lemma refcount_room: "pool_inv out pend st \<Longrightarrow> i < nsock st \<Longrightarrow> refc st i + 1 < 2 ^ 32"
  using refcount_small [of out pend st i]
  by (simp add: SOCKET_FDS_MAX_def SOCKET_WRAPPER_MAX_SOCKETS_LIMIT_def)

text \<open>What entering descriptor \<open>fd\<close> for a new entry \<open>idx\<close> does.\<close>

definition enters :: "int \<Rightarrow> int \<Rightarrow> socket_info \<Rightarrow> swrap \<Rightarrow> swrap \<Rightarrow> bool" where
  "enters fd idx si st st' \<longleftrightarrow> 0 \<le> idx \<and> nat idx < nsock st \<and> refc st (nat idx) = 0 \<and> nsock st' = nsock st
     \<and> fds_idx st' = (fds_idx st)(nat fd := idx) \<and> unlinked st' = unlinked st
     \<and> path_of st' = (path_of st)(nat idx := un_addr si) \<and> refc st' = (refc st)(nat idx := 1)
     \<and> swrap_get_socket_info idx st' = si"

lemma add_inv:
  assumes inv: "pool_inv {} pend st" and ff: "first_free st \<noteq> - 1"
  shows "\<exists>st'. swrap_add_socket_info (Some si) st = (Inr (first_free st), st')
    \<and> pool_inv {} (pend(nat (first_free st) := 1)) st' \<and> nsock st' = nsock st \<and> fds_idx st' = fds_idx st
    \<and> unlinked st' = unlinked st \<and> path_of st' = (path_of st)(nat (first_free st) := un_addr si)
    \<and> refc st' = (refc st)(nat (first_free st) := 1) \<and> swrap_get_socket_info (first_free st) st' = si"
proof -
  let ?i = "first_free st"
  define st1 where "st1 = st\<lparr>first_free := swrap_get_next_free ?i st\<rparr>"
  define st2 where "st2 = set_info ?i si st1"
  note t = take_inv [OF inv ff st1_def]
  have s1: "nsock st1 = nsock st" "refc st1 = refc st" "path_of st1 = path_of st"
    by (simp_all add: st1_def nsock_def refc_def path_of_def fun_eq_iff)
  have n1: "nat ?i < nsock st1" using t(2) s1 by simp
  have s2: "nsock st2 = nsock st" "refc st2 = refc st" "path_of st2 = (path_of st)(nat ?i := un_addr si)"
      "fds_idx st2 = fds_idx st" "unlinked st2 = unlinked st" "c_info (sockets st2 ! nat ?i) = si"
    using n1 s1 same_table_simps [OF n1]
    by (simp_all add: st2_def) (simp_all add: set_info_def pool_simps path_of_def fun_eq_iff st1_def)
  have inv2: "pool_inv {nat ?i} pend st2" using t(4) n1 by (simp add: st2_def)
  have n2: "nat ?i < nsock st2" using t(2) s2 by simp
  note inc = inc_simps [OF n2 refcount_room [OF inv2 n2]]
  have p: "pend (nat ?i) = 0" using inv t(2,3) by (auto simp: pool_inv_def)
  have "pool_inv ({nat ?i} - {nat ?i}) (pend(nat ?i := 1)) (swrap_inc_refcount ?i st2)"
    using inc_inv [OF inv2 n2] by (simp add: p SOCKET_FDS_MAX_def SOCKET_WRAPPER_MAX_SOCKETS_LIMIT_def)
  moreover have "swrap_add_socket_info (Some si) st = (Inr ?i, swrap_inc_refcount ?i st2)"
    using ff by (simp add: swrap_add_socket_info_def st1_def st2_def Let_def)
  ultimately show ?thesis
    using inc s2 t(3) by (intro exI [of _ "swrap_inc_refcount ?i st2"]) (simp add: swrap_get_socket_info_def)
qed

lemma create_socket_spec:
  assumes ok: "pool_ok st" and free: "find_socket_info_index fd st = - 1"
  shows "(case swrap_create_socket si fd st of
      (None, st') \<Rightarrow> st' = st \<and> (fd < 0 \<or> fd \<ge> int SOCKET_FDS_MAX \<or> (\<forall>i < nsock st. refc st i \<noteq> 0))
    | (Some idx, st') \<Rightarrow> 0 \<le> fd \<and> fd < int SOCKET_FDS_MAX \<and> pool_ok st' \<and> enters fd idx si st st')"
proof (cases "fd < 0 \<or> fd \<ge> int SOCKET_FDS_MAX \<or> first_free st = - 1")
  case True
  then show ?thesis
    using full_pool [OF ok] by (auto simp: swrap_create_socket_def swrap_add_socket_info_def)
next
  case False
  let ?i = "first_free st"
  have "ready st" using ok by (simp add: pool_inv_def)
  then have slot: "fds_idx st (nat fd) = - 1"
    using False free by (simp add: find_socket_info_index_def)
  obtain st1 where st1: "swrap_add_socket_info (Some si) st = (Inr ?i, st1)"
      "pool_inv {} ((\<lambda>_. 0)(nat ?i := 1)) st1" "nsock st1 = nsock st" "fds_idx st1 = fds_idx st"
      "unlinked st1 = unlinked st" "path_of st1 = (path_of st)(nat ?i := un_addr si)"
      "refc st1 = (refc st)(nat ?i := 1)" "swrap_get_socket_info ?i st1 = si"
    using add_inv [OF ok, of si] False by blast
  have t: "0 \<le> ?i" "nat ?i < nsock st" "refc st (nat ?i) = 0"
    using take_inv [OF ok _ refl] False by blast+
  let ?st = "st1\<lparr>fds_idx := (fds_idx st1)(nat fd := ?i)\<rparr>"
  have set: "set_socket_info_index fd ?i st1 = Inr ?st"
    using False by (simp add: set_socket_info_index_def)
  have "pool_ok ?st"
    using enter_inv [OF _ t(1) _ _ set, of "\<lambda>_. 0"] t st1 slot by simp
  moreover have "enters fd ?i si st ?st"
    using t st1 by (simp add: enters_def swrap_get_socket_info_def nsock_def path_of_def refc_def fun_eq_iff)
  ultimately show ?thesis
    using False st1(1) set by (simp add: swrap_create_socket_def)
qed

section \<open>Sharing an entry\<close>

text \<open>The common end of dup, dup2 and fcntl, and what it does.\<close>

abbreviation share_entry :: "int \<Rightarrow> int \<Rightarrow> swrap \<Rightarrow> fault + swrap" where
  "share_entry idx dup_fd st \<equiv> set_socket_info_index dup_fd idx (swrap_remove_stale dup_fd (swrap_inc_refcount idx st))"

definition files :: "swrap \<Rightarrow> string multiset" where
  "files st = mset (unlinked st)
     + (\<Sum>i < nsock st. if refc st i \<noteq> 0 \<and> path_of st i \<noteq> '''' then {#path_of st i#} else {#})"

lemma sum_change:
  fixes f g :: "nat \<Rightarrow> 'a :: comm_monoid_add"
  assumes "k < n" and "\<And>j. j \<noteq> k \<Longrightarrow> g j = f j"
  shows "sum g {..<n} + f k = sum f {..<n} + g k"
proof -
  have "sum f {..<n} = f k + sum f ({..<n} - {k})" "sum g {..<n} = g k + sum g ({..<n} - {k})"
    using assms(1) by (simp_all add: sum.remove)
  moreover have "sum g ({..<n} - {k}) = sum f ({..<n} - {k})"
    using assms(2) by (intro sum.cong) auto
  ultimately show ?thesis by (simp add: ac_simps)
qed

text \<open>Dropping a descriptor moves the path of an entry that dies from the live ones to the removed
  ones; entering adds the path of the new entry.\<close>

lemma drops_files:
  assumes "drops fd idx st st'" and "nat idx < nsock st"
  shows "files st' = files st"
proof -
  let ?f = "\<lambda>i. if refc st i \<noteq> 0 \<and> path_of st i \<noteq> '''' then {#path_of st i#} else {#}"
  let ?g = "\<lambda>i. if refc st' i \<noteq> 0 \<and> path_of st' i \<noteq> '''' then {#path_of st' i#} else {#}"
  have "sum ?g {..<nsock st} + ?f (nat idx) = sum ?f {..<nsock st} + ?g (nat idx)"
    using assms by (intro sum_change) (auto simp: drops_def)
  moreover have "unlinked st' = unlinked st
         @ (if refc st (nat idx) = 1 \<and> path_of st (nat idx) \<noteq> '''' then [path_of st (nat idx)] else [])"
    and "refc st' (nat idx) = refc st (nat idx) - 1" "path_of st' = path_of st" "refc st (nat idx) \<noteq> 0"
    and n: "nsock st' = nsock st"
    using assms(1) by (simp_all add: drops_def)
  ultimately show ?thesis
    unfolding files_def n by (auto split: if_splits)
qed

lemma enters_files:
  assumes "enters fd idx si st st'"
  shows "files st' = files st + (if un_addr si \<noteq> '''' then {#un_addr si#} else {#})"
proof -
  let ?f = "\<lambda>i. if refc st i \<noteq> 0 \<and> path_of st i \<noteq> '''' then {#path_of st i#} else {#}"
  let ?g = "\<lambda>i. if refc st' i \<noteq> 0 \<and> path_of st' i \<noteq> '''' then {#path_of st' i#} else {#}"
  have "sum ?g {..<nsock st} + ?f (nat idx) = sum ?f {..<nsock st} + ?g (nat idx)"
    using assms by (intro sum_change) (auto simp: enters_def)
  then show ?thesis
    using assms unfolding files_def by (auto simp: enters_def split: if_splits)
qed

lemma files_cong:
  assumes "nsock st' = nsock st" "path_of st' = path_of st" "unlinked st' = unlinked st"
    and "\<And>i. refc st' i = 0 \<longleftrightarrow> refc st i = 0"
  shows "files st' = files st"
  using assms by (simp add: files_def cong: if_cong)

lemma share_spec:
  assumes ok: "pool_ok st" and idx: "find_socket_info_index fd st = idx" "idx \<noteq> - 1"
    and dup: "0 \<le> dup_fd" "dup_fd < int SOCKET_FDS_MAX"
  shows "\<exists>st'. share_entry idx dup_fd st = Inr st' \<and> pool_ok st'
    \<and> fds_idx st' = (fds_idx st)(nat dup_fd := idx) \<and> nsock st' = nsock st \<and> files st' = files st"
proof -
  note f = find_index [OF ok idx]
  define st1 where "st1 = swrap_inc_refcount idx st"
  define st2 where "st2 = swrap_remove_stale dup_fd st1"
  have "refc st (nat idx) = card (owners st (nat idx))"
    using ok f(5) by (simp add: pool_inv_def)
  then have used: "refc st (nat idx) \<noteq> 0" using f(6) by auto
  note inc = inc_simps [OF f(5) refcount_room [OF ok f(5)], folded st1_def]
  have inv1: "pool_inv {} ((\<lambda>_. 0)(nat idx := 1)) st1"
    using inc_inv [OF ok f(5)] used by (simp add: st1_def SOCKET_FDS_MAX_def SOCKET_WRAPPER_MAX_SOCKETS_LIMIT_def)
  have f1: "files st1 = files st"
    by (rule files_cong) (use inc used in auto)
  have two: "pool_inv {} ((\<lambda>_. 0)(nat idx := 1)) st2 \<and> fds_idx st2 = (fds_idx st)(nat dup_fd := - 1)
      \<and> nsock st2 = nsock st \<and> files st2 = files st"
  proof (cases "find_socket_info_index dup_fd st1 = - 1")
    case True
    then have "fds_idx st1 (nat dup_fd) = - 1"
      using dup inv1 by (auto simp: find_socket_info_index_def pool_inv_def split: if_splits)
    moreover have "st2 = st1" using True by (simp add: st2_def swrap_remove_stale_def)
    ultimately show ?thesis using inv1 inc f1 by (auto simp: fun_eq_iff)
  next
    case False
    have n: "nat (find_socket_info_index dup_fd st1) < nsock st1"
      by (rule find_index(5) [OF inv1 refl False])
    from remove_stale_drops [OF inv1 False] show ?thesis
      unfolding st2_def using drops_files [OF _ n] inc f1 by (auto simp: drops_def)
  qed
  let ?st = "st2\<lparr>fds_idx := (fds_idx st2)(nat dup_fd := idx)\<rparr>"
  have set: "set_socket_info_index dup_fd idx st2 = Inr ?st"
    using dup by (simp add: set_socket_info_index_def)
  have "pool_ok ?st"
    using enter_inv [OF _ f(4) _ _ set, of "\<lambda>_. 0"] two f by simp
  moreover have "files ?st = files st2"
    by (rule files_cong) (simp_all add: nsock_def path_of_def refc_def fun_eq_iff)
  moreover have "fds_idx ?st = (fds_idx st)(nat dup_fd := idx)" "nsock ?st = nsock st2"
    using two by (simp_all add: nsock_def)
  ultimately show ?thesis
    using two set unfolding st1_def [symmetric] st2_def [symmetric]
    by (intro exI [of _ ?st] conjI) simp_all
qed

section \<open>The table as a map\<close>

text \<open>
  What the operations promise: a map from descriptors to entries, in which dropping removes a
  descriptor and sharing gives a second descriptor to an entry; neither changes the socket
  files that exist or have been removed, taken together (\<open>content\<close>).
\<close>

locale descriptor_table =
  fixes inv :: "'s \<Rightarrow> bool"
    and view :: "'s \<Rightarrow> int \<Rightarrow> 'e option"
    and content :: "'s \<Rightarrow> 'c"
    and drop_fd :: "int \<Rightarrow> 's \<Rightarrow> 's"
  assumes inv_drop: "inv s \<Longrightarrow> inv (drop_fd fd s)"
    and view_drop: "inv s \<Longrightarrow> view (drop_fd fd s) = (view s)(fd := None)"
    and content_drop: "inv s \<Longrightarrow> content (drop_fd fd s) = content s"
begin

lemma drop_all:
  assumes "inv s"
  shows "inv (fold drop_fd fds s) \<and> view (fold drop_fd fds s) = (\<lambda>fd. if fd \<in> set fds then None else view s fd)
    \<and> content (fold drop_fd fds s) = content s"
  using assms
proof (induction fds arbitrary: s)
  case (Cons fd fds)
  then show ?case
    using Cons.IH [of "drop_fd fd s"] inv_drop view_drop content_drop by (auto simp: fun_eq_iff)
qed simp

lemma drop_missing: "inv s \<Longrightarrow> view s fd = None \<Longrightarrow> view (drop_fd fd s) = view s"
  using view_drop by auto

end

locale sharing_table = descriptor_table +
  fixes valid :: "int \<Rightarrow> bool"
    and share :: "int \<Rightarrow> int \<Rightarrow> 's \<Rightarrow> 's option"
  assumes share_ok: "inv s \<Longrightarrow> view s fd = Some e \<Longrightarrow> valid d \<Longrightarrow>
      \<exists>s'. share fd d s = Some s' \<and> inv s' \<and> view s' = (view s)(d \<mapsto> e) \<and> content s' = content s"
begin

lemma share_then_drop:
  assumes "inv s" "view s fd = Some e" "valid d" "d \<noteq> fd"
  shows "\<exists>s'. share fd d s = Some s' \<and> inv (drop_fd fd s') \<and> view (drop_fd fd s') = (view s)(d \<mapsto> e, fd := None)
    \<and> content (drop_fd fd s') = content s"
proof -
  obtain s' where "share fd d s = Some s'" "inv s'" "view s' = (view s)(d \<mapsto> e)" "content s' = content s"
    using share_ok [OF assms(1-3)] by blast
  then show ?thesis using inv_drop view_drop content_drop by auto
qed

end

definition view :: "swrap \<Rightarrow> int \<Rightarrow> int option" where
  "view st fd = (if find_socket_info_index fd st = - 1 then None else Some (find_socket_info_index fd st))"

lemma view_eq:
  assumes "pool_ok st"
  shows "view st fd = (if fd < 0 \<or> fds_idx st (nat fd) = - 1 then None else Some (fds_idx st (nat fd)))"
proof -
  have "fds_idx st (nat fd) = - 1" if "0 \<le> fd" "fd \<ge> int SOCKET_FDS_MAX"
    using assms that by (force simp: pool_inv_def)
  then show ?thesis
    using assms by (auto simp: view_def find_socket_info_index_def pool_inv_def)
qed

lemma view_upd:
  assumes "pool_ok st" "pool_ok st'" "fds_idx st' = (fds_idx st)(nat fd := v)" "0 \<le> fd"
  shows "view st' = (view st)(fd := if v = - 1 then None else Some v)"
proof
  fix g
  show "view st' g = ((view st)(fd := if v = - 1 then None else Some v)) g"
    using assms by (cases "g = fd") (auto simp: view_eq nat_eq_iff)
qed

lemma drop_laws:
  assumes ok: "pool_ok st"
    and st': "if find_socket_info_index fd st = - 1 then st' = st
      else pool_ok st' \<and> drops fd (find_socket_info_index fd st) st st'"
  shows "pool_ok st' \<and> view st' = (view st)(fd := None) \<and> files st' = files st"
proof (cases "find_socket_info_index fd st = - 1")
  case True
  then show ?thesis using assms by (auto simp: view_def fun_eq_iff)
next
  case False
  note f = find_index [OF ok refl False]
  have "files st' = files st"
    using False st' f(5) by (intro drops_files [of fd "find_socket_info_index fd st"]) simp_all
  with False st' view_upd [OF ok _ _ f(1), of st' "- 1"] show ?thesis
    by (simp add: drops_def)
qed

lemma stale_laws:
  "pool_ok st \<Longrightarrow> pool_ok (swrap_remove_stale fd st) \<and> view (swrap_remove_stale fd st) = (view st)(fd := None)
    \<and> files (swrap_remove_stale fd st) = files st"
  by (rule drop_laws) (auto simp: remove_stale_drops, simp add: swrap_remove_stale_def)

lemma close_laws:
  "pool_ok st \<Longrightarrow> pool_ok (snd (swrap_close getenv oses fd r st))
    \<and> view (snd (swrap_close getenv oses fd r st)) = (view st)(fd := None)
    \<and> files (snd (swrap_close getenv oses fd r st)) = files st"
  by (rule drop_laws) (auto simp: close_drops, simp add: swrap_close_def)

interpretation stale: descriptor_table pool_ok view files swrap_remove_stale
  by unfold_locales (simp_all add: stale_laws)

interpretation closing: descriptor_table pool_ok view files "\<lambda>fd st. snd (swrap_close getenv oses fd (r fd) st)"
  for getenv oses r
  by unfold_locales (simp_all add: close_laws)

lemma share_laws:
  assumes ok: "pool_ok st" and e: "view st fd = Some e" and d: "0 \<le> d" "d < int SOCKET_FDS_MAX"
  shows "\<exists>st'. share_entry e d st = Inr st' \<and> pool_ok st' \<and> view st' = (view st)(d \<mapsto> e) \<and> files st' = files st"
proof -
  have idx: "find_socket_info_index fd st = e" "e \<noteq> - 1"
    using e by (auto simp: view_def split: if_splits)
  obtain st' where st': "share_entry e d st = Inr st'" "pool_ok st'" "fds_idx st' = (fds_idx st)(nat d := e)"
      "files st' = files st"
    using share_spec [OF ok idx d] by blast
  with view_upd [OF ok st'(2,3) d(1)] idx(2) show ?thesis by auto
qed

definition granted :: "fault + int sysres \<times> swrap \<Rightarrow> swrap option" where
  "granted r = (case r of Inr (Inr _, st) \<Rightarrow> Some st | _ \<Rightarrow> None)"

lemma granted_simps [simp]:
  "granted (Inl f) = None" "granted (Inr (Inl e, st)) = None" "granted (Inr (Inr d, st)) = Some st"
  by (simp_all add: granted_def)

lemma dup_laws:
  assumes "pool_ok st" "view st fd = Some e" "0 \<le> d \<and> d < int SOCKET_FDS_MAX"
  shows "\<exists>st'. swrap_dup fd (Inr d) st = Inr (Inr d, st') \<and> pool_ok st' \<and> view st' = (view st)(d \<mapsto> e)
    \<and> files st' = files st"
proof -
  have idx: "find_socket_info_index fd st = e" "e \<noteq> - 1"
    using assms(2) by (auto simp: view_def split: if_splits)
  show ?thesis
    using share_laws [OF assms(1,2), of d] assms(3) idx by (auto simp: swrap_dup_def Let_def)
qed

lemma fcntl_laws:
  assumes "pool_ok st" "view st fd = Some e" "0 \<le> d \<and> d < int SOCKET_FDS_MAX"
  shows "\<exists>st'. swrap_vfcntl fd True (Inr d) st = Inr (Inr d, st') \<and> pool_ok st' \<and> view st' = (view st)(d \<mapsto> e)
    \<and> files st' = files st"
proof -
  have idx: "find_socket_info_index fd st = e" "e \<noteq> - 1"
    using assms(2) by (auto simp: view_def split: if_splits)
  show ?thesis
    using share_laws [OF assms(1,2), of d] assms(3) idx by (auto simp: swrap_vfcntl_def Let_def)
qed

lemma dup2_laws:
  assumes ok: "pool_ok st" and e: "view st fd = Some e" and d: "0 \<le> d \<and> d < int SOCKET_FDS_MAX"
  shows "\<exists>st'. swrap_dup2 getenv oses fd d r (Inr d) st = Inr (Inr d, st') \<and> pool_ok st'
    \<and> view st' = (view st)(d \<mapsto> e) \<and> files st' = files st"
proof (cases "fd = d")
  case True
  then show ?thesis
    using assms by (auto simp: swrap_dup2_def view_def fun_eq_iff split: if_splits)
next
  case False
  define st1 where "st1 = (if find_socket_info_index d st \<noteq> - 1 then snd (swrap_close getenv oses d r st) else st)"
  have st1: "pool_ok st1 \<and> view st1 = (view st)(d := None) \<and> files st1 = files st"
    using close_laws [OF ok, of getenv oses d r] ok by (auto simp: st1_def view_def fun_eq_iff)
  then have "view st1 fd = Some e" using e False by simp
  from share_laws [OF _ this, of d] st1 d obtain st' where
    "share_entry e d st1 = Inr st'" "pool_ok st'" "view st' = (view st)(d \<mapsto> e)" "files st' = files st"
    by auto
  moreover have "find_socket_info_index fd st = e" "e \<noteq> - 1"
    using e by (auto simp: view_def split: if_splits)
  ultimately show ?thesis
    using False by (simp add: swrap_dup2_def Let_def st1_def [symmetric])
qed

interpretation duplicating: sharing_table pool_ok view files swrap_remove_stale
    "\<lambda>d. 0 \<le> d \<and> d < int SOCKET_FDS_MAX" "\<lambda>fd d st. granted (swrap_dup fd (Inr d) st)"
proof unfold_locales
  fix s fd e d
  assume "pool_ok s" "view s fd = Some e" "0 \<le> d \<and> d < int SOCKET_FDS_MAX"
  then show "\<exists>s'. granted (swrap_dup fd (Inr d) s) = Some s' \<and> pool_ok s' \<and> view s' = (view s)(d \<mapsto> e) \<and> files s' = files s"
    using dup_laws [of s fd e d] by fastforce
qed

interpretation moving: sharing_table pool_ok view files "\<lambda>fd st. snd (swrap_close getenv oses fd r st)"
    "\<lambda>d. 0 \<le> d \<and> d < int SOCKET_FDS_MAX" "\<lambda>fd d st. granted (swrap_dup2 getenv oses fd d r (Inr d) st)"
  for getenv oses r
proof unfold_locales
  fix s fd e d
  assume "pool_ok s" "view s fd = Some e" "0 \<le> d \<and> d < int SOCKET_FDS_MAX"
  then show "\<exists>s'. granted (swrap_dup2 getenv oses fd d r (Inr d) s) = Some s' \<and> pool_ok s'
      \<and> view s' = (view s)(d \<mapsto> e) \<and> files s' = files s"
    using dup2_laws [of s fd e d getenv oses r] by fastforce
qed

section \<open>Reachable tables\<close>

lemma chain_upt:
  assumes "\<And>i. a \<le> i \<Longrightarrow> i < b \<Longrightarrow> nx i = (if i = b - 1 then - 1 else int (i + 1))" "a < b"
  shows "chain nx (int a) [a..<b]"
  using assms
proof (induction "b - a" arbitrary: a)
  case (Suc k)
  show ?case
  proof (cases "Suc a = b")
    case True
    then show ?thesis using Suc.prems by (simp add: upt_conv_Cons)
  next
    case False
    then have "chain nx (int (Suc a)) [Suc a..<b]"
      using Suc by (intro Suc.hyps) auto
    then show ?thesis
      using Suc.prems False by (simp add: upt_conv_Cons)
  qed
qed simp


lemma init_pool_ok:
  assumes "socket_wrapper_init_sockets getenv True True True swrap0 = Some st"
  shows "pool_ok st \<and> files st = {#}"
proof -
  define n where "n = socket_wrapper_max_sockets getenv 0"
  have n: "0 < n" by (simp add: n_def max_sockets_range)
  have st: "st = swrap0\<lparr>ready := True, fds_idx := (\<lambda>_. - 1), first_free := 0,
                       sockets := map (fresh_container n) [0..<n]\<rparr>"
    using assms by (simp add: socket_wrapper_init_sockets_def swrap0_def n_def Let_def)
  have f: "nsock st = n" "first_free st = 0" "unlinked st = []" "owners st i = {}" "ready st" "fds_idx st fd = - 1" for i fd
    by (simp_all add: st nsock_def owners_def swrap0_def)
  have c: "refc st i = 0" "nxt st i = (if i = n - 1 then - 1 else int (i + 1))" if "i < n" for i
    using that by (simp_all add: st refc_def nxt_def fresh_container_def)
  have "chain (nxt st) (int 0) [0..<n]"
    by (rule chain_upt [OF _ n]) (simp add: c)
  then have "free_list {} st [0..<n]"
    by (auto simp: free_list_def f c)
  then have "pool_ok st" by (auto simp: pool_inv_def f c)
  moreover have "files st = {#}" by (simp add: files_def f c cong: if_cong)
  ultimately show ?thesis ..
qed

lemma share_any:
  assumes ok: "pool_ok st" and idx: "find_socket_info_index fd st = e" "e \<noteq> - 1"
    and r: "share_entry e d st = Inr st'"
  shows "pool_ok st' \<and> files st' = files st"
proof -
  have "0 \<le> d" "d < int SOCKET_FDS_MAX"
    using r by (auto simp: set_socket_info_index_def split: if_splits)
  with share_spec [OF ok idx] r show ?thesis by fastforce
qed

lemma dup_any:
  "pool_ok st \<Longrightarrow> swrap_dup fd res st = Inr (x, st') \<Longrightarrow> pool_ok st' \<and> files st' = files st"
  using share_any [of st fd]
  by (auto simp: swrap_dup_def Let_def split: if_splits sum.splits)

lemma fcntl_any:
  "pool_ok st \<Longrightarrow> swrap_vfcntl fd c res st = Inr (x, st') \<Longrightarrow> pool_ok st' \<and> files st' = files st"
  using share_any [of st fd]
  by (auto simp: swrap_vfcntl_def Let_def split: if_splits sum.splits)

lemma dup2_any:
  assumes ok: "pool_ok st" and r: "swrap_dup2 getenv oses fd newfd lc res st = Inr (x, st')"
  shows "pool_ok st' \<and> files st' = files st"
proof (cases "find_socket_info_index fd st = - 1 \<or> fd = newfd")
  case True
  then show ?thesis using assms by (auto simp: swrap_dup2_def Let_def split: if_splits)
next
  case False
  define st1 where "st1 = (if find_socket_info_index newfd st \<noteq> - 1
    then snd (swrap_close getenv oses newfd lc st) else st)"
  have st1: "pool_ok st1 \<and> view st1 = (view st)(newfd := None) \<and> files st1 = files st"
    using close_laws [OF ok, of getenv oses newfd lc] ok by (auto simp: st1_def view_def fun_eq_iff)
  then have "view st1 fd = view st fd" using False by simp
  then have i: "find_socket_info_index fd st1 = find_socket_info_index fd st"
    using False by (auto simp: view_def split: if_splits)
  then have "find_socket_info_index fd st1 \<noteq> - 1" using False by simp
  from share_any [OF _ refl this] show ?thesis
    using r False st1 i by (auto simp: swrap_dup2_def Let_def st1_def [symmetric] split: sum.splits)
qed

text \<open>
  Runs of the library after initialisation. \<open>created\<close> collects the paths that were given to
  entries: by creation, and by \<open>swrap_auto_bind\<close>, which binds an entry that has none yet. A new socket's
  descriptor has its stale entry removed first.
\<close>

definition new_path :: "string \<Rightarrow> string multiset" where
  "new_path p = (if p \<noteq> '''' then {#p#} else {#})"

inductive table_run :: "swrap \<Rightarrow> string multiset \<Rightarrow> bool" where
  run_init: "socket_wrapper_init_sockets getenv True True True swrap0 = Some st \<Longrightarrow> table_run st {#}"
| run_socket: "table_run st created \<Longrightarrow> swrap_create_socket si fd (swrap_remove_stale fd st) = (r, st') \<Longrightarrow>
    table_run st' (created + (if r = None then {#} else new_path (un_addr si)))"
| run_bind: "table_run st created \<Longrightarrow> view st fd = Some idx \<Longrightarrow> path_of st (nat idx) = '''' \<Longrightarrow>
    table_run (set_info idx si st) (created + new_path (un_addr si))"
| run_update: "table_run st created \<Longrightarrow> view st fd = Some idx \<Longrightarrow> un_addr si = path_of st (nat idx) \<Longrightarrow>
    table_run ((set_info idx si st)\<lparr>pcap := pc\<rparr>) created"
| run_close: "table_run st created \<Longrightarrow> table_run (snd (swrap_close getenv oses fd r st)) created"
| run_dup: "table_run st created \<Longrightarrow> swrap_dup fd res st = Inr (x, st') \<Longrightarrow> table_run st' created"
| run_dup2: "table_run st created \<Longrightarrow> swrap_dup2 getenv oses fd newfd r res st = Inr (x, st') \<Longrightarrow> table_run st' created"
| run_fcntl: "table_run st created \<Longrightarrow> swrap_vfcntl fd c res st = Inr (x, st') \<Longrightarrow> table_run st' created"
| run_eventfd: "table_run st created \<Longrightarrow> table_run (snd (swrap_eventfd res st)) created"
| run_timerfd: "table_run st created \<Longrightarrow> table_run (snd (swrap_timerfd_create res st)) created"
| run_signalfd: "table_run st created \<Longrightarrow> table_run (snd (swrap_signalfd fd res st)) created"
| run_socketpair: "table_run st created \<Longrightarrow> table_run (snd (swrap_socketpair res2 st)) created"
| run_pipe: "table_run st created \<Longrightarrow> table_run (snd (swrap_pipe res2 st)) created"

lemma view_live:
  assumes "pool_inv {} pend st" "view st fd = Some idx"
  shows "0 \<le> idx" "nat idx < nsock st" "refc st (nat idx) \<noteq> 0"
proof -
  have i: "find_socket_info_index fd st = idx" "idx \<noteq> - 1"
    using assms(2) by (auto simp: view_def split: if_splits)
  note f = find_index [OF assms(1) i]
  show "0 \<le> idx" "nat idx < nsock st" using f by blast+
  have "card (owners st (nat idx)) \<noteq> 0" using f(6) by auto
  then show "refc st (nat idx) \<noteq> 0"
    using assms(1) f(5) by (simp add: pool_inv_def)
qed

lemma bind_files:
  assumes "pool_ok st" "view st fd = Some idx" "path_of st (nat idx) = ''''"
  shows "files (set_info idx si st) = files st + new_path (un_addr si)"
proof -
  note l = view_live [OF assms(1,2)]
  let ?st' = "set_info idx si st"
  let ?f = "\<lambda>i. if refc st i \<noteq> 0 \<and> path_of st i \<noteq> '''' then {#path_of st i#} else {#}"
  let ?g = "\<lambda>i. if refc ?st' i \<noteq> 0 \<and> path_of ?st' i \<noteq> '''' then {#path_of ?st' i#} else {#}"
  have p: "path_of ?st' = (path_of st)(nat idx := un_addr si)"
    using l by (auto simp: set_info_def path_of_def pool_simps fun_eq_iff)
  have "sum ?g {..<nsock st} + ?f (nat idx) = sum ?f {..<nsock st} + ?g (nat idx)"
    using l by (intro sum_change) (auto simp: p same_table_simps)
  moreover have "nsock ?st' = nsock st" "unlinked ?st' = unlinked st"
    by (simp_all add: set_info_def pool_simps)
  ultimately show ?thesis
    using l assms(3) by (simp add: files_def new_path_def p same_table_simps)
qed

lemma pair_cases: "snd (case r of Inl e \<Rightarrow> (Inl e, s) | Inr x \<Rightarrow> (Inr x, f x)) = (case r of Inl e \<Rightarrow> s | Inr x \<Rightarrow> f x)"
  by (cases r) simp_all

lemma stale_case:
  "pool_ok st \<Longrightarrow> pool_ok (case r of Inl e \<Rightarrow> st | Inr x \<Rightarrow> swrap_remove_stale (f x) st)
    \<and> files (case r of Inl e \<Rightarrow> st | Inr x \<Rightarrow> swrap_remove_stale (f x) st) = files st"
  using stale_laws by (cases r) simp_all

lemma stale_case2:
  "pool_ok st \<Longrightarrow> pool_ok (case r of Inl e \<Rightarrow> st | Inr x \<Rightarrow> swrap_remove_stale (f x) (swrap_remove_stale (g x) st))
    \<and> files (case r of Inl e \<Rightarrow> st | Inr x \<Rightarrow> swrap_remove_stale (f x) (swrap_remove_stale (g x) st)) = files st"
  using stale.drop_all [of st "[g x, f x]" for x] by (cases r) auto

lemmas fd_call_defs = swrap_eventfd_def swrap_timerfd_create_def swrap_signalfd_def swrap_socketpair_def swrap_pipe_def

lemma table_run_ok: "table_run st created \<Longrightarrow> pool_ok st \<and> files st = created"
proof (induction rule: table_run.induct)
  case (run_init getenv st)
  then show ?case by (rule init_pool_ok)
next
  case (run_socket st created si fd r st')
  then have ok: "pool_ok (swrap_remove_stale fd st)" and fl: "files (swrap_remove_stale fd st) = created"
    and free: "find_socket_info_index fd (swrap_remove_stale fd st) = - 1"
    using stale_laws [of st fd] by (auto simp: view_def fun_eq_iff split: if_splits)
  from create_socket_spec [OF ok free, of si] run_socket.hyps(2) fl ok show ?case
    by (cases r) (auto simp: enters_files new_path_def)
next
  case (run_bind st created fd idx si)
  then show ?case
    using bind_files [of st fd idx si] view_live(2) [of _ st fd idx] by auto
next
  case (run_update st created fd idx si pc)
  have n: "nat idx < nsock st" using run_update view_live(2) by blast
  then have s: "same_table st (set_info idx si st)"
    using run_update by (intro set_info_same_table) auto
  have "files ((set_info idx si st)\<lparr>pcap := pc\<rparr>) = files st"
    by (rule files_cong) (use s in \<open>simp_all add: same_table_def nsock_def refc_def path_of_def fun_eq_iff\<close>)
  then show ?case using run_update n by simp
next
  case run_close
  then show ?case using close_laws by blast
next
  case run_dup
  then show ?case using dup_any by blast
next
  case run_dup2
  then show ?case using dup2_any by blast
next
  case run_fcntl
  then show ?case using fcntl_any by blast
next
  case run_eventfd
  then show ?case unfolding fd_call_defs pair_cases using stale_case [where f = "\<lambda>x. x"] by blast
next
  case run_timerfd
  then show ?case unfolding fd_call_defs pair_cases using stale_case [where f = "\<lambda>x. x"] by blast
next
  case run_signalfd
  then show ?case unfolding fd_call_defs pair_cases using stale_case [where f = "\<lambda>_. fd" for fd] by blast
next
  case run_socketpair
  then show ?case unfolding fd_call_defs pair_cases using stale_case2 [where f = snd and g = fst] by blast
next
  case run_pipe
  then show ?case unfolding fd_call_defs pair_cases using stale_case2 [where f = snd and g = fst] by blast
qed

lemma run_exists: "\<exists>st. table_run st {#} \<and> first_free st = 0 \<and> view st = Map.empty"
proof -
  obtain st where st: "socket_wrapper_init_sockets (\<lambda>_. None) True True True swrap0 = Some st"
    by (simp add: socket_wrapper_init_sockets_def swrap0_def Let_def)
  then have "first_free st = 0 \<and> (\<forall>fd. fds_idx st fd = - 1)"
    by (auto simp: socket_wrapper_init_sockets_def swrap0_def Let_def)
  then have "first_free st = 0 \<and> view st = Map.empty"
    by (simp add: view_def find_socket_info_index_def fun_eq_iff)
  with run_init [OF st] show ?thesis by blast
qed

lemma create_view:
  assumes ok: "pool_ok st" and free: "view st fd = None" and c: "swrap_create_socket si fd st = (Some idx, st')"
  shows "view st' = (view st)(fd \<mapsto> idx)" "0 \<le> fd \<and> fd < int SOCKET_FDS_MAX" "swrap_get_socket_info idx st' = si"
proof -
  have f: "find_socket_info_index fd st = - 1" using free by (auto simp: view_def split: if_splits)
  from create_socket_spec [OF ok f, of si] c
  have e: "0 \<le> fd" "fd < int SOCKET_FDS_MAX" "pool_ok st'" "enters fd idx si st st'" by auto
  then have "fds_idx st' = (fds_idx st)(nat fd := idx)" "idx \<noteq> - 1" by (auto simp: enters_def)
  with view_upd [OF ok e(3) _ e(1)] show "view st' = (view st)(fd \<mapsto> idx)" by auto
  show "0 \<le> fd \<and> fd < int SOCKET_FDS_MAX" "swrap_get_socket_info idx st' = si"
    using e by (auto simp: enters_def)
qed

lemma run_one: "\<exists>st idx. table_run st {#''p''#} \<and> view st = [3 \<mapsto> idx]"
proof -
  let ?si = "zero_info\<lparr>un_addr := ''p''\<rparr>"
  obtain st where st: "table_run st {#}" "first_free st = 0" "view st = Map.empty"
    using run_exists by blast
  have ok: "pool_ok st" using table_run_ok [OF st(1)] ..
  have f: "find_socket_info_index 3 st = - 1"
    using fun_cong [OF st(3), of 3] by (simp add: view_def split: if_splits)
  then have rs: "swrap_remove_stale 3 st = st" by (simp add: swrap_remove_stale_def)
  obtain idx st' where c: "swrap_create_socket ?si 3 st = (Some idx, st')"
    using create_socket_spec [OF ok f, of ?si] full_pool [OF ok] st(2)
    by (cases "swrap_create_socket ?si 3 st"; cases "fst (swrap_create_socket ?si 3 st)")
      (auto simp: SOCKET_FDS_MAX_def SOCKET_WRAPPER_MAX_SOCKETS_LIMIT_def)
  have "swrap_create_socket ?si 3 (swrap_remove_stale 3 st) = (Some idx, st')"
    by (simp only: rs c)
  note run_socket [OF st(1) this]
  moreover have "view st' = [3 \<mapsto> idx]"
    using create_view(1) [OF ok _ c] st(3) by simp
  ultimately show ?thesis by (auto simp: new_path_def)
qed

lemma live_iff_view:
  assumes ok: "pool_ok st" and i: "i < nsock st"
  shows "refc st i \<noteq> 0 \<longleftrightarrow> (\<exists>fd. view st fd = Some (int i))"
proof
  assume "refc st i \<noteq> 0"
  then have "owners st i \<noteq> {}" using ok i by (auto simp: pool_inv_def)
  then obtain fd where "fd \<in> owners st i" by blast
  then have "view st (int fd) = Some (int i)"
    using view_eq [OF ok] by (simp add: owners_def)
  then show "\<exists>fd. view st fd = Some (int i)" ..
next
  assume "\<exists>fd. view st fd = Some (int i)"
  then show "refc st i \<noteq> 0" using view_live(3) [OF ok] by fastforce
qed

text \<open>The invariant in terms of the map.\<close>

lemma pool_consistent:
  assumes ok: "pool_ok st"
  shows "(\<forall>i < nsock st. refc st i = card {fd. view st fd = Some (int i)})
    \<and> (\<exists>fl. chain (nxt st) (first_free st) fl \<and> distinct fl
        \<and> set fl = {i. i < nsock st \<and> (\<forall>fd. view st fd \<noteq> Some (int i))})
    \<and> (\<forall>fd. case view st fd of None \<Rightarrow> True | Some e \<Rightarrow> 0 \<le> e \<and> nat e < nsock st)"
proof -
  have o: "{fd. view st fd = Some (int i)} = int ` owners st i" for i
  proof (rule set_eqI)
    fix fd
    show "fd \<in> {fd. view st fd = Some (int i)} \<longleftrightarrow> fd \<in> int ` owners st i"
      using ok view_eq [OF ok, of fd]
      by (auto simp: owners_def pool_inv_def image_iff split: if_splits intro!: exI [of _ "nat fd"])
  qed
  then have c: "card {fd. view st fd = Some (int i)} = card (owners st i)" for i
    by (simp add: card_image)
  have e: "(\<forall>fd. view st fd \<noteq> Some (int i)) \<longleftrightarrow> owners st i = {}" for i
    using o [of i] by auto
  have r: "refc st i = 0 \<longleftrightarrow> owners st i = {}" if "i < nsock st" for i
    using ok that by (simp add: pool_inv_def)
  have "{i. i < nsock st \<and> (\<forall>fd. view st fd \<noteq> Some (int i))} = {i. i < nsock st \<and> refc st i = 0}"
    using e r by blast
  then have "\<exists>fl. chain (nxt st) (first_free st) fl \<and> distinct fl
        \<and> set fl = {i. i < nsock st \<and> (\<forall>fd. view st fd \<noteq> Some (int i))}"
    using ok by (auto simp: pool_inv_def free_list_def)
  moreover have "\<forall>i < nsock st. refc st i = card {fd. view st fd = Some (int i)}"
    using ok c by (simp add: pool_inv_def)
  ultimately show ?thesis
    using view_live [OF ok] by (auto split: option.split)
qed

section \<open>Properties\<close>

text \<open>
  The descriptor table is consistent in every run: whatever calls are made and whatever
  libc returns to them, every entry's reference count is the number of descriptors that lead
  to it, the free list holds exactly the entries without a descriptor, each once, and every
  descriptor in the table leads to an entry of the array.
\<close>

theorem table_consistent:
  assumes "table_run st created"
  shows "(\<forall>i < nsock st. refc st i = card {fd. view st fd = Some (int i)})
    \<and> (\<exists>fl. chain (nxt st) (first_free st) fl \<and> distinct fl
        \<and> set fl = {i. i < nsock st \<and> (\<forall>fd. view st fd \<noteq> Some (int i))})
    \<and> (\<forall>fd. case view st fd of None \<Rightarrow> True | Some e \<Rightarrow> 0 \<le> e \<and> nat e < nsock st)"
  by (rule pool_consistent) (use table_run_ok [OF assms] in blast)

theorem table_consistent_witness:
  "\<exists>st idx. table_run st {#''p''#} \<and> view st 3 = Some idx \<and> 0 \<le> idx \<and> nat idx < nsock st"
proof -
  obtain st idx where st: "table_run st {#''p''#}" "view st = [3 \<mapsto> idx]" using run_one by blast
  then have "view st 3 = Some idx" by simp
  with st(1) table_consistent [OF st(1), THEN conjunct2, THEN conjunct2, THEN spec, of 3] show ?thesis by auto
qed

text \<open>
  No socket file leaks and none is removed twice: in every run the paths given to entries
  are, as a multiset, those removed so far together with those of the entries in use; so when
  no descriptor is left, every file created has been removed exactly once.
\<close>

theorem no_file_leaks:
  assumes "table_run st created"
  shows "created = mset (unlinked st)
      + (\<Sum>i < nsock st. if (\<exists>fd. view st fd = Some (int i)) then new_path (path_of st i) else {#})
    \<and> ((\<forall>fd. view st fd = None) \<longrightarrow> mset (unlinked st) = created)"
proof -
  have ok: "pool_ok st" and f: "files st = created" using table_run_ok [OF assms] by blast+
  note live = live_iff_view [OF ok]
  have "(\<Sum>i < nsock st. if refc st i \<noteq> 0 \<and> path_of st i \<noteq> '''' then {#path_of st i#} else {#})
     = (\<Sum>i < nsock st. if (\<exists>fd. view st fd = Some (int i)) then new_path (path_of st i) else {#})"
    by (intro sum.cong refl) (use live in \<open>fastforce simp: new_path_def\<close>)
  with f show ?thesis by (auto simp: files_def)
qed

theorem no_file_leaks_witness:
  "\<exists>st. table_run st {#''p''#} \<and> mset (unlinked st) = {#''p''#}"
proof -
  obtain st idx where st: "table_run st {#''p''#}" "view st = [3 \<mapsto> idx]" using run_one by blast
  let ?st = "snd (swrap_close (\<lambda>_. None) (\<lambda>_. os_ok) 3 (Inr ()) st)"
  have "view ?st = Map.empty"
    using close_laws [of st "\<lambda>_. None" "\<lambda>_. os_ok" 3 "Inr ()"] table_run_ok [OF st(1)] st(2) by simp
  moreover have "table_run ?st {#''p''#}" by (rule run_close [OF st(1)])
  ultimately show ?thesis using no_file_leaks [of ?st] by auto
qed

text \<open>
  dup, dup2 and fcntl with \<open>F_DUPFD\<close> share: on success the new descriptor leads to the entry
  of the old one and no other descriptor is redirected, and the old descriptor can then be
  closed without the new one losing its socket or its file.
\<close>

theorem dup_then_close:
  assumes "table_run st created" "view st fd = Some e" "0 \<le> d \<and> d < int SOCKET_FDS_MAX" "d \<noteq> fd"
  shows "\<exists>s1 s2 s3. swrap_dup fd (Inr d) st = Inr (Inr d, s1) \<and> swrap_vfcntl fd True (Inr d) st = Inr (Inr d, s2)
    \<and> swrap_dup2 getenv oses fd d r (Inr d) st = Inr (Inr d, s3)
    \<and> view s1 = (view st)(d \<mapsto> e) \<and> view s2 = (view st)(d \<mapsto> e) \<and> view s3 = (view st)(d \<mapsto> e)
    \<and> view (snd (swrap_close getenv oses fd r s3)) = (view st)(d \<mapsto> e, fd := None)
    \<and> files (snd (swrap_close getenv oses fd r s3)) = created"
proof -
  have ok: "pool_ok st" and f: "files st = created" using table_run_ok [OF assms(1)] by blast+
  obtain s3 where s3: "swrap_dup2 getenv oses fd d r (Inr d) st = Inr (Inr d, s3)" "view s3 = (view st)(d \<mapsto> e)"
    using dup2_laws [OF ok assms(2,3)] by blast
  from moving.share_then_drop [OF ok assms(2,3,4), of getenv oses r] s3 f
  have "view (snd (swrap_close getenv oses fd r s3)) = (view st)(d \<mapsto> e, fd := None)"
    "files (snd (swrap_close getenv oses fd r s3)) = created" by auto
  with s3 dup_laws [OF ok assms(2,3)] fcntl_laws [OF ok assms(2,3)] show ?thesis by blast
qed

theorem dup_then_close_witness:
  "\<exists>st s1 idx. swrap_dup 3 (Inr 4) st = Inr (Inr 4, s1) \<and> view s1 = [3 \<mapsto> idx, 4 \<mapsto> idx]"
proof -
  obtain st idx where st: "table_run st {#''p''#}" "view st = [3 \<mapsto> idx]" using run_one by blast
  have d: "(0::int) \<le> 4 \<and> 4 < int SOCKET_FDS_MAX"
    by (simp add: SOCKET_FDS_MAX_def SOCKET_WRAPPER_MAX_SOCKETS_LIMIT_def)
  from dup_then_close [OF st(1) _ d, of 3 idx "\<lambda>_. None" "\<lambda>_. os_ok" "Inr ()"] st(2)
  show ?thesis by auto
qed

text \<open>
  A new socket gets an entry of its own: creation fails exactly if the descriptor is out of
  the table or every entry is in use (then nothing changes), and otherwise the descriptor
  leads to an entry no descriptor led to, holding exactly the new socket's information, while
  every other descriptor keeps its entry and its information.
\<close>

theorem create_takes_free_entry:
  assumes "table_run st created" "view st fd = None" "swrap_create_socket si fd st = (r, st')"
  shows "(r = None \<longleftrightarrow> fd < 0 \<or> fd \<ge> int SOCKET_FDS_MAX \<or> (\<forall>i < nsock st. \<exists>g. view st g = Some (int i)))
    \<and> (case r of None \<Rightarrow> st' = st
       | Some e \<Rightarrow> view st' = (view st)(fd \<mapsto> e) \<and> swrap_get_socket_info e st' = si
           \<and> (\<forall>g. view st g \<noteq> Some e))"
proof -
  have ok: "pool_ok st" using table_run_ok [OF assms(1)] ..
  have f: "find_socket_info_index fd st = - 1" using assms(2) by (auto simp: view_def split: if_splits)
  have live: "refc st i \<noteq> 0 \<longleftrightarrow> (\<exists>g. view st g = Some (int i))" if "i < nsock st" for i
    using live_iff_view [OF ok that] .
  show ?thesis
  proof (cases r)
    case None
    then show ?thesis
      using create_socket_spec [OF ok f, of si] assms(3) live by auto
  next
    case (Some e)
    then have c: "swrap_create_socket si fd st = (Some e, st')" using assms(3) by simp
    have e: "0 \<le> e" "nat e < nsock st" "refc st (nat e) = 0" "0 \<le> fd" "fd < int SOCKET_FDS_MAX"
      using create_socket_spec [OF ok f, of si] c by (auto simp: enters_def)
    then have "\<forall>g. view st g \<noteq> Some e" using live [of "nat e"] by auto
    with Some e create_view [OF ok assms(2) c] show ?thesis by force
  qed
qed

theorem create_takes_free_entry_witness:
  "\<exists>st r st' e. swrap_create_socket zero_info 7 st = (r, st') \<and> view st = [3 \<mapsto> e]
    \<and> (r = None \<longleftrightarrow> (\<forall>i < nsock st. \<exists>g. view st g = Some (int i)))"
proof -
  obtain st e where st: "table_run st {#''p''#}" "view st = [3 \<mapsto> e]" using run_one by blast
  obtain r st' where c: "swrap_create_socket zero_info 7 st = (r, st')" by fastforce
  have "\<not> (7::int) < 0 \<and> \<not> 7 \<ge> int SOCKET_FDS_MAX"
    by (simp add: SOCKET_FDS_MAX_def SOCKET_WRAPPER_MAX_SOCKETS_LIMIT_def)
  moreover have "view st 7 = None" using st(2) by simp
  ultimately show ?thesis
    using create_takes_free_entry [OF st(1) _ c] c st(2) by blast
qed

lemma no_descriptors_files:
  assumes "pool_ok st" "view st = Map.empty"
  shows "files st = mset (unlinked st)"
proof -
  have "refc st i = 0" if "i < nsock st" for i
    using live_iff_view [OF assms(1) that] assms(2) by simp
  then have "(\<Sum>i < nsock st. if refc st i \<noteq> 0 \<and> path_of st i \<noteq> '''' then {#path_of st i#} else {#}) = {#}"
    by (intro sum.neutral) simp
  then show ?thesis by (simp add: files_def)
qed

lemma destructor_fold:
  assumes "pool_ok st" "\<forall>i \<in> set is. i < SOCKET_FDS_MAX"
  shows "fold (\<lambda>i st. if fds_idx st i \<noteq> - 1 then snd (swrap_close getenv oses (int i) (lc i) st) else st) is st
    = fold (\<lambda>fd st. snd (swrap_close getenv oses fd (lc (nat fd)) st)) (map int is) st"
  using assms
proof (induction "is" arbitrary: st)
  case (Cons i "is")
  have "snd (swrap_close getenv oses (int i) (lc i) st) = st" if "fds_idx st i = - 1"
    using that by (simp add: swrap_close_def find_socket_info_index_def)
  moreover have "pool_ok (snd (swrap_close getenv oses (int i) (lc i) st))"
    using close_laws [OF Cons.prems(1)] by blast
  ultimately show ?case
    using Cons by auto
qed simp



text \<open>
  The table trusts the descriptors libc returns: \<open>dup\<close>, \<open>dup2\<close> and \<open>F_DUPFD\<close> of a wrapped
  socket store outside the table for a new descriptor of \<open>SOCKET_FDS_MAX\<close> or more, which
  \<open>swrap_create_socket\<close> refuses and the lookup excludes.
\<close>

theorem dup_store_unchecked:
  assumes "table_run st created" "view st fd = Some e" "d \<ge> int SOCKET_FDS_MAX" "d \<noteq> fd"
  shows "swrap_dup fd (Inr d) st = Inl (TableOverrun d)
    \<and> swrap_vfcntl fd True (Inr d) st = Inl (TableOverrun d)
    \<and> swrap_dup2 getenv oses fd d r (Inr d) st = Inl (TableOverrun d)
    \<and> fst (swrap_create_socket si d st) = None"
proof -
  have idx: "find_socket_info_index fd st = e" "e \<noteq> - 1" "find_socket_info_index d st = - 1"
    using assms(2,3) by (auto simp: view_def find_socket_info_index_def split: if_splits)
  have "share_entry e d s = Inl (TableOverrun d)" for s
    using assms(3) by (simp add: set_socket_info_index_def)
  with idx assms(3,4) show ?thesis
    by (auto simp: swrap_dup_def swrap_vfcntl_def swrap_dup2_def swrap_create_socket_def Let_def)
qed

theorem dup_store_unchecked_witness:
  "\<exists>st. swrap_dup 3 (Inr (int SOCKET_FDS_MAX)) st = Inl (TableOverrun (int SOCKET_FDS_MAX))"
proof -
  obtain st e where st: "table_run st {#''p''#}" "view st = [3 \<mapsto> e]" using run_one by blast
  then have e: "view st 3 = Some e" by simp
  have "int SOCKET_FDS_MAX \<noteq> 3" by (simp add: SOCKET_FDS_MAX_def SOCKET_WRAPPER_MAX_SOCKETS_LIMIT_def)
  from dup_store_unchecked [OF st(1) e order_refl this] show ?thesis by blast
qed

text \<open>
  The calls that make other descriptors drop a stale entry of the descriptor they return, so
  it is not taken for a wrapped socket: \<open>eventfd\<close>, \<open>timerfd_create\<close>, \<open>pipe\<close> and \<open>socketpair\<close> do,
  on success only; \<open>signalfd\<close> drops the entry of its argument instead, and a stale entry of
  the descriptor it returns survives.
\<close>

theorem stale_entries_dropped:
  assumes "table_run st created"
  shows "view (snd (swrap_eventfd (Inr rc) st)) = (view st)(rc := None)
    \<and> view (snd (swrap_timerfd_create (Inr rc) st)) = (view st)(rc := None)
    \<and> view (snd (swrap_pipe (Inr (a, b)) st)) = (view st)(a := None, b := None)
    \<and> view (snd (swrap_socketpair (Inr (a, b)) st)) = (view st)(a := None, b := None)
    \<and> snd (swrap_eventfd (Inl e) st) = st \<and> snd (swrap_pipe (Inl e) st) = st
    \<and> view (snd (swrap_signalfd fd (Inr rc) st)) = (view st)(fd := None)"
proof -
  have ok: "pool_ok st" using table_run_ok [OF assms] ..
  have "view (swrap_remove_stale b (swrap_remove_stale a st)) = (view st)(a := None, b := None)"
    using stale.drop_all [OF ok, of "[a, b]"] by (auto simp: fun_eq_iff)
  then show ?thesis
    using stale_laws [OF ok] by (simp add: fd_call_defs)
qed

theorem stale_entries_dropped_witness:
  "\<exists>st e. view (snd (swrap_eventfd (Inr 3) st)) = Map.empty \<and> view (snd (swrap_signalfd (- 1) (Inr 3) st)) = [3 \<mapsto> e]"
proof -
  obtain st e where st: "table_run st {#''p''#}" "view st = [3 \<mapsto> e]" using run_one by blast
  from stale_entries_dropped [OF st(1), of 3 0 0 ENOENT "- 1"] st(2)
  have "view (snd (swrap_eventfd (Inr 3) st)) = Map.empty" "view (snd (swrap_signalfd (- 1) (Inr 3) st)) = [3 \<mapsto> e]"
    by (auto simp: fun_eq_iff)
  then show ?thesis by blast
qed

end
