(* ===== verification/Swrap_Addr.thy ===== *)
theory Swrap_Addr
  imports Swrap_Pool
begin

text \<open>
  Addresses in socket_wrapper.c: an IPv4 or IPv6 socket address is the path of a Unix socket in
  the wrapper's directory, whose last component is a letter for protocol and family, the
  interface in two and the port in four hexadecimal digits. The theory holds the conversions in
  both directions with the allocation of ephemeral ports, and what they keep. \<open>dir\<close> is what
  \<open>socket_wrapper_dir\<close> returns, \<open>exists_path\<close> says whether \<open>stat\<close> of a path returns 0.
\<close>

section \<open>Paths\<close>

definition SUN_PATH :: nat where "SUN_PATH = 108"

definition SOCKET_TYPE_CHAR_TCP :: char where "SOCKET_TYPE_CHAR_TCP = CHR ''T''"
definition SOCKET_TYPE_CHAR_UDP :: char where "SOCKET_TYPE_CHAR_UDP = CHR ''U''"
definition SOCKET_TYPE_CHAR_TCP_V6 :: char where "SOCKET_TYPE_CHAR_TCP_V6 = CHR ''X''"
definition SOCKET_TYPE_CHAR_UDP_V6 :: char where "SOCKET_TYPE_CHAR_UDP_V6 = CHR ''Y''"

lemmas type_chars = SOCKET_TYPE_CHAR_TCP_def SOCKET_TYPE_CHAR_UDP_def SOCKET_TYPE_CHAR_TCP_V6_def
  SOCKET_TYPE_CHAR_UDP_V6_def

text \<open>\<open>snprintf\<close> into \<open>sun_path\<close> keeps \<open>SUN_PATH - 1\<close> characters.\<close>

definition socket_format :: "char \<Rightarrow> nat \<Rightarrow> nat \<Rightarrow> string" where
  "socket_format t iface prt = t # print_hex 2 iface @ print_hex 4 prt"

definition sun_path :: "string \<Rightarrow> string \<Rightarrow> string" where
  "sun_path dir f = take (SUN_PATH - 1) (dir @ CHR ''/'' # f)"

definition scan_format :: "string \<Rightarrow> (char \<times> nat \<times> nat) option" where
  "scan_format p = (case p of [] \<Rightarrow> None | t # p \<Rightarrow>
     (case scan_hex 2 p of None \<Rightarrow> None | Some (iface, p) \<Rightarrow>
     (case scan_hex 4 p of None \<Rightarrow> None | Some (prt, _) \<Rightarrow> Some (t, iface, prt))))"

definition last_component :: "string \<Rightarrow> string" where
  "last_component p = rev (takeWhile (\<lambda>c. c \<noteq> CHR ''/'') (rev p))"

definition convert_un_in :: "string \<Rightarrow> nat \<Rightarrow> errno + sockaddr \<times> nat" where
  "convert_un_in un len =
     (case scan_format (last_component un) of None \<Rightarrow> Inl EINVAL | Some (t, iface, prt) \<Rightarrow>
      if iface = 0 \<or> iface > MAX_WRAPPED_INTERFACES then Inl EINVAL
      else if prt > 0xFFFF then Inl EINVAL
      else if t = SOCKET_TYPE_CHAR_TCP \<or> t = SOCKET_TYPE_CHAR_UDP then
        (if len < socket_length Inet then Inl EINVAL
         else Inr (zero_sockaddr\<lparr>sa_fam := Inet, sa_in := 0x7F000000 OR of_nat iface, sa_port := of_nat prt\<rparr>,
                   socket_length Inet))
      else if t = SOCKET_TYPE_CHAR_TCP_V6 \<or> t = SOCKET_TYPE_CHAR_UDP_V6 then
        (if len < socket_length Inet6 then Inl EINVAL
         else Inr (zero_sockaddr\<lparr>sa_fam := Inet6, sa_in6 := swrap_ipv6[15 := of_nat iface], sa_port := of_nat prt\<rparr>,
                   socket_length Inet6))
      else Inl EINVAL)"

section \<open>Addresses to paths\<close>

text \<open>Type letter and interface of a peer's address, and which kind of broadcast it is.\<close>

definition remote_target :: "env \<Rightarrow> socket_info \<Rightarrow> sockaddr \<Rightarrow> errno + char \<times> nat \<times> nat" where
  "remote_target getenv si a = (case sa_fam a of
      Inet \<Rightarrow>
        if sotype si \<noteq> Stream \<and> sotype si \<noteq> Dgram then Inl ESOCKTNOSUPPORT
        else let dgram = (sotype si = Dgram);
                 u_type = (if dgram then SOCKET_TYPE_CHAR_UDP else SOCKET_TYPE_CHAR_TCP)
             in if dgram \<and> sa_in a = 0xFFFFFFFF then Inr (u_type, socket_wrapper_default_iface getenv, 2)
                else if dgram \<and> sa_in a = 0x7FFFFFFF then Inr (u_type, socket_wrapper_default_iface getenv, 1)
                else if sa_in a AND 0xFFFFFF00 = 0x7F000000 then Inr (u_type, unat (sa_in a AND 0x000000FF), 0)
                else Inl ENETUNREACH
    | Inet6 \<Rightarrow>
        if sotype si \<noteq> Stream \<and> sotype si \<noteq> Dgram then Inl ESOCKTNOSUPPORT
        else if swrap_ipv6 = (sa_in6 a)[15 := 0] then
          Inr (if sotype si = Stream then SOCKET_TYPE_CHAR_TCP_V6 else SOCKET_TYPE_CHAR_UDP_V6,
               unat (sa_in6 a ! 15), 0)
        else Inl ENETUNREACH
    | _ \<Rightarrow> Inl ENETUNREACH)"

text \<open>The result is the path and what is stored in \<open>bcast\<close>.\<close>

definition convert_in_un_remote ::
  "env \<Rightarrow> string \<Rightarrow> socket_info \<Rightarrow> sockaddr \<Rightarrow> errno + string \<times> nat" where
  "convert_in_un_remote getenv dir si a =
     (case remote_target getenv si a of Inl e \<Rightarrow> Inl e | Inr (t, iface, is_bcast) \<Rightarrow>
      if sa_port a = 0 then Inl EINVAL
      else if is_bcast \<noteq> 0 then Inr (sun_path dir ''EINVAL'', is_bcast)
      else Inr (sun_path dir (socket_format t iface (unat (sa_port a))), 0))"

text \<open>The same for an own address, which may be the unspecified one. The family is the socket's.\<close>

definition alloc_target :: "env \<Rightarrow> socket_info \<Rightarrow> sockaddr \<Rightarrow> errno + char \<times> nat \<times> nat" where
  "alloc_target getenv si a = (case family si of
      Inet \<Rightarrow>
        if sotype si \<noteq> Stream \<and> sotype si \<noteq> Dgram then Inl ESOCKTNOSUPPORT
        else let dgram = (sotype si = Dgram);
                 u_type = (if dgram then SOCKET_TYPE_CHAR_UDP else SOCKET_TYPE_CHAR_TCP)
             in if sa_in a = 0 then Inr (u_type, socket_wrapper_default_iface getenv, 0)
                else if dgram \<and> sa_in a = 0xFFFFFFFF then Inr (u_type, socket_wrapper_default_iface getenv, 2)
                else if dgram \<and> sa_in a = 0x7FFFFFFF then Inr (u_type, socket_wrapper_default_iface getenv, 1)
                else if sa_in a AND 0xFFFFFF00 = 0x7F000000 then Inr (u_type, unat (sa_in a AND 0x000000FF), 0)
                else Inl EADDRNOTAVAIL
    | Inet6 \<Rightarrow>
        if sotype si \<noteq> Stream \<and> sotype si \<noteq> Dgram then Inl ESOCKTNOSUPPORT
        else let t = (if sotype si = Stream then SOCKET_TYPE_CHAR_TCP_V6 else SOCKET_TYPE_CHAR_UDP_V6)
             in if sa_in6 a = replicate 16 0 then Inr (t, socket_wrapper_default_iface getenv, 0)
                else if swrap_ipv6 = (sa_in6 a)[15 := 0] then Inr (t, unat (sa_in6 a ! 15), 0)
                else Inl EADDRNOTAVAIL
    | _ \<Rightarrow> Inl EADDRNOTAVAIL)"

definition store_bindname :: "sockaddr \<Rightarrow> nat \<Rightarrow> socket_info \<Rightarrow> socket_info" where
  "store_bindname a iface si =
     (if sa_socklen (bindname si) \<noteq> 0 then si
      else si\<lparr>bindname := \<lparr>sa_socklen = socket_length (family si),
        sa = (if family si = Inet
              then zero_sockaddr\<lparr>sa_fam := sa_fam a, sa_port := sa_port a, sa_in := 0x7F000000 OR of_nat iface\<rparr>
              else zero_sockaddr\<lparr>sa_fam := sa_fam a, sa_port := sa_port a, sa_in6 := swrap_ipv6[15 := of_nat iface]\<rparr>)\<rparr>\<rparr>)"

definition ephemeral_ports :: "nat list" where "ephemeral_ports = [5001..<10000]"

definition convert_in_un_alloc ::
  "env \<Rightarrow> string \<Rightarrow> (string \<Rightarrow> bool) \<Rightarrow> socket_info \<Rightarrow> sockaddr \<Rightarrow> (errno + string \<times> nat) \<times> socket_info" where
  "convert_in_un_alloc getenv dir exists_path si a =
     (case alloc_target getenv si a of Inl e \<Rightarrow> (Inl e, si) | Inr (t, iface, is_bcast) \<Rightarrow>
      let si = store_bindname a iface si
      in if iface = 0 \<or> iface > MAX_WRAPPED_INTERFACES then (Inl EINVAL, si)
         else if sa_port a = 0 then
           (case List.find (\<lambda>prt. \<not> exists_path (sun_path dir (socket_format t iface prt))) ephemeral_ports of
              None \<Rightarrow> (Inl ENFILE, si)
            | Some prt \<Rightarrow>
                (Inr (sun_path dir (socket_format t iface prt), is_bcast),
                 si\<lparr>myname := set_port (family si) prt (myname si),
                    bindname := set_port (family si) prt (bindname si)\<rparr>))
         else (Inr (sun_path dir (socket_format t iface (unat (sa_port a))), is_bcast), si))"

text \<open>Every caller passes a place for the path.\<close>

definition sockaddr_convert_to_un ::
  "env \<Rightarrow> string \<Rightarrow> (string \<Rightarrow> bool) \<Rightarrow> bool \<Rightarrow> socket_info \<Rightarrow> sockaddr \<Rightarrow> nat
     \<Rightarrow> (errno + string \<times> nat) \<times> socket_info" where
  "sockaddr_convert_to_un getenv dir exists_path alloc_sock si in_addr in_len =
     (if (case sa_fam in_addr of
            Unspec \<Rightarrow> family si = Inet \<and> in_len \<ge> socket_length Inet \<and> sa_in in_addr = 0
          | Inet \<Rightarrow> True | Inet6 \<Rightarrow> True | _ \<Rightarrow> False) then
        if sotype si \<noteq> Stream \<and> sotype si \<noteq> Dgram then (Inl ESOCKTNOSUPPORT, si)
        else if alloc_sock then convert_in_un_alloc getenv dir exists_path si in_addr
        else (convert_in_un_remote getenv dir si in_addr, si)
      else (Inl EAFNOSUPPORT, si))"

text \<open>\<open>un\<close> and its length, the family wanted, and the room for the address; an empty Unix address
  gives an empty result.\<close>

definition sockaddr_convert_from_un ::
  "socket_info \<Rightarrow> string \<Rightarrow> nat \<Rightarrow> sa_family \<Rightarrow> nat \<Rightarrow> errno + sockaddr option \<times> nat" where
  "sockaddr_convert_from_un si un un_addrlen fam out_addrlen =
     (if un_addrlen = 0 then Inr (None, 0)
      else if fam = Inet \<or> fam = Inet6 then
        (if sotype si \<noteq> Stream \<and> sotype si \<noteq> Dgram then Inl ESOCKTNOSUPPORT
         else case convert_un_in un out_addrlen of Inl e \<Rightarrow> Inl e | Inr (a, len) \<Rightarrow> Inr (Some a, len))
      else Inl EAFNOSUPPORT)"

section \<open>What is written is read back\<close>

text \<open>An encoding that is read back keeps different things apart.\<close>

locale codec =
  fixes ok :: "'a \<Rightarrow> bool" and enc :: "'a \<Rightarrow> 'b" and dec :: "'b \<Rightarrow> 'a option"
  assumes decode: "ok x \<Longrightarrow> dec (enc x) = Some x"
begin

lemma enc_inj: "inj_on enc (Collect ok)"
  by (rule inj_on_inverseI [of _ "the \<circ> dec"]) (simp add: decode)

lemma enc_eq: "ok x \<Longrightarrow> ok y \<Longrightarrow> enc x = enc y \<longleftrightarrow> x = y"
  using enc_inj by (auto simp: inj_on_def)

end

lemma hex_no_slash: "CHR ''/'' \<notin> set (print_hex w n)"
  using print_hex_digits [of w n] hex_digit_plain by fastforce

lemma last_component_slash:
  "CHR ''/'' \<notin> set f \<Longrightarrow> last_component (dir @ CHR ''/'' # f) = f"
  unfolding last_component_def
  by (simp add: takeWhile_append2) (auto simp: takeWhile_append takeWhile_eq_all_conv [THEN iffD2])

definition format_ok :: "char \<times> nat \<times> nat \<Rightarrow> bool" where
  "format_ok = (\<lambda>(t, iface, prt). t \<noteq> CHR ''/'' \<and> iface < 256 \<and> prt < 65536)"

lemma scan_socket_format:
  assumes "iface < 256" "prt < 65536"
  shows "scan_format (socket_format t iface prt) = Some (t, iface, prt)"
proof -
  have "scan_hex 2 (print_hex 2 iface @ print_hex 4 prt) = Some (iface, print_hex 4 prt)"
    by (rule scan_print_hex) (use assms in simp_all)
  moreover have "scan_hex 4 (print_hex 4 prt @ []) = Some (prt, [])"
    by (rule scan_print_hex) (use assms in simp_all)
  ultimately show ?thesis by (simp add: scan_format_def socket_format_def)
qed

lemma length_socket_format:
  assumes "iface < 256" "prt < 65536"
  shows "length (socket_format t iface prt) = 7"
  using assms length_print_hex [of iface 2] length_print_hex [of prt 4] by (simp add: socket_format_def)

text \<open>A directory short enough that no path is cut off.\<close>

definition dir_ok :: "string \<Rightarrow> bool" where "dir_ok dir \<longleftrightarrow> length dir + 8 < SUN_PATH"

lemma last_component_path:
  assumes "dir_ok dir" "format_ok (t, iface, prt)"
  shows "last_component (sun_path dir (socket_format t iface prt)) = socket_format t iface prt"
proof -
  have "length (dir @ CHR ''/'' # socket_format t iface prt) \<le> SUN_PATH - 1"
    using assms length_socket_format [of iface prt t] by (simp add: dir_ok_def format_ok_def)
  then have "sun_path dir (socket_format t iface prt) = dir @ CHR ''/'' # socket_format t iface prt"
    unfolding sun_path_def by (rule take_all)
  moreover have "CHR ''/'' \<notin> set (socket_format t iface prt)"
    using assms(2) hex_no_slash by (auto simp: socket_format_def format_ok_def)
  ultimately show ?thesis by (simp add: last_component_slash)
qed

interpretation path: codec "\<lambda>x. dir_ok dir \<and> format_ok x"
    "\<lambda>(t, iface, prt). sun_path dir (socket_format t iface prt)" "\<lambda>p. scan_format (last_component p)" for dir
proof
  fix x :: "char \<times> nat \<times> nat"
  assume x: "dir_ok dir \<and> format_ok x"
  obtain t iface prt where [simp]: "x = (t, iface, prt)" by (cases x)
  from x show "scan_format (last_component (case x of (t, iface, prt) \<Rightarrow> sun_path dir (socket_format t iface prt))) = Some x"
    by (simp add: last_component_path scan_socket_format) (simp add: format_ok_def scan_socket_format)
qed

section \<open>Loopback addresses\<close>

lemma loopback_split:
  fixes a :: u32
  assumes "a AND 0xFFFFFF00 = 0x7F000000"
  shows "0x7F000000 OR (a AND 0xFF) = a"
proof -
  have "(0xFFFFFF00 OR 0xFF :: u32) = - 1" by code_simp
  then have "a = a AND (0xFFFFFF00 OR 0xFF)" by (simp only: bit.conj_one_right)
  also have "\<dots> = (a AND 0xFFFFFF00) OR (a AND 0xFF)" by (rule bit.conj_disj_distrib)
  finally show ?thesis using assms by simp
qed

lemma loopback_join:
  fixes n :: nat
  assumes "n < 256"
  shows "(0x7F000000 OR of_nat n :: u32) AND 0xFFFFFF00 = 0x7F000000"
    and "unat ((0x7F000000 OR of_nat n :: u32) AND 0xFF) = n"
proof -
  have u: "unat (of_nat n :: u32) = n" using assms by (intro unat_of_nat_u32) simp
  have "unat ((of_nat n :: u32) AND 0xFF) = unat (of_nat n :: u32) mod 256"
    using unat_and_pow2_minus_1 [of "of_nat n" 8] by simp
  then have "unat ((of_nat n :: u32) AND 0xFF) = unat (of_nat n :: u32)"
    using assms u by simp
  then have x: "(of_nat n :: u32) AND 0xFF = of_nat n" by (simp only: word_unat_eq_iff)
  have "(of_nat n :: u32) AND 0xFFFFFF00 = (of_nat n AND 0xFF) AND 0xFFFFFF00" by (simp only: x)
  also have "\<dots> = 0" by (simp add: and.assoc)
  finally show "(0x7F000000 OR of_nat n :: u32) AND 0xFFFFFF00 = 0x7F000000"
    by (simp add: bit.conj_disj_distrib2)
  show "unat ((0x7F000000 OR of_nat n :: u32) AND 0xFF) = n"
    using u by (simp add: bit.conj_disj_distrib2 x)
qed

definition iface_of :: "sockaddr \<Rightarrow> nat" where
  "iface_of a = (if sa_fam a = Inet then unat (sa_in a AND 0xFF) else unat (sa_in6 a ! 15))"

text \<open>The parts of an address that its family uses.\<close>

definition plain_addr :: "sockaddr \<Rightarrow> sockaddr" where
  "plain_addr a = (if sa_fam a = Inet then zero_sockaddr\<lparr>sa_fam := Inet, sa_in := sa_in a, sa_port := sa_port a\<rparr>
     else zero_sockaddr\<lparr>sa_fam := Inet6, sa_in6 := sa_in6 a, sa_port := sa_port a\<rparr>)"

lemma iface_of_small: "iface_of a < 256"
proof -
  have "unat (sa_in a AND 0xFF) = unat (sa_in a) mod 256"
    using unat_and_pow2_minus_1 [of "sa_in a" 8] by simp
  then have "unat (sa_in a AND 0xFF) < 256" by simp
  moreover have "unat (sa_in6 a ! 15) < 2 ^ LENGTH(8)" by (rule unsigned_less)
  ultimately show ?thesis by (simp add: iface_of_def)
qed

definition type_letter :: "sa_family \<Rightarrow> sock_type \<Rightarrow> char" where
  "type_letter fam st = (if fam = Inet then if st = Stream then SOCKET_TYPE_CHAR_TCP else SOCKET_TYPE_CHAR_UDP
     else if st = Stream then SOCKET_TYPE_CHAR_TCP_V6 else SOCKET_TYPE_CHAR_UDP_V6)"

lemma type_letter_eq:
  assumes "f = Inet \<or> f = Inet6" "f' = Inet \<or> f' = Inet6" "s = Stream \<or> s = Dgram" "s' = Stream \<or> s' = Dgram"
  shows "type_letter f s = type_letter f' s' \<longleftrightarrow> f = f' \<and> s = s'"
  using assms by (auto simp: type_letter_def type_chars)

lemma type_letter_slash: "type_letter f s \<noteq> CHR ''/''"
  by (simp add: type_letter_def type_chars)

lemma remote_unicast:
  assumes "convert_in_un_remote getenv dir si a = Inr (p, 0)"
  shows "sa_fam a = Inet \<or> sa_fam a = Inet6" "sotype si = Stream \<or> sotype si = Dgram" "sa_port a \<noteq> 0"
    "p = sun_path dir (socket_format (type_letter (sa_fam a) (sotype si)) (iface_of a) (unat (sa_port a)))"
    "if sa_fam a = Inet then sa_in a AND 0xFFFFFF00 = 0x7F000000 else swrap_ipv6 = (sa_in6 a)[15 := 0]"
  using assms
  by (auto simp: convert_in_un_remote_def remote_target_def iface_of_def type_letter_def Let_def
      split: sum.splits sa_family.splits if_splits)

lemma port_small: "unat (w :: u16) < 65536"
proof -
  have "unat w < 2 ^ LENGTH(16)" by (rule unsigned_less)
  then show ?thesis by simp
qed

section \<open>Properties\<close>

text \<open>
  (C29) An address survives the way through the file system: what the peer's address is after
  conversion to a path and back is the address itself (family, address and port), for both
  families and both protocols, if the interface is one of the \<open>MAX_WRAPPED_INTERFACES\<close>. The
  conversion to a path also accepts every other interface number, and then the conversion
  back is refused with \<open>EINVAL\<close>, as it is when the caller's buffer is too small.
\<close>

theorem address_path_roundtrip:
  assumes "dir_ok dir" "convert_in_un_remote getenv dir si a = Inr (p, 0)" "length (sa_in6 a) = 16" "n \<noteq> 0"
  shows "sockaddr_convert_from_un si p n (sa_fam a) room =
    (if room < socket_length (sa_fam a) \<or> iface_of a = 0 \<or> iface_of a > MAX_WRAPPED_INTERFACES then Inl EINVAL
     else Inr (Some (plain_addr a), socket_length (sa_fam a)))"
proof -
  note r = remote_unicast [OF assms(2)]
  let ?t = "type_letter (sa_fam a) (sotype si)"
  have f: "format_ok (?t, iface_of a, unat (sa_port a))"
    using iface_of_small port_small type_letter_slash r
    by (simp add: format_ok_def)
  have s: "scan_format (last_component p) = Some (?t, iface_of a, unat (sa_port a))"
    using f assms(1) path.decode [of dir "(?t, iface_of a, unat (sa_port a))"] r(4) by simp
  have i4: "0x7F000000 OR of_nat (iface_of a) = sa_in a" if "sa_fam a = Inet"
    using that r(5) loopback_split [of "sa_in a"] by (simp add: iface_of_def)
  have i6: "swrap_ipv6[15 := of_nat (iface_of a)] = sa_in6 a" if "sa_fam a = Inet6"
  proof -
    have "swrap_ipv6 = (sa_in6 a)[15 := 0]" using that r(5) by simp
    then have "swrap_ipv6[15 := sa_in6 a ! 15] = (sa_in6 a)[15 := 0, 15 := sa_in6 a ! 15]"
      by (rule arg_cong [where f = "\<lambda>l. l[15 := sa_in6 a ! 15]"])
    then show ?thesis using that by (simp add: iface_of_def)
  qed
  have "\<not> unat (sa_port a) > 0xFFFF" using port_small [of "sa_port a"] by simp
  then show ?thesis
    using r(1,2) assms(4) i4 i6
    by (auto simp: sockaddr_convert_from_un_def convert_un_in_def s type_letter_def type_chars plain_addr_def)
qed

definition loopback :: "nat \<Rightarrow> u16 \<Rightarrow> sockaddr" where
  "loopback iface prt = zero_sockaddr\<lparr>sa_fam := Inet, sa_in := 0x7F000000 OR of_nat iface, sa_port := prt\<rparr>"

lemma remote_loopback:
  assumes "iface < 256" "prt \<noteq> 0" "sotype si = Stream \<or> sotype si = Dgram"
  shows "convert_in_un_remote getenv dir si (loopback iface prt)
    = Inr (sun_path dir (socket_format (type_letter Inet (sotype si)) iface (unat prt)), 0)"
    and "iface_of (loopback iface prt) = iface"
proof -
  note j = loopback_join [OF assms(1)]
  have "(0x7F000000 OR of_nat iface :: u32) \<noteq> 0xFFFFFFFF" "(0x7F000000 OR of_nat iface :: u32) \<noteq> 0x7FFFFFFF"
    using j(1) by auto
  then show "convert_in_un_remote getenv dir si (loopback iface prt)
    = Inr (sun_path dir (socket_format (type_letter Inet (sotype si)) iface (unat prt)), 0)"
    using assms j by (auto simp: convert_in_un_remote_def remote_target_def loopback_def type_letter_def)
  show "iface_of (loopback iface prt) = iface"
    using j by (simp add: iface_of_def loopback_def)
qed

definition inet_sock :: "sock_type \<Rightarrow> socket_info" where
  "inet_sock st = zero_info\<lparr>family := Inet, sotype := st\<rparr>"

theorem address_path_roundtrip_witness:
  "\<exists>p. convert_in_un_remote (\<lambda>_. None) ''/tmp/w'' (inet_sock Stream) (loopback 7 80) = Inr (p, 0)
    \<and> sockaddr_convert_from_un (inet_sock Stream) p 110 Inet 16 = Inr (Some (loopback 7 80), 16)"
proof -
  note l = remote_loopback(1) [of 7 80 "inet_sock Stream" "\<lambda>_. None" "''/tmp/w''"]
    remote_loopback(2) [of 7 80 "inet_sock Stream"]
  have "dir_ok ''/tmp/w''" by (simp add: dir_ok_def SUN_PATH_def)
  from address_path_roundtrip [OF this l(1), of 110 16] l show ?thesis
    by (simp add: inet_sock_def loopback_def zero_sockaddr_def socket_length_def MAX_WRAPPED_INTERFACES_def plain_addr_def)
qed

text \<open>
  (C35) Different endpoints never share a socket file: if two conversions of peers' addresses, for
  whatever sockets, give the same path in a directory whose paths are not cut off, the sockets
  have the same type and the addresses agree in family, address and port. In a directory of
  107 characters or more every conversion gives the same path.
\<close>

theorem distinct_endpoints_distinct_paths:
  assumes "convert_in_un_remote g dir si a = Inr (p, 0)" "convert_in_un_remote g' dir si' a' = Inr (p', 0)"
    and "length (sa_in6 a) = 16" "length (sa_in6 a') = 16"
  shows "(dir_ok dir \<and> p = p' \<longrightarrow> sotype si = sotype si' \<and> plain_addr a = plain_addr a')
    \<and> (SUN_PATH - 1 \<le> length dir \<longrightarrow> p = p')"
proof -
  note r = remote_unicast [OF assms(1)] and r' = remote_unicast [OF assms(2)]
  have f: "format_ok (type_letter (sa_fam a) (sotype si), iface_of a, unat (sa_port a))"
    "format_ok (type_letter (sa_fam a') (sotype si'), iface_of a', unat (sa_port a'))"
    using iface_of_small port_small type_letter_slash by (simp_all add: format_ok_def)
  have "sotype si = sotype si' \<and> plain_addr a = plain_addr a'" if d: "dir_ok dir" and "p = p'"
  proof -
    have "type_letter (sa_fam a) (sotype si) = type_letter (sa_fam a') (sotype si') \<and> iface_of a = iface_of a'
        \<and> sa_port a = sa_port a'"
      using path.enc_eq [of dir, OF conjI [OF d f(1)] conjI [OF d f(2)]] that(2) r(4) r'(4)
      by (simp add: word_unat_eq_iff)
    then have e: "sa_fam a = sa_fam a'" "sotype si = sotype si'" "iface_of a = iface_of a'" "sa_port a = sa_port a'"
      using type_letter_eq [OF r(1) r'(1) r(2) r'(2)] by simp_all
    have "sa_in a = sa_in a'" if "sa_fam a = Inet"
    proof -
      have "sa_in a AND 0xFF = sa_in a' AND 0xFF"
        using that e by (simp add: iface_of_def word_unat_eq_iff)
      moreover have "0x7F000000 OR (sa_in a AND 0xFF) = sa_in a" "0x7F000000 OR (sa_in a' AND 0xFF) = sa_in a'"
        using that e r(5) r'(5) by (simp_all add: loopback_split)
      ultimately show ?thesis by metis
    qed
    moreover have "sa_in6 a = sa_in6 a'" if "sa_fam a \<noteq> Inet"
    proof -
      have "(sa_in6 a)[15 := 0] = (sa_in6 a')[15 := 0]" "sa_in6 a ! 15 = sa_in6 a' ! 15"
        using that e r(5) r'(5) by (simp_all add: iface_of_def word_unat_eq_iff)
      then have "((sa_in6 a)[15 := 0])[15 := sa_in6 a ! 15] = ((sa_in6 a')[15 := 0])[15 := sa_in6 a' ! 15]"
        by simp
      then show ?thesis by (simp only: list_update_overwrite list_update_id)
    qed
    ultimately show ?thesis using e by (simp add: plain_addr_def)
  qed
  moreover have "p = p'" if "SUN_PATH - 1 \<le> length dir"
    using that r(4) r'(4) by (simp add: sun_path_def)
  ultimately show ?thesis by blast
qed

theorem distinct_endpoints_distinct_paths_witness:
  "\<exists>p p'. convert_in_un_remote (\<lambda>_. None) ''d'' (inet_sock Stream) (loopback 7 80) = Inr (p, 0)
    \<and> convert_in_un_remote (\<lambda>_. None) ''d'' (inet_sock Dgram) (loopback 7 80) = Inr (p', 0) \<and> p \<noteq> p'"
proof -
  note l = remote_loopback(1) [of 7 80 "inet_sock Stream" "\<lambda>_. None" "''d''"]
    remote_loopback(1) [of 7 80 "inet_sock Dgram" "\<lambda>_. None" "''d''"]
  have n: "length (sa_in6 (loopback 7 80)) = 16" by (simp add: loopback_def zero_sockaddr_def)
  have "dir_ok ''d''" by (simp add: dir_ok_def SUN_PATH_def)
  with distinct_endpoints_distinct_paths [OF l n n] l show ?thesis by (simp add: inet_sock_def)
qed

section \<open>Own addresses\<close>

lemma alloc_target_ok:
  assumes "alloc_target getenv si a = Inr (t, iface, b)"
  shows "family si = Inet \<or> family si = Inet6" "sotype si = Stream \<or> sotype si = Dgram"
    "t = type_letter (family si) (sotype si)" "iface < 256"
proof -
  have d: "socket_wrapper_default_iface getenv < 256"
    using default_iface_range(2) [of getenv] by (simp add: MAX_WRAPPED_INTERFACES_def)
  have i: "unat (sa_in a AND 0xFF) < 256" "unat (sa_in6 a ! 15) < 256"
    using iface_of_small [of "a\<lparr>sa_fam := Inet\<rparr>"] iface_of_small [of "a\<lparr>sa_fam := Inet6\<rparr>"] by (simp_all add: iface_of_def)
  show "family si = Inet \<or> family si = Inet6" "sotype si = Stream \<or> sotype si = Dgram"
    "t = type_letter (family si) (sotype si)" "iface < 256"
    using assms d i by (auto simp: alloc_target_def type_letter_def Let_def split: sa_family.splits if_splits)
qed

lemma find_upt:
  "case List.find P [m..<n] of None \<Rightarrow> \<forall>q. m \<le> q \<and> q < n \<longrightarrow> \<not> P q
    | Some x \<Rightarrow> m \<le> x \<and> x < n \<and> P x \<and> (\<forall>q. m \<le> q \<and> q < x \<longrightarrow> \<not> P q)"
proof (induction "n - m" arbitrary: m)
  case (Suc k)
  then have m: "[m..<n] = m # [Suc m..<n]" by (simp add: upt_conv_Cons)
  have "k = n - Suc m" using Suc.hyps(2) by simp
  note ih = Suc.hyps(1) [OF this]
  have split: "(\<forall>q. m \<le> q \<and> q < j \<longrightarrow> \<not> P q) \<longleftrightarrow> \<not> P m \<and> (\<forall>q. Suc m \<le> q \<and> q < j \<longrightarrow> \<not> P q)" if "m < j" for j
    using that by (metis le_eq_less_or_eq Suc_le_eq)
  show ?case
  proof (cases "P m")
    case True
    then show ?thesis using Suc.hyps(2) by (auto simp: m)
  next
    case False
    then show ?thesis
      using ih Suc.hyps(2) by (auto simp: m split split: option.splits)
  qed
qed auto

text \<open>
  Ephemeral ports: binding to port 0 takes the lowest port of 5001 to 9999 whose socket file
  does not exist, records it in the socket's own name and its bind name, and hands out the path
  of that file; \<open>ENFILE\<close> is reported exactly when all 4999 files of the interface exist. No
  other error is possible for an address of the wrapper's interfaces.
\<close>

theorem ephemeral_port_allocation:
  assumes "alloc_target getenv si a = Inr (t, iface, b)" "sa_port a = 0"
    and "1 \<le> iface" "iface \<le> MAX_WRAPPED_INTERFACES"
    and "convert_in_un_alloc getenv dir exists_path si a = (r, si')"
  shows "case r of
      Inl e \<Rightarrow> e = ENFILE \<and> (\<forall>q. 5001 \<le> q \<and> q \<le> 9999 \<longrightarrow> exists_path (sun_path dir (socket_format t iface q)))
    | Inr (p, b') \<Rightarrow> b' = b \<and> \<not> exists_path p
        \<and> (\<exists>prt. 5001 \<le> prt \<and> prt \<le> 9999 \<and> p = sun_path dir (socket_format t iface prt)
          \<and> (\<forall>q. 5001 \<le> q \<and> q < prt \<longrightarrow> exists_path (sun_path dir (socket_format t iface q)))
          \<and> unat (sa_port (sa (myname si'))) = prt \<and> unat (sa_port (sa (bindname si'))) = prt)"
proof -
  let ?P = "\<lambda>prt. \<not> exists_path (sun_path dir (socket_format t iface prt))"
  have f: "family (store_bindname a iface si) = Inet \<or> family (store_bindname a iface si) = Inet6"
    using alloc_target_ok(1) [OF assms(1)] by (simp add: store_bindname_def)
  show ?thesis
  proof (cases "List.find ?P ephemeral_ports")
    case None
    then show ?thesis
      using assms find_upt [where P = ?P and m = 5001 and n = 10000, folded ephemeral_ports_def]
      by (auto simp: convert_in_un_alloc_def Let_def)
  next
    case (Some prt)
    have p: "5001 \<le> prt" "prt < 10000" "?P prt" and low: "\<forall>q. 5001 \<le> q \<and> q < prt \<longrightarrow> \<not> ?P q"
      using find_upt [where P = ?P and m = 5001 and n = 10000, folded ephemeral_ports_def] Some by simp_all
    have u: "unat (of_nat prt :: u16) = prt"
      using p by (simp add: unat_of_nat)
    have "r = Inr (sun_path dir (socket_format t iface prt), b)"
      "sa_port (sa (myname si')) = of_nat prt" "sa_port (sa (bindname si')) = of_nat prt"
      using assms Some f by (auto simp: convert_in_un_alloc_def Let_def set_port_def)
    then show ?thesis using p low u by auto
  qed
qed

theorem ephemeral_port_allocation_witness:
  "\<exists>p si'. convert_in_un_alloc (\<lambda>_. None) ''d'' (\<lambda>_. False) (inet_sock Stream) zero_sockaddr = (Inr (p, 0), si')
    \<and> unat (sa_port (sa (myname si'))) = 5001"
proof -
  have t: "alloc_target (\<lambda>_. None) (inet_sock Stream) zero_sockaddr = Inr (SOCKET_TYPE_CHAR_TCP, 1, 0)"
    by (simp add: alloc_target_def inet_sock_def zero_sockaddr_def socket_wrapper_default_iface_def)
  obtain r si' where c: "convert_in_un_alloc (\<lambda>_. None) ''d'' (\<lambda>_. False) (inet_sock Stream) zero_sockaddr = (r, si')"
    by fastforce
  have "sa_port zero_sockaddr = 0" "1 \<le> (1::nat)" "1 \<le> MAX_WRAPPED_INTERFACES"
    by (simp_all add: zero_sockaddr_def MAX_WRAPPED_INTERFACES_def)
  from ephemeral_port_allocation [OF t this c] c show ?thesis
  proof (cases r)
    case (Inr x)
    with ephemeral_port_allocation [OF t \<open>sa_port zero_sockaddr = 0\<close> _ \<open>1 \<le> MAX_WRAPPED_INTERFACES\<close> c] c
    show ?thesis by (cases x) (force simp: le_eq_less_or_eq)
  qed (auto dest: spec [of _ 5001])
qed

text \<open>
  Clients find servers: once an address was allocated for a socket that had no bind name, a
  peer of the same type, in any environment, that converts the socket's bind name gets the very
  path the socket was given, also for the unspecified and the broadcast addresses and for
  ports the wrapper chose.
\<close>

theorem bindname_reaches_path:
  assumes "convert_in_un_alloc getenv dir exists_path si a = (Inr (p, b), si')"
    and "sa_socklen (bindname si) = 0" "sa_fam a = family si" "sotype peer = sotype si"
  shows "convert_in_un_remote getenv' dir peer (sa (bindname si')) = Inr (p, 0)"
proof -
  obtain t iface where t: "alloc_target getenv si a = Inr (t, iface, b)" "1 \<le> iface" "iface \<le> MAX_WRAPPED_INTERFACES"
    using assms(1) by (auto simp: convert_in_un_alloc_def Let_def split: sum.splits if_splits option.splits)
  note k = alloc_target_ok [OF t(1)]
  define prt where "prt = sa_port (sa (bindname si'))"
  have prt: "prt \<noteq> 0" "p = sun_path dir (socket_format t iface (unat prt))"
    "sa (bindname si') = (sa (bindname (store_bindname a iface si)))\<lparr>sa_port := prt\<rparr>"
  proof -
    have "prt \<noteq> 0 \<and> p = sun_path dir (socket_format t iface (unat prt))
        \<and> sa (bindname si') = (sa (bindname (store_bindname a iface si)))\<lparr>sa_port := prt\<rparr>"
    proof (cases "sa_port a = 0")
      case True
      let ?P = "\<lambda>prt. \<not> exists_path (sun_path dir (socket_format t iface prt))"
      obtain q where q: "List.find ?P ephemeral_ports = Some q"
        using assms(1) t True by (auto simp: convert_in_un_alloc_def Let_def split: option.splits)
      then have r: "5001 \<le> q" "q < 10000"
        using find_upt [where P = ?P and m = 5001 and n = 10000, folded ephemeral_ports_def] by simp_all
      then have u: "unat (of_nat q :: u16) = q" by (simp add: unat_of_nat)
      then have "(of_nat q :: u16) \<noteq> 0" using r by (metis unat_0 not_numeral_le_zero)
      moreover have "prt = of_nat q \<and> p = sun_path dir (socket_format t iface q)
          \<and> sa (bindname si') = (sa (bindname (store_bindname a iface si)))\<lparr>sa_port := of_nat q\<rparr>"
        using assms(1) t True q k(1) unfolding prt_def
        by (auto simp: convert_in_un_alloc_def Let_def set_port_def store_bindname_def split: if_splits)
      ultimately show ?thesis using u by simp
    next
      case False
      then show ?thesis
        using assms(1,2) t unfolding prt_def
        by (cases "family si = Inet") (auto simp: convert_in_un_alloc_def Let_def store_bindname_def)
    qed
    then show "prt \<noteq> 0" "p = sun_path dir (socket_format t iface (unat prt))"
      "sa (bindname si') = (sa (bindname (store_bindname a iface si)))\<lparr>sa_port := prt\<rparr>" by blast+
  qed
  have st: "sotype peer = Stream \<or> sotype peer = Dgram" using k(2) assms(4) by simp
  show ?thesis
  proof (cases "family si = Inet")
    case True
    then have "sa (bindname si') = loopback iface prt"
      using assms(2,3) prt(3) by (simp add: store_bindname_def loopback_def)
    then show ?thesis
      using remote_loopback(1) [OF k(4) prt(1) st] prt(2) k(3) True assms(4) by simp
  next
    case False
    then have six: "family si = Inet6" using k(1) by simp
    have b: "sa (bindname si') = zero_sockaddr\<lparr>sa_fam := Inet6, sa_port := prt, sa_in6 := swrap_ipv6[15 := of_nat iface]\<rparr>"
      using six assms(2,3) prt(3) by (simp add: store_bindname_def)
    have "unat (of_nat iface :: u8) = iface" using k(4) by (simp add: unat_of_nat)
    then show ?thesis
      using st prt(1,2) k(3) six assms(4)
      by (auto simp: b convert_in_un_remote_def remote_target_def swrap_ipv6_def type_letter_def)
  qed
qed

theorem bindname_reaches_path_witness:
  "\<exists>p si'. convert_in_un_alloc (\<lambda>_. None) ''d'' (\<lambda>_. False) (inet_sock Dgram) (loopback 9 53) = (Inr (p, 0), si')
     \<and> convert_in_un_remote (\<lambda>_. None) ''d'' (inet_sock Dgram) (sa (bindname si')) = Inr (p, 0)"
proof -
  have "alloc_target (\<lambda>_. None) (inet_sock Dgram) (loopback 9 53) = Inr (SOCKET_TYPE_CHAR_UDP, 9, 0)"
    by (simp add: alloc_target_def inet_sock_def loopback_def)
  then obtain p si' where c: "convert_in_un_alloc (\<lambda>_. None) ''d'' (\<lambda>_. False) (inet_sock Dgram) (loopback 9 53)
      = (Inr (p, 0), si')"
    by (simp add: convert_in_un_alloc_def Let_def MAX_WRAPPED_INTERFACES_def loopback_def)
  have "sa_socklen (bindname (inet_sock Dgram)) = 0" "sa_fam (loopback 9 53) = family (inet_sock Dgram)"
    by (simp_all add: inet_sock_def zero_info_def zero_address_def loopback_def)
  from bindname_reaches_path [OF c this refl] c show ?thesis by blast
qed

end
