(* ===== verification/Swrap_Calls.thy ===== *)
theory Swrap_Calls
  imports Swrap_Addr
begin

text \<open>
  The socket calls of socket_wrapper.c that make, name and connect sockets and read and set their
  options. A call on a descriptor that is not wrapped goes to libc with its arguments
  unchanged: the outcome \<open>ToLibc\<close>. The other outcomes are the value returned, with \<open>errno\<close> on the
  left for -1, and a store outside an object. Message transfer is in \<open>Swrap_Msg\<close>.
\<close>

section \<open>State and surroundings\<close>

datatype 'r outcome = ToLibc | Returns 'r | Faults fault

text \<open>
  The process: the table, the static variable of \<open>swrap_auto_bind\<close> once initialised, and that of
  \<open>socket_wrapper_mtu\<close>.
\<close>

record proc =
  tab :: swrap
  autobind_start :: "int option"
  max_mtu :: u32

text \<open>
  What a call meets: the environment, the process id, which paths exist, what \<open>bind\<close> and
  \<open>connect\<close> return for a path, how the capture file is written, and \<open>errno\<close> before the call.
\<close>

record libc =
  l_getenv :: env
  l_pid :: int
  l_stat :: "string \<Rightarrow> bool"
  l_bind :: "string \<Rightarrow> unit sysres"
  l_connect :: "string \<Rightarrow> unit sysres"
  l_pcap :: "packet_type \<Rightarrow> pcap_os"
  l_errno :: errno

text \<open>The directory as \<open>%s\<close> prints it.\<close>

definition dir_of :: "libc \<Rightarrow> string" where
  "dir_of e = (case socket_wrapper_dir (l_getenv e) of None \<Rightarrow> ''(null)'' | Some d \<Rightarrow> d)"

definition sockaddr_storage_size :: nat where "sockaddr_storage_size = 128"

definition dump ::
  "libc \<Rightarrow> sockaddr \<Rightarrow> packet_type \<Rightarrow> u8 list option \<Rightarrow> nat \<Rightarrow> socket_info \<times> pcap_state \<Rightarrow> socket_info \<times> pcap_state" where
  "dump e addr t buf n s = swrap_pcap_dump_packet (l_getenv e) (l_pcap e t) addr t buf n s"

text \<open>An operation on entry \<open>idx\<close> of the table.\<close>

definition on_entry ::
  "int \<Rightarrow> (socket_info \<times> pcap_state \<Rightarrow> 'r \<times> socket_info \<times> pcap_state) \<Rightarrow> swrap \<Rightarrow> 'r \<times> swrap" where
  "on_entry idx f st =
     (let (r, si, pc) = f (swrap_get_socket_info idx st, pcap st)
      in (r, (set_info idx si st)\<lparr>pcap := pc\<rparr>))"

section \<open>Address buffers\<close>

text \<open>
  Copying the first \<open>n\<close> bytes of an address over another: the family in bytes 0 and 1 (low byte
  first), the port in 2 and 3, the IPv4 address in 4 to 7, the IPv6 address in 8 to 23.
\<close>

definition family_code :: "sa_family \<Rightarrow> int" where
  "family_code f = (case f of Unspec \<Rightarrow> 0 | Unix \<Rightarrow> 1 | Inet \<Rightarrow> 2 | Inet6 \<Rightarrow> 10 | OtherFamily n \<Rightarrow> n)"

definition code_family :: "int \<Rightarrow> sa_family" where
  "code_family n = (if n = 0 then Unspec else if n = 1 then Unix else if n = 2 then Inet
     else if n = 10 then Inet6 else OtherFamily n)"

definition addr_bytes :: "sockaddr \<Rightarrow> u8 list" where
  "addr_bytes a = le16 (word_of_int (family_code (sa_fam a))) @ be16 (sa_port a) @ be32 (sa_in a) @ sa_in6 a"

definition bytes_addr :: "u8 list \<Rightarrow> sockaddr" where
  "bytes_addr bs = \<lparr>sa_fam = code_family (uint (of_be16 (rev (take 2 bs)))), sa_port = of_be16 (take 2 (drop 2 bs)),
     sa_in = of_be32 (take 4 (drop 4 bs)), sa_in6 = drop 8 bs\<rparr>"

definition memcpy_addr :: "nat \<Rightarrow> sockaddr \<Rightarrow> sockaddr \<Rightarrow> sockaddr" where
  "memcpy_addr n src dst = bytes_addr (take n (addr_bytes src) @ drop n (addr_bytes dst))"

section \<open>socket\<close>

definition SOCK_CLOEXEC :: u32 where "SOCK_CLOEXEC = 0x80000"
definition SOCK_NONBLOCK :: u32 where "SOCK_NONBLOCK = 0x800"
definition AF_NETLINK :: sa_family where "AF_NETLINK = OtherFamily 16"
definition AF_PACKET :: sa_family where "AF_PACKET = OtherFamily 17"

definition type_code :: "sock_type \<Rightarrow> int" where
  "type_code t = (case t of Stream \<Rightarrow> 1 | Dgram \<Rightarrow> 2 | OtherType n \<Rightarrow> n)"

definition code_type :: "u32 \<Rightarrow> sock_type" where
  "code_type t = (if t = 1 then Stream else if t = 2 then Dgram else OtherType (sint t))"

definition new_socket_info :: "sa_family \<Rightarrow> sock_type \<Rightarrow> int \<Rightarrow> socket_info" where
  "new_socket_info fam real_type prot =
     zero_info\<lparr>family := fam, sotype := real_type, protocol := prot,
       myname := \<lparr>sa_socklen = socket_length fam, sa = zero_sockaddr\<lparr>sa_fam := fam\<rparr>\<rparr>\<rparr>"

text \<open>
  \<open>alloc\<close>: whether the two allocations and the mutexes of the first use succeed. \<open>lwip_socket\<close> and
  \<open>libc_socket\<close> are the results of the two calls. No result: the process exits.
\<close>

definition swrap_socket ::
  "libc \<Rightarrow> bool \<times> bool \<times> bool \<Rightarrow> int sysres \<Rightarrow> int sysres \<Rightarrow> sa_family \<Rightarrow> u32 \<Rightarrow> int \<Rightarrow> swrap
     \<Rightarrow> (int sysres \<times> swrap) option" where
  "swrap_socket e alloc lwip_socket libc_socket fam ty prot st =
     (let real_type = code_type (ty AND NOT SOCK_CLOEXEC AND NOT SOCK_NONBLOCK);
          (fds_ok, sockets_ok, mutexes_ok) = alloc
      in case socket_wrapper_enabled (l_getenv e) fds_ok sockets_ok mutexes_ok st of
           None \<Rightarrow> None
         | Some (False, st) \<Rightarrow> Some (lwip_socket, st)
         | Some (True, st) \<Rightarrow> Some (
             if fam \<in> {AF_NETLINK, AF_PACKET, Unix} then (lwip_socket, st)
             else if fam \<noteq> Inet \<and> fam \<noteq> Inet6 then (Inl EAFNOSUPPORT, st)
             else if real_type \<noteq> Stream \<and> real_type \<noteq> Dgram then (Inl EPROTONOSUPPORT, st)
             else if \<not> (prot = 0 \<or> prot = 6 \<and> real_type = Stream
                        \<or> (prot = 6 \<or> prot = 17) \<and> real_type = Dgram) then (Inl EPROTONOSUPPORT, st)
             else case libc_socket of
                Inl err \<Rightarrow> (Inl err, st)
              | Inr fd \<Rightarrow>
                  let st = swrap_remove_stale fd st
                  in (case swrap_create_socket (new_socket_info fam real_type prot) fd st of
                        (None, st) \<Rightarrow> (Inl (if 0 \<le> fd \<and> fd < int SOCKET_FDS_MAX then ENFILE else l_errno e), st)
                      | (Some _, st) \<Rightarrow> (Inr fd, st))))"

section \<open>Binding an unbound socket\<close>

definition SOCKET_MAX_SOCKETS :: nat where "SOCKET_MAX_SOCKETS = 1024"

text \<open>Type letter and name by the family asked for; the family of an IPv6 socket may become IPv4.\<close>

definition auto_bind_name :: "libc \<Rightarrow> sa_family \<Rightarrow> socket_info \<Rightarrow> errno + char \<times> socket_info" where
  "auto_bind_name e fam si = (case fam of
      Inet \<Rightarrow>
        (case (case sotype si of Stream \<Rightarrow> Inr SOCKET_TYPE_CHAR_TCP | Dgram \<Rightarrow> Inr SOCKET_TYPE_CHAR_UDP
               | _ \<Rightarrow> Inl ESOCKTNOSUPPORT) of
           Inl err \<Rightarrow> Inl err
         | Inr t \<Rightarrow> Inr (t, si\<lparr>myname := \<lparr>sa_socklen = socket_length Inet,
           sa = zero_sockaddr\<lparr>sa_fam := Inet,
             sa_in := 0x7F000000 OR of_nat (socket_wrapper_default_iface (l_getenv e))\<rparr>\<rparr>\<rparr>))
    | Inet6 \<Rightarrow>
        if family si \<noteq> fam then Inl ENETUNREACH
        else
        (case (case sotype si of Stream \<Rightarrow> Inr SOCKET_TYPE_CHAR_TCP_V6 | Dgram \<Rightarrow> Inr SOCKET_TYPE_CHAR_UDP_V6
               | _ \<Rightarrow> Inl ESOCKTNOSUPPORT) of
           Inl err \<Rightarrow> Inl err
         | Inr t \<Rightarrow> Inr (t, si\<lparr>myname := \<lparr>sa_socklen = socket_length Inet6,
           sa = zero_sockaddr\<lparr>sa_fam := Inet6,
             sa_in6 := swrap_ipv6[15 := of_nat (socket_wrapper_default_iface (l_getenv e))]\<rparr>\<rparr>\<rparr>))
    | _ \<Rightarrow> Inl ESOCKTNOSUPPORT)"

text \<open>The port the search starts from, and the path of the port tried in round \<open>i\<close>.\<close>

definition autobind_init :: "libc \<Rightarrow> int option \<Rightarrow> int" where
  "autobind_init e start = (case start of None \<Rightarrow> l_pid e mod 50000 + 10000 | Some n \<Rightarrow> n)"

definition autobind_wrap :: "int \<Rightarrow> int" where
  "autobind_wrap start = (if start > 60000 then 10000 else start)"

definition autobind_path :: "libc \<Rightarrow> char \<Rightarrow> int \<Rightarrow> nat \<Rightarrow> string" where
  "autobind_path e t start i =
     sun_path (dir_of e) (socket_format t (socket_wrapper_default_iface (l_getenv e)) (nat start + i))"

definition autobind_search :: "libc \<Rightarrow> char \<Rightarrow> int \<Rightarrow> nat option" where
  "autobind_search e t start = List.find (\<lambda>i. \<not> l_stat e (autobind_path e t start i)) [0..<SOCKET_MAX_SOCKETS]"

definition swrap_auto_bind ::
  "libc \<Rightarrow> sa_family \<Rightarrow> int option \<times> socket_info \<Rightarrow> unit sysres \<times> int option \<times> socket_info" where
  "swrap_auto_bind e fam = (\<lambda>(start, si).
     case auto_bind_name e fam si of
       Inl err \<Rightarrow> (Inl err, Some (autobind_init e start), si)
     | Inr (t, si) \<Rightarrow>
         let start = autobind_wrap (autobind_init e start)
         in (case autobind_search e t start of
               None \<Rightarrow> (Inl ENFILE, Some start, si)
             | Some i \<Rightarrow>
                 (case l_bind e (autobind_path e t start i) of
                    Inl err \<Rightarrow> (Inl err, Some start, si)
                  | Inr _ \<Rightarrow>
                      let port = nat start + i
                      in (Inr (), Some (int port + 1),
                          si\<lparr>un_addr := autobind_path e t start i, bound := True, family := fam,
                             myname := set_port fam port (myname si)\<rparr>))))"

section \<open>connect\<close>

definition better_error :: "'a sysres \<Rightarrow> 'a sysres" where
  "better_error r = (if r = Inl ENOENT then Inl EHOSTUNREACH else r)"

text \<open>What a successful connection stores, and what is dumped then.\<close>

definition connect_done ::
  "libc \<Rightarrow> sockaddr \<Rightarrow> nat \<Rightarrow> socket_info \<times> pcap_state \<Rightarrow> socket_info \<times> pcap_state" where
  "connect_done e serv_addr addrlen = (\<lambda>(si, pc).
     let si = si\<lparr>peername := \<lparr>sa_socklen = addrlen, sa = memcpy_addr addrlen serv_addr zero_sockaddr\<rparr>, connected := True\<rparr>;
         si = (if sa_socklen (bindname si) > 0
               then si\<lparr>myname := bindname si, bindname := zero_address\<rparr> else si)
     in dump e serv_addr SWRAP_CONNECT_ACK None 0
          (dump e serv_addr SWRAP_CONNECT_RECV None 0 (si, pc)))"

text \<open>The connection of a socket that is bound.\<close>

definition connect_bound ::
  "libc \<Rightarrow> sockaddr \<Rightarrow> nat \<Rightarrow> socket_info \<times> pcap_state \<Rightarrow> unit sysres outcome \<times> socket_info \<times> pcap_state" where
  "connect_bound e serv_addr addrlen = (\<lambda>(si, pc).
     if family si \<noteq> sa_fam serv_addr then (Returns (Inl EINVAL), si, pc)
     else case fst (sockaddr_convert_to_un (l_getenv e) (dir_of e) (l_stat e) False si serv_addr addrlen) of
       Inl err \<Rightarrow> (Returns (Inl err), si, pc)
     | Inr (path, is_bcast) \<Rightarrow>
         if is_bcast \<noteq> 0 then (Returns (Inl ENETUNREACH), si, pc)
         else
           let (ret, si, pc) =
                 (if sotype si = Dgram then (Inr (), si\<lparr>defer_connect := True\<rparr>, pc)
                  else (better_error (l_connect e path), dump e serv_addr SWRAP_CONNECT_SEND None 0 (si, pc)))
           in case ret of
                Inl err \<Rightarrow> (Returns (Inl err), dump e serv_addr SWRAP_CONNECT_UNREACH None 0 (si, pc))
              | Inr _ \<Rightarrow>
                  if addrlen > sockaddr_storage_size then (Faults (BufferOverrun addrlen), si, pc)
                  else (Returns (Inr ()), connect_done e serv_addr addrlen (si, pc)))"

definition connect_entry ::
  "libc \<Rightarrow> sockaddr \<Rightarrow> nat \<Rightarrow> int option \<Rightarrow> socket_info \<times> pcap_state
     \<Rightarrow> (unit sysres outcome \<times> int option) \<times> socket_info \<times> pcap_state" where
  "connect_entry e serv_addr addrlen start = (\<lambda>(si, pc).
     let (r, start, si) = (if bound si then (Inr (), start, si)
                           else swrap_auto_bind e (sa_fam serv_addr) (start, si))
     in case r of
          Inl err \<Rightarrow> ((Returns (Inl err), start), si, pc)
        | Inr _ \<Rightarrow> (let (r, s) = connect_bound e serv_addr addrlen (si, pc) in ((r, start), s)))"

text \<open>A call on the entry of a descriptor.\<close>

definition entry_call ::
  "int \<Rightarrow> (int option \<Rightarrow> socket_info \<times> pcap_state \<Rightarrow> ('r outcome \<times> int option) \<times> socket_info \<times> pcap_state)
     \<Rightarrow> proc \<Rightarrow> 'r outcome \<times> proc" where
  "entry_call s f p =
     (let idx = find_socket_info_index s (tab p) in
      if idx = - 1 then (ToLibc, p)
      else let ((r, start), st) = on_entry idx (f (autobind_start p)) (tab p)
           in (r, p\<lparr>tab := st, autobind_start := start\<rparr>))"

definition swrap_connect :: "libc \<Rightarrow> int \<Rightarrow> sockaddr \<Rightarrow> nat \<Rightarrow> proc \<Rightarrow> unit sysres outcome \<times> proc" where
  "swrap_connect e s serv_addr addrlen = entry_call s (connect_entry e serv_addr addrlen)"

section \<open>bind and listen\<close>

definition bind_check :: "sa_family \<Rightarrow> sockaddr \<Rightarrow> nat \<Rightarrow> errno option" where
  "bind_check fam myaddr addrlen = (case fam of
      Inet \<Rightarrow>
        if addrlen < socket_length Inet then Some EINVAL
        else if sa_fam myaddr = Unspec \<and> sa_in myaddr = 0 then None
        else if sa_fam myaddr \<noteq> Inet then Some EAFNOSUPPORT else None
    | Inet6 \<Rightarrow>
        if addrlen < socket_length Inet6 then Some EINVAL
        else if sa_fam myaddr \<noteq> Inet6 then Some EAFNOSUPPORT else None
    | _ \<Rightarrow> Some EINVAL)"

text \<open>What \<open>bcast\<close> holds after the conversion, also when that fails.\<close>

definition stored_bcast :: "libc \<Rightarrow> socket_info \<Rightarrow> sockaddr \<Rightarrow> bool" where
  "stored_bcast e si a = (case alloc_target (l_getenv e) si a of Inl _ \<Rightarrow> False | Inr (_, _, b) \<Rightarrow> b \<noteq> 0)"

text \<open>
  The name is stored before the conversion can fail. The file of an earlier socket at the path is
  removed first; the path of the new one is not kept in \<open>un_addr\<close>. The result has the path that
  was unlinked and bound.
\<close>

definition bind_entry ::
  "libc \<Rightarrow> sockaddr \<Rightarrow> nat \<Rightarrow> socket_info \<Rightarrow> (unit sysres outcome \<times> string option) \<times> socket_info" where
  "bind_entry e myaddr addrlen si =
     (case bind_check (family si) myaddr addrlen of
        Some err \<Rightarrow> ((Returns (Inl err), None), si)
      | None \<Rightarrow>
          if addrlen > sockaddr_storage_size then ((Faults (BufferOverrun addrlen), None), si)
          else
            let si = si\<lparr>myname := \<lparr>sa_socklen = addrlen, sa = memcpy_addr addrlen myaddr (sa (myname si))\<rparr>\<rparr>;
                (r, si') = sockaddr_convert_to_un (l_getenv e) (dir_of e) (l_stat e) True si myaddr addrlen;
                si = (if sotype si = Stream \<or> sotype si = Dgram
                      then si'\<lparr>bcast := stored_bcast e si myaddr\<rparr> else si')
            in case r of
                 Inl err \<Rightarrow> ((Returns (Inl err), None), si)
               | Inr (path, _) \<Rightarrow>
                   (case l_bind e path of
                      Inl err \<Rightarrow> ((Returns (Inl err), Some path), si)
                    | Inr _ \<Rightarrow> ((Returns (Inr ()), Some path), si\<lparr>bound := True\<rparr>)))"

definition swrap_bind :: "libc \<Rightarrow> int \<Rightarrow> sockaddr \<Rightarrow> nat \<Rightarrow> proc \<Rightarrow> (unit sysres outcome \<times> string option) \<times> proc" where
  "swrap_bind e s myaddr addrlen p =
     (let idx = find_socket_info_index s (tab p) in
      if idx = - 1 then ((ToLibc, None), p)
      else let (r, st) = on_entry idx (\<lambda>(si, pc). let (r, si) = bind_entry e myaddr addrlen si in (r, si, pc)) (tab p)
           in (r, p\<lparr>tab := st\<rparr>))"

definition listen_entry ::
  "libc \<Rightarrow> unit sysres \<Rightarrow> int option \<Rightarrow> socket_info \<times> pcap_state
     \<Rightarrow> (unit sysres outcome \<times> int option) \<times> socket_info \<times> pcap_state" where
  "listen_entry e libc_listen start = (\<lambda>(si, pc).
     let (r, start, si) = (if bound si then (Inr (), start, si)
                           else swrap_auto_bind e (family si) (start, si))
     in case r of Inl _ \<Rightarrow> ((Returns (Inl EADDRINUSE), start), si, pc)
        | Inr _ \<Rightarrow> ((Returns libc_listen, start), si, pc))"

definition swrap_listen :: "libc \<Rightarrow> unit sysres \<Rightarrow> int \<Rightarrow> proc \<Rightarrow> unit sysres outcome \<times> proc" where
  "swrap_listen e libc_listen s = entry_call s (listen_entry e libc_listen)"

section \<open>accept\<close>

text \<open>
  \<open>libc_accept\<close> has the new descriptor with the path and address length of the peer,
  \<open>libc_getsockname\<close> the path and length of the descriptor itself; \<open>libc_close\<close> is what closing it
  returns. \<open>addr\<close> and \<open>addrlen\<close> are the caller's objects, \<open>None\<close> where the pointer is NULL.
\<close>

definition child_info :: "socket_info \<Rightarrow> sockaddr \<Rightarrow> nat \<Rightarrow> socket_info" where
  "child_info parent_si in_addr in_len =
     zero_info\<lparr>family := family parent_si, sotype := sotype parent_si, protocol := protocol parent_si,
       bound := True, is_server := True, connected := True,
       peername := \<lparr>sa_socklen = in_len, sa = memcpy_addr in_len in_addr zero_sockaddr\<rparr>\<rparr>"

definition or_zero :: "sockaddr option \<Rightarrow> sockaddr" where
  "or_zero a = (case a of None \<Rightarrow> zero_sockaddr | Some a \<Rightarrow> a)"

definition accept_failed ::
  "libc \<Rightarrow> unit sysres \<Rightarrow> int \<Rightarrow> errno \<Rightarrow> 'a \<Rightarrow> swrap \<Rightarrow> (int sysres outcome \<times> 'a) \<times> swrap" where
  "accept_failed e libc_close fd err out st =
     (let (r, st) = swrap_close (l_getenv e) (l_pcap e) fd libc_close st
      in ((Returns (Inl (case r of Inl err \<Rightarrow> err | Inr _ \<Rightarrow> err)), out), st))"

definition accept_dumps :: "libc \<Rightarrow> int \<Rightarrow> sockaddr option \<Rightarrow> swrap \<Rightarrow> swrap" where
  "accept_dumps e idx addr st = (case addr of None \<Rightarrow> st
     | Some addr \<Rightarrow>
         fold (\<lambda>t. dump_on (l_getenv e) (l_pcap e) idx addr t None 0)
           [SWRAP_ACCEPT_SEND, SWRAP_ACCEPT_RECV, SWRAP_ACCEPT_ACK] st)"

text \<open>The last step: the child gets an entry.\<close>

definition accept_enter ::
  "libc \<Rightarrow> unit sysres \<Rightarrow> int \<Rightarrow> socket_info \<Rightarrow> sockaddr option \<times> nat option \<Rightarrow> swrap
     \<Rightarrow> (int sysres outcome \<times> sockaddr option \<times> nat option) \<times> swrap" where
  "accept_enter e libc_close fd child_si out st =
     (case swrap_create_socket child_si fd st of
        (None, st) \<Rightarrow>
          accept_failed e libc_close fd (if 0 \<le> fd \<and> fd < int SOCKET_FDS_MAX then ENFILE else l_errno e) out st
      | (Some idx, st) \<Rightarrow> ((Returns (Inr fd), out), accept_dumps e idx (fst out) st))"

text \<open>The names of an accepted connection: the peer's goes to the caller before the own one is known.\<close>

definition accept_own_name ::
  "libc \<Rightarrow> (string \<times> nat) sysres \<Rightarrow> unit sysres \<Rightarrow> int \<Rightarrow> socket_info \<Rightarrow> sockaddr option \<times> nat option \<Rightarrow> swrap
     \<Rightarrow> (int sysres outcome \<times> sockaddr option \<times> nat option) \<times> swrap" where
  "accept_own_name e libc_getsockname libc_close fd child_si out st =
     (case libc_getsockname of
        Inl err \<Rightarrow> accept_failed e libc_close fd err out st
      | Inr (my_un, my_un_len) \<Rightarrow>
          (case sockaddr_convert_from_un child_si my_un my_un_len (family child_si) sockaddr_storage_size of
             Inl err \<Rightarrow> accept_failed e libc_close fd err out st
           | Inr (my, my_len) \<Rightarrow>
               accept_enter e libc_close fd
                 (child_si\<lparr>myname := \<lparr>sa_socklen = my_len, sa = memcpy_addr my_len (or_zero my) zero_sockaddr\<rparr>\<rparr>)
                 out st))"

definition accept_peer_name ::
  "libc \<Rightarrow> (string \<times> nat) sysres \<Rightarrow> unit sysres \<Rightarrow> socket_info \<Rightarrow> int \<times> string \<times> nat
     \<Rightarrow> sockaddr option \<times> nat option \<Rightarrow> swrap
     \<Rightarrow> (int sysres outcome \<times> sockaddr option \<times> nat option) \<times> swrap" where
  "accept_peer_name e libc_getsockname libc_close parent_si = (\<lambda>(fd, un, un_len) out st.
     case sockaddr_convert_from_un parent_si un un_len (family parent_si) (socket_length (family parent_si)) of
       Inl err \<Rightarrow> accept_failed e libc_close fd err out st
     | Inr (a, in_len) \<Rightarrow>
         accept_own_name e libc_getsockname libc_close fd (child_info parent_si (or_zero a) in_len)
           (case out of
              (Some addr, Some addrlen) \<Rightarrow>
                (Some (memcpy_addr (min addrlen in_len) (or_zero a) addr), Some in_len)
            | _ \<Rightarrow> out) st)"

definition swrap_accept ::
  "libc \<Rightarrow> (int \<times> string \<times> nat) sysres \<Rightarrow> (string \<times> nat) sysres \<Rightarrow> unit sysres \<Rightarrow> int
     \<Rightarrow> sockaddr option \<times> nat option \<Rightarrow> swrap
     \<Rightarrow> (int sysres outcome \<times> sockaddr option \<times> nat option) \<times> swrap" where
  "swrap_accept e libc_accept libc_getsockname libc_close s out st =
     (let idx = find_socket_info_index s st;
          parent_si = swrap_get_socket_info idx st
      in if idx = - 1 then ((ToLibc, out), st)
      else if socket_length (family parent_si) = 0 then ((Returns (Inl EINVAL), out), st)
      else case libc_accept of
        Inl err \<Rightarrow> ((Returns (Inl err), out), if err = ENOTSOCK then swrap_remove_stale s st else st)
      | Inr conn \<Rightarrow> accept_peer_name e libc_getsockname libc_close parent_si conn out st)"

section \<open>Names\<close>

text \<open>Copying a stored name to the caller's object of \<open>addrlen\<close> bytes.\<close>

definition copy_name :: "swrap_address \<Rightarrow> sockaddr \<times> nat \<Rightarrow> sockaddr \<times> nat" where
  "copy_name stored = (\<lambda>(name, addrlen).
     let len = min addrlen (sa_socklen stored)
     in if len = 0 then (name, addrlen) else (memcpy_addr len (sa stored) name, sa_socklen stored))"

definition swrap_getpeername :: "int \<Rightarrow> sockaddr \<times> nat \<Rightarrow> swrap \<Rightarrow> (sockaddr \<times> nat) sysres outcome" where
  "swrap_getpeername s out st =
     (let idx = find_socket_info_index s st; si = swrap_get_socket_info idx st
      in if idx = - 1 then ToLibc
         else if sa_socklen (peername si) = 0 then Returns (Inl ENOTCONN)
         else Returns (Inr (copy_name (peername si) out)))"

definition swrap_getsockname :: "int \<Rightarrow> sockaddr \<times> nat \<Rightarrow> swrap \<Rightarrow> (sockaddr \<times> nat) sysres outcome" where
  "swrap_getsockname s out st =
     (let idx = find_socket_info_index s st; si = swrap_get_socket_info idx st
      in if idx = - 1 then ToLibc else Returns (Inr (copy_name (myname si) out)))"

section \<open>Options\<close>

definition SOL_SOCKET :: int where "SOL_SOCKET = 1"
definition IPPROTO_IP :: int where "IPPROTO_IP = 0"
definition IPPROTO_TCP :: int where "IPPROTO_TCP = 6"
definition IPPROTO_IPV6 :: int where "IPPROTO_IPV6 = 41"
definition SO_TYPE :: int where "SO_TYPE = 3"
definition SO_PROTOCOL :: int where "SO_PROTOCOL = 38"
definition SO_DOMAIN :: int where "SO_DOMAIN = 39"
definition TCP_NODELAY :: int where "TCP_NODELAY = 1"
definition IP_PKTINFO :: int where "IP_PKTINFO = 8"
definition IPV6_RECVPKTINFO :: int where "IPV6_RECVPKTINFO = 49"
definition IPV6_PKTINFO :: int where "IPV6_PKTINFO = 50"

lemmas option_codes = SOL_SOCKET_def IPPROTO_IP_def IPPROTO_TCP_def IPPROTO_IPV6_def SO_TYPE_def SO_PROTOCOL_def
  SO_DOMAIN_def TCP_NODELAY_def IP_PKTINFO_def IPV6_RECVPKTINFO_def IPV6_PKTINFO_def

text \<open>\<open>room\<close> is \<open>*optlen\<close>, \<open>None\<close> if one of the two pointers is NULL; the option is stored with length 4.\<close>

definition swrap_getsockopt :: "int \<Rightarrow> int \<Rightarrow> int \<Rightarrow> nat option \<Rightarrow> swrap \<Rightarrow> int sysres outcome" where
  "swrap_getsockopt s level optname room st =
     (let idx = find_socket_info_index s st; si = swrap_get_socket_info idx st;
          stored = (\<lambda>v. case room of None \<Rightarrow> Returns (Inl EINVAL)
                      | Some optlen \<Rightarrow> if optlen < 4 then Returns (Inl EINVAL) else Returns (Inr v))
      in if idx = - 1 then ToLibc
      else if level = SOL_SOCKET then
        (if optname = SO_DOMAIN then stored (family_code (family si))
         else if optname = SO_PROTOCOL then stored (protocol si)
         else if optname = SO_TYPE then stored (type_code (sotype si))
         else ToLibc)
      else if level = IPPROTO_TCP \<and> optname = TCP_NODELAY then stored (tcp_nodelay si)
      else Returns (Inl ENOPROTOOPT))"

text \<open>\<open>optval\<close> is the integer at the pointer, \<open>None\<close> for NULL.\<close>

definition swrap_setsockopt ::
  "int \<Rightarrow> int \<Rightarrow> int \<Rightarrow> int option \<Rightarrow> nat \<Rightarrow> swrap \<Rightarrow> unit sysres outcome \<times> swrap" where
  "swrap_setsockopt s level optname optval optlen st =
     (let idx = find_socket_info_index s st; si = swrap_get_socket_info idx st
      in if idx = - 1 then (ToLibc, st)
      else if level = SOL_SOCKET then (ToLibc, st)
      else if level = IPPROTO_TCP \<and> optname = TCP_NODELAY then
        (case optval of None \<Rightarrow> (Returns (Inl EINVAL), st)
         | Some i \<Rightarrow> if optlen < 4 then (Returns (Inl EINVAL), st)
                     else if i \<noteq> 0 \<and> i \<noteq> 1 then (Returns (Inl EINVAL), st)
                     else (Returns (Inr ()), set_info idx (si\<lparr>tcp_nodelay := i\<rparr>) st))
      else case family si of
        Inet \<Rightarrow> (Returns (Inr ()),
          if level = IPPROTO_IP \<and> optname = IP_PKTINFO then set_info idx (si\<lparr>pktinfo := family_code Inet\<rparr>) st else st)
      | Inet6 \<Rightarrow> (Returns (Inr ()),
          if level = IPPROTO_IPV6 \<and> optname = IPV6_RECVPKTINFO
          then set_info idx (si\<lparr>pktinfo := family_code Inet6\<rparr>) st else st)
      | _ \<Rightarrow> (Returns (Inl ENOPROTOOPT), st))"

definition FIONREAD :: u64 where "FIONREAD = 0x541B"

text \<open>\<open>libc_vioctl\<close> is what the call returns and \<open>value\<close> the integer at the argument after it.\<close>

definition swrap_vioctl ::
  "libc \<Rightarrow> int sysres \<Rightarrow> int \<Rightarrow> int \<Rightarrow> u64 \<Rightarrow> swrap \<Rightarrow> int sysres \<times> swrap" where
  "swrap_vioctl e libc_vioctl val s r st =
     (let idx = find_socket_info_index s st in
      if idx = - 1 then (libc_vioctl, st)
      else (libc_vioctl,
        if r = FIONREAD \<and>
           ((case libc_vioctl of Inl err \<Rightarrow> err \<noteq> EAGAIN \<and> err \<noteq> ENOBUFS | Inr _ \<Rightarrow> False) \<or> val = 0)
        then dump_on (l_getenv e) (l_pcap e) idx zero_sockaddr SWRAP_PENDING_RST None 0 st else st))"

section \<open>Opening files\<close>

text \<open>The descriptor of the stream, \<open>None\<close> for NULL.\<close>

definition swrap_fopen :: "int option \<Rightarrow> swrap \<Rightarrow> int option \<times> swrap" where
  "swrap_fopen libc_fopen st = (libc_fopen, case libc_fopen of None \<Rightarrow> st | Some fd \<Rightarrow> swrap_remove_stale fd st)"

definition swrap_fopen64 :: "int option \<Rightarrow> swrap \<Rightarrow> int option \<times> swrap" where
  "swrap_fopen64 libc_fopen64 st = (libc_fopen64, case libc_fopen64 of None \<Rightarrow> st | Some fd \<Rightarrow> swrap_remove_stale fd st)"

definition swrap_vopen :: "int sysres \<Rightarrow> swrap \<Rightarrow> int sysres \<times> swrap" where
  "swrap_vopen libc_vopen st = (libc_vopen, case libc_vopen of Inl _ \<Rightarrow> st | Inr fd \<Rightarrow> swrap_remove_stale fd st)"

definition swrap_vopen64 :: "int sysres \<Rightarrow> swrap \<Rightarrow> int sysres \<times> swrap" where
  "swrap_vopen64 libc_vopen64 st = (libc_vopen64, case libc_vopen64 of Inl _ \<Rightarrow> st | Inr fd \<Rightarrow> swrap_remove_stale fd st)"

definition swrap_vopenat :: "int sysres \<Rightarrow> swrap \<Rightarrow> int sysres \<times> swrap" where
  "swrap_vopenat libc_vopenat st = (libc_vopenat, case libc_vopenat of Inl _ \<Rightarrow> st | Inr fd \<Rightarrow> swrap_remove_stale fd st)"

section \<open>bindresvport\<close>

definition SWRAP_STARTPORT :: u16 where "SWRAP_STARTPORT = 600"
definition SWRAP_ENDPORT :: u16 where "SWRAP_ENDPORT = 1023"
definition SWRAP_NPORTS :: nat where "SWRAP_NPORTS = 424"

text \<open>
  The loop with \<open>n\<close> tries left and the result of the last one. Where the descriptor is not
  wrapped, \<open>bind\<close> is that of libc, with result \<open>libc_bind\<close>. The port is compared with the last
  reserved one after it was stored.
\<close>

fun resv_loop ::
  "libc \<Rightarrow> (sockaddr \<Rightarrow> unit sysres) \<Rightarrow> int \<Rightarrow> sa_family \<Rightarrow> nat \<Rightarrow> unit sysres \<Rightarrow> sockaddr \<Rightarrow> u16 \<times> proc
     \<Rightarrow> (unit sysres outcome \<times> sockaddr) \<times> u16 \<times> proc" where
  "resv_loop e libc_bind sd af 0 rc a (port, p) = ((Returns rc, a), port, p)"
| "resv_loop e libc_bind sd af (Suc n) rc a (port, p) =
     (if af \<noteq> Inet \<and> af \<noteq> Inet6 then ((Returns (Inl EAFNOSUPPORT), a), port, p)
      else
        let a = a\<lparr>sa_port := port, sa_fam := af\<rparr>;
            port = (if port > SWRAP_ENDPORT then SWRAP_STARTPORT else port);
            ((r, _), p) = swrap_bind e sd a (socket_length af) p
        in case r of
             Faults f \<Rightarrow> ((Faults f, a), port, p)
           | ToLibc \<Rightarrow>
               if libc_bind a \<noteq> Inl EADDRINUSE then ((Returns (libc_bind a), a), port, p)
               else resv_loop e libc_bind sd af n (libc_bind a) a (port + 1, p)
           | Returns rc \<Rightarrow>
               if rc \<noteq> Inl EADDRINUSE then ((Returns rc, a), port, p)
               else resv_loop e libc_bind sd af n rc a (port + 1, p))"

text \<open>\<open>port\<close> is the static variable. The result has the address after the call, if the caller gave one.\<close>

definition swrap_bindresvport_sa ::
  "libc \<Rightarrow> (sockaddr \<times> nat) sysres \<Rightarrow> (sockaddr \<Rightarrow> unit sysres) \<Rightarrow> int \<Rightarrow> sockaddr option \<Rightarrow> u16 \<times> proc
     \<Rightarrow> (unit sysres outcome \<times> sockaddr option) \<times> u16 \<times> proc" where
  "swrap_bindresvport_sa e libc_getsockname libc_bind sd given = (\<lambda>(port, p).
     let port = (if port = 0 then of_int (l_pid e mod int SWRAP_NPORTS) + SWRAP_STARTPORT else port);
         run = (\<lambda>af a. resv_loop e libc_bind sd af SWRAP_NPORTS (Inl (l_errno e)) a (port, p))
     in case given of
          Some a \<Rightarrow> (let ((r, a), s) = run (sa_fam a) a in ((r, Some a), s))
        | None \<Rightarrow>
            (case (case swrap_getsockname sd (zero_sockaddr, sockaddr_storage_size) (tab p) of
                     Returns r \<Rightarrow> r | _ \<Rightarrow> libc_getsockname) of
               Inl err \<Rightarrow> ((Returns (Inl err), None), port, p)
             | Inr (name, _) \<Rightarrow> (let ((r, _), s) = run (sa_fam name) zero_sockaddr in ((r, None), s))))"

end
