(* ===== verification/Swrap_Msg.thy ===== *)
theory Swrap_Msg
  imports Swrap_Calls
begin

text \<open>
  Messages of socket_wrapper.c: control messages, and what is done before and after a message is
  sent or received, which all the transfer calls share. A \<open>struct msghdr\<close> is modelled as the side
  that uses it sees it. The vector is a list of buffers with their contents. What libc and the
  allocators return are arguments; \<open>unlink\<close> leaves \<open>errno\<close> as it is.
\<close>

section \<open>Control messages\<close>

definition cmsg_align :: "nat \<Rightarrow> nat" where
  "cmsg_align n = (n + 7) div 8 * 8"

definition cmsg_len :: "nat \<Rightarrow> nat" where
  "cmsg_len n = 16 + n"

definition cmsg_space :: "nat \<Rightarrow> nat" where
  "cmsg_space n = cmsg_align n + 16"

text \<open>Overwriting bytes of a buffer.\<close>

definition write_at :: "nat \<Rightarrow> 'a list \<Rightarrow> 'a list \<Rightarrow> 'a list" where
  "write_at ofs bs buf = take ofs buf @ bs @ drop (ofs + length bs) buf"

definition le64 :: "u64 \<Rightarrow> u8 list" where
  "le64 w = le32 (ucast w) @ le32 (ucast (drop_bit 32 w))"

text \<open>
  The receiving side: the address buffer with its room, the vector, the control buffer (\<open>None\<close> for
  NULL), the position and room left in it, and \<open>MSG_CTRUNC\<close>.
\<close>

record recv_msg =
  r_name :: sockaddr
  r_namelen :: nat
  r_iov :: "u8 list list"
  r_control :: "u8 list option"
  r_ofs :: nat
  r_controllen :: nat
  r_ctrunc :: bool

definition swrap_msghdr_add_cmsghdr :: "int \<Rightarrow> int \<Rightarrow> u8 list \<Rightarrow> recv_msg \<Rightarrow> recv_msg" where
  "swrap_msghdr_add_cmsghdr level ctype data msg =
     (let cmlen = cmsg_len (length data);
          cmspace = cmsg_space (length data);
          (cmlen, msg) = (if r_controllen msg < cmlen then (r_controllen msg, msg\<lparr>r_ctrunc := True\<rparr>) else (cmlen, msg));
          cmspace = (if r_controllen msg < cmspace then r_controllen msg else cmspace);
          cm = le64 (of_nat cmlen) @ le32 (of_int level) @ le32 (of_int ctype) @ data
      in msg\<lparr>r_control := map_option (write_at (r_ofs msg) (take cmlen cm)) (r_control msg),
             r_ofs := r_ofs msg + cmspace,
             r_controllen := r_controllen msg - cmspace\<rparr>)"

text \<open>\<open>struct in_pktinfo\<close>: interface, an unused address, the destination address; \<open>struct in6_pktinfo\<close>: address, interface.\<close>

definition swrap_msghdr_add_pktinfo :: "env \<Rightarrow> socket_info \<Rightarrow> recv_msg \<Rightarrow> recv_msg option" where
  "swrap_msghdr_add_pktinfo getenv si msg =
     (let own = (\<lambda>fam. if sa_socklen (bindname si) = socket_length fam then Some (sa (bindname si))
                       else if sa_socklen (myname si) \<noteq> socket_length fam then None
                       else Some (sa (myname si)));
          ifindex = le32 (of_nat (socket_wrapper_default_iface getenv))
      in if pktinfo si = family_code Inet then
           Some (case own Inet of None \<Rightarrow> msg
                 | Some sin \<Rightarrow> swrap_msghdr_add_cmsghdr IPPROTO_IP IP_PKTINFO
                     (ifindex @ le32 0 @ be32 (sa_in sin)) msg)
         else if pktinfo si = family_code Inet6 then
           Some (case own Inet6 of None \<Rightarrow> msg
                 | Some sin6 \<Rightarrow> swrap_msghdr_add_cmsghdr IPPROTO_IPV6 IPV6_PKTINFO (sa_in6 sin6 @ ifindex) msg)
         else None)"

text \<open>\<open>None\<close> is the result -1.\<close>

definition swrap_msghdr_add_socket_info :: "env \<Rightarrow> socket_info \<Rightarrow> recv_msg \<Rightarrow> recv_msg option" where
  "swrap_msghdr_add_socket_info getenv si msg =
     (if pktinfo si > 0 then swrap_msghdr_add_pktinfo getenv si msg else Some msg)"

text \<open>
  The sending side. Control data is the list of messages that \<open>CMSG_FIRSTHDR\<close> and \<open>CMSG_NXTHDR\<close> go
  through. A buffer of copied messages is the list of them with its size.
\<close>

record cmsg =
  c_level :: int
  c_type :: int
  c_len :: nat
  c_data :: "u8 list"

definition swrap_sendmsg_copy_cmsg ::
  "(nat \<Rightarrow> bool) \<Rightarrow> cmsg \<Rightarrow> cmsg list \<times> nat \<Rightarrow> int \<times> cmsg list \<times> nat" where
  "swrap_sendmsg_copy_cmsg realloc cmsg = (\<lambda>(cm_data, cm_data_space).
     let cmspace = cm_data_space + cmsg_align (c_len cmsg)
     in if \<not> realloc cmspace then (- 1, cm_data, cm_data_space)
        else (0, cm_data @ [cmsg], cmspace))"

definition swrap_sendmsg_filter_cmsg_pktinfo :: "cmsg \<Rightarrow> cmsg list \<times> nat \<Rightarrow> int \<times> cmsg list \<times> nat" where
  "swrap_sendmsg_filter_cmsg_pktinfo cmsg cm = (0, cm)"

definition swrap_sendmsg_filter_cmsg_socket :: "cmsg \<Rightarrow> cmsg list \<times> nat \<Rightarrow> int \<times> cmsg list \<times> nat" where
  "swrap_sendmsg_filter_cmsg_socket cmsg cm =
     (if c_type cmsg = IP_PKTINFO then swrap_sendmsg_filter_cmsg_pktinfo cmsg cm
      else if c_type cmsg = IPV6_PKTINFO then swrap_sendmsg_filter_cmsg_pktinfo cmsg cm
      else (- 1, cm))"

datatype name = NoName | Ip sockaddr | Path string

record send_msg =
  s_name :: name
  s_namelen :: nat
  s_iov :: "u8 list list"
  s_control :: "cmsg list option"
  s_controllen :: nat

text \<open>The result is that of the last message, whatever the earlier ones were.\<close>

definition swrap_sendmsg_filter_cmsghdr :: "(nat \<Rightarrow> bool) \<Rightarrow> send_msg \<Rightarrow> int \<times> cmsg list \<times> nat" where
  "swrap_sendmsg_filter_cmsghdr realloc msg =
     (if s_controllen msg = 0 then (0, [], 0)
      else case s_control msg of None \<Rightarrow> (0, [], 0)
      | Some cmsgs \<Rightarrow>
          fold (\<lambda>cmsg (rc, cm).
              if c_level cmsg = IPPROTO_IP then swrap_sendmsg_filter_cmsg_socket cmsg cm
              else swrap_sendmsg_copy_cmsg realloc cmsg cm)
            cmsgs (- 1, [], 0))"

section \<open>Before a message is sent\<close>

text \<open>What a message may be done with: it is ready, the call fails, or the descriptor is no socket.\<close>

datatype 'a before = Ready 'a | Fails errno | NotSocket

text \<open>
  The vector of a stream: the buffers before the first one longer than the limit, or what fits of
  that one if it is the first. The length of earlier buffers is not added up.
\<close>

definition stream_iov :: "nat \<Rightarrow> 'a list list \<Rightarrow> 'a list list" where
  "stream_iov mtu iov =
     (if iov = [] then iov
      else let cut = takeWhile (\<lambda>b. length b \<le> mtu) iov
           in if cut = [] then [take mtu (hd iov)] else cut)"

definition use_mtu :: "libc \<Rightarrow> proc \<Rightarrow> nat \<times> proc" where
  "use_mtu e p = (let mtu = socket_wrapper_mtu (l_getenv e) (max_mtu p) in (unat mtu, p\<lparr>max_mtu := mtu\<rparr>))"

definition sockaddr_un_size :: nat where "sockaddr_un_size = 110"

text \<open>The destination of a datagram, with the address asked for and what is stored in \<open>bcast\<close>.\<close>

definition dgram_target :: "libc \<Rightarrow> socket_info \<Rightarrow> send_msg \<Rightarrow> errno + send_msg \<times> sockaddr option \<times> nat" where
  "dgram_target e si msg =
     (if connected si then
        Inr (if s_name msg \<noteq> NoName then msg\<lparr>s_name := NoName, s_namelen := 0\<rparr> else msg, None, 0)
      else case s_name msg of
        Ip a \<Rightarrow>
          (case fst (sockaddr_convert_to_un (l_getenv e) (dir_of e) (l_stat e) False si a (s_namelen msg)) of
             Inl err \<Rightarrow> Inl err
           | Inr (path, b) \<Rightarrow> Inr (msg\<lparr>s_name := Path path, s_namelen := sockaddr_un_size\<rparr>, Some a, b))
      | _ \<Rightarrow> Inl ENOTCONN)"

text \<open>The binding that a datagram socket without a name gets; \<open>NotSocket\<close> drops the entry.\<close>

definition ensure_bound :: "libc \<Rightarrow> int \<Rightarrow> int \<Rightarrow> proc \<Rightarrow> unit before \<times> proc" where
  "ensure_bound e fd idx p =
     (let si = swrap_get_socket_info idx (tab p) in
      if bound si then (Ready (), p)
      else let (r, start, si) = swrap_auto_bind e (family si) (autobind_start p, si);
               p = p\<lparr>autobind_start := start, tab := set_info idx si (tab p)\<rparr>
           in case r of
                Inr _ \<Rightarrow> (Ready (), p)
              | Inl err \<Rightarrow> if err = ENOTSOCK then (NotSocket, p\<lparr>tab := swrap_remove_stale fd (tab p)\<rparr>)
                           else (Fails err, p))"

text \<open>A datagram socket is connected when the first message goes out.\<close>

definition deferred_connect :: "libc \<Rightarrow> socket_info \<Rightarrow> unit sysres \<times> socket_info" where
  "deferred_connect e si =
     (if \<not> defer_connect si then (Inr (), si)
      else case fst (sockaddr_convert_to_un (l_getenv e) (dir_of e) (l_stat e) False si (sa (peername si))
                       (sa_socklen (peername si))) of
        Inl err \<Rightarrow> (Inl err, si)
      | Inr (path, _) \<Rightarrow>
          (case better_error (l_connect e path) of
             Inl err \<Rightarrow> (Inl err, si)
           | Inr _ \<Rightarrow> (Inr (), si\<lparr>defer_connect := False\<rparr>)))"

definition filter_control :: "(nat \<Rightarrow> bool) \<Rightarrow> send_msg \<Rightarrow> errno \<Rightarrow> errno + send_msg" where
  "filter_control realloc msg err =
     (if s_controllen msg = 0 \<or> s_control msg = None then Inr msg
      else let (rc, cm, cmlen) = swrap_sendmsg_filter_cmsghdr realloc msg
           in if rc < 0 then Inl err
              else if cmlen = 0 then Inr (msg\<lparr>s_control := None, s_controllen := 0\<rparr>)
              else if cmlen < s_controllen msg then Inr (msg\<lparr>s_control := Some cm, s_controllen := cmlen\<rparr>)
              else Inr msg)"

definition swrap_sendmsg_before ::
  "libc \<Rightarrow> (nat \<Rightarrow> bool) \<Rightarrow> int \<Rightarrow> int \<Rightarrow> send_msg \<Rightarrow> proc
     \<Rightarrow> (send_msg \<times> sockaddr option \<times> nat) before \<times> proc" where
  "swrap_sendmsg_before e realloc fd idx msg p =
     (let si = swrap_get_socket_info idx (tab p);
          finish = (\<lambda>(msg, to, b). case filter_control realloc msg (l_errno e) of
             Inl err \<Rightarrow> Fails err | Inr msg \<Rightarrow> Ready (msg, to, b))
      in case sotype si of
        Stream \<Rightarrow>
          if \<not> connected si then (Fails ENOTCONN, p)
          else if s_iov msg = [] then (finish (msg, None, 0), p)
          else let (mtu, p) = use_mtu e p
               in (finish (msg\<lparr>s_iov := stream_iov mtu (s_iov msg)\<rparr>, None, 0), p)
      | Dgram \<Rightarrow>
          (case dgram_target e si msg of
             Inl err \<Rightarrow> (Fails err, p)
           | Inr target \<Rightarrow>
               (case ensure_bound e fd idx p of
                  (NotSocket, p) \<Rightarrow> (NotSocket, p)
                | (Fails err, p) \<Rightarrow> (Fails err, p)
                | (Ready _, p) \<Rightarrow>
                    let (r, si) = deferred_connect e (swrap_get_socket_info idx (tab p));
                        p = p\<lparr>tab := set_info idx si (tab p)\<rparr>
                    in (case r of Inl err \<Rightarrow> (Fails err, p) | Inr _ \<Rightarrow> (finish target, p))))
      | _ \<Rightarrow> (Fails EHOSTUNREACH, p))"

section \<open>After a message was sent\<close>

text \<open>The bytes that the copy loop puts into the buffer: from each part what is still wanted.\<close>

fun gather :: "nat \<Rightarrow> u8 list list \<Rightarrow> u8 list" where
  "gather remain [] = []"
| "gather remain (b # iov) = take remain b @ gather (remain - length b) iov"

text \<open>The \<open>errno\<close> that the caller sees after the system call.\<close>

definition saved_errno :: "libc \<Rightarrow> 'a sysres \<Rightarrow> errno" where
  "saved_errno e ret = (case ret of Inl err \<Rightarrow> if err = ENOENT then EHOSTUNREACH else err | Inr _ \<Rightarrow> l_errno e)"

definition drop_stale :: "int \<Rightarrow> 'a sysres \<Rightarrow> swrap \<Rightarrow> swrap" where
  "drop_stale fd ret st = (case ret of Inl ENOTSOCK \<Rightarrow> swrap_remove_stale fd st | _ \<Rightarrow> st)"

text \<open>How much of the message goes into the capture file.\<close>

definition capture_len :: "nat sysres \<Rightarrow> u8 list list \<Rightarrow> nat" where
  "capture_len ret iov = (case ret of Inl _ \<Rightarrow> min 80 (length (concat iov)) | Inr n \<Rightarrow> n)"

definition send_dumps ::
  "libc \<Rightarrow> int \<Rightarrow> sockaddr option \<Rightarrow> nat sysres \<Rightarrow> u8 list \<Rightarrow> swrap \<Rightarrow> swrap" where
  "send_dumps e idx to ret buf st =
     (let si = swrap_get_socket_info idx st;
          dmp = (\<lambda>addr t buf n. dump_on (l_getenv e) (l_pcap e) idx addr t buf n)
      in case sotype si of
        Stream \<Rightarrow>
          let st = dmp zero_sockaddr SWRAP_SEND (Some buf) (length buf) st
          in (case ret of Inl _ \<Rightarrow> dmp zero_sockaddr SWRAP_SEND_RST None 0 st | Inr _ \<Rightarrow> st)
      | Dgram \<Rightarrow>
          let addr = (if connected si then sa (peername si) else or_zero to);
              st = dmp addr SWRAP_SENDTO (Some buf) (length buf) st
          in (case ret of Inl _ \<Rightarrow> dmp addr SWRAP_SENDTO_UNREACH (Some buf) (length buf) st | Inr _ \<Rightarrow> st)
      | _ \<Rightarrow> st)"

text \<open>\<open>malloc\<close> tells whether a buffer of that size is got. The result of the call has the final \<open>errno\<close>.\<close>

definition swrap_sendmsg_after ::
  "libc \<Rightarrow> (nat \<Rightarrow> bool) \<Rightarrow> int \<Rightarrow> int \<Rightarrow> send_msg \<Rightarrow> sockaddr option \<Rightarrow> nat sysres \<Rightarrow> swrap
     \<Rightarrow> nat sysres \<times> swrap" where
  "swrap_sendmsg_after e malloc fd idx msg to ret st =
     (let st = drop_stale fd ret st;
          remain = capture_len ret (s_iov msg);
          res = (case ret of Inl _ \<Rightarrow> Inl (saved_errno e ret) | Inr n \<Rightarrow> Inr n)
      in if \<not> malloc remain then (res, st)
         else (res, send_dumps e idx to ret (gather remain (s_iov msg)) st))"

section \<open>Before and after a message is received\<close>

text \<open>Every caller gives a place for the address.\<close>

definition swrap_recvmsg_before :: "libc \<Rightarrow> int \<Rightarrow> int \<Rightarrow> recv_msg \<Rightarrow> proc \<Rightarrow> recv_msg before \<times> proc" where
  "swrap_recvmsg_before e fd idx msg p =
     (let si = swrap_get_socket_info idx (tab p)
      in case sotype si of
        Stream \<Rightarrow>
          if \<not> connected si then (Fails ENOTCONN, p)
          else if r_iov msg = [] then (Ready msg, p)
          else let (mtu, p) = use_mtu e p
               in (Ready (msg\<lparr>r_iov := stream_iov mtu (r_iov msg)\<rparr>), p)
      | Dgram \<Rightarrow>
          if r_iov msg = [] then (Ready msg, p)
          else (case ensure_bound e fd idx p of
                  (NotSocket, p) \<Rightarrow> (NotSocket, p)
                | (Fails err, p) \<Rightarrow> (Fails err, p)
                | (Ready _, p) \<Rightarrow> (Ready msg, p))
      | _ \<Rightarrow> (Fails EHOSTUNREACH, p))"

text \<open>
  The sender's address in the buffer of the caller: \<open>None\<close> if the conversion fails. \<open>un\<close> is the path
  and length of the Unix address, \<open>None\<close> for NULL.
\<close>

definition convert_sender :: "socket_info \<Rightarrow> (string \<times> nat) option \<Rightarrow> recv_msg \<Rightarrow> recv_msg option" where
  "convert_sender si un msg =
     (case un of
        Some (path, un_addrlen) \<Rightarrow>
          if sotype si \<noteq> Dgram then Some msg
          else (case sockaddr_convert_from_un si path un_addrlen (family si) (r_namelen msg) of
             Inl _ \<Rightarrow> None
           | Inr (None, len) \<Rightarrow> Some (msg\<lparr>r_namelen := len\<rparr>)
           | Inr (Some a, len) \<Rightarrow> Some (msg\<lparr>r_name := memcpy_addr len a (r_name msg), r_namelen := len\<rparr>))
      | None \<Rightarrow> Some msg)"

definition recv_dumps ::
  "libc \<Rightarrow> int \<Rightarrow> bool \<Rightarrow> sockaddr \<Rightarrow> nat sysres \<Rightarrow> u8 list \<Rightarrow> swrap \<Rightarrow> swrap" where
  "recv_dumps e idx from_given sender ret buf st =
     (let si = swrap_get_socket_info idx st;
          dmp = (\<lambda>addr t buf n. dump_on (l_getenv e) (l_pcap e) idx addr t buf n)
      in case sotype si of
        Stream \<Rightarrow>
          (case ret of
             Inl err \<Rightarrow> if err \<noteq> EAGAIN \<and> err \<noteq> ENOBUFS then dmp zero_sockaddr SWRAP_RECV_RST None 0 st else st
           | Inr n \<Rightarrow> if n = 0 then dmp zero_sockaddr SWRAP_RECV_RST None 0 st
                      else dmp zero_sockaddr SWRAP_RECV (Some buf) n st)
      | Dgram \<Rightarrow>
          (case ret of Inl _ \<Rightarrow> st
           | Inr n \<Rightarrow> dmp sender (if from_given then SWRAP_RECVFROM else SWRAP_RECV) (Some buf) n st)
      | _ \<Rightarrow> st)"

text \<open>
  \<open>malloc\<close> gives the block it returns, \<open>None\<close> if it fails: what the vector does not fill keeps its
  old contents. The result tells whether the function returns 0 and not -1; \<open>errno\<close> is the saved
  one in every case.
\<close>

definition swrap_recvmsg_after ::
  "libc \<Rightarrow> (nat \<Rightarrow> u8 list option) \<Rightarrow> int \<Rightarrow> int \<Rightarrow> (string \<times> nat) option \<Rightarrow> nat sysres \<Rightarrow> recv_msg \<Rightarrow> swrap
     \<Rightarrow> (bool \<times> recv_msg) \<times> swrap" where
  "swrap_recvmsg_after e malloc fd idx un ret msg st =
     (let st = drop_stale fd ret st;
          control = (\<lambda>msg st.
            if r_controllen msg > 0 \<and> r_control msg \<noteq> None
            then (case swrap_msghdr_add_socket_info (l_getenv e) (swrap_get_socket_info idx st) msg of
                    None \<Rightarrow> ((False, msg), st) | Some msg \<Rightarrow> ((True, msg), st))
            else ((True, msg), st))
      in case convert_sender (swrap_get_socket_info idx st) un msg of
           None \<Rightarrow> ((False, msg), st)
         | Some msg \<Rightarrow>
             if concat (r_iov msg) = [] then control msg st
             else let remain = capture_len ret (r_iov msg)
             in (case malloc remain of
                   None \<Rightarrow> ((False, msg), st)
                 | Some block \<Rightarrow>
                     let buf = write_at 0 (gather remain (r_iov msg)) block
                     in control msg (recv_dumps e idx (un \<noteq> None) (r_name msg) ret buf st)))"

text \<open>What a receiving call returns once the message was worked on.\<close>

definition recv_result :: "libc \<Rightarrow> nat sysres \<Rightarrow> bool \<Rightarrow> nat sysres" where
  "recv_result e ret ok = (if \<not> ok then Inl (saved_errno e ret)
     else case ret of Inl _ \<Rightarrow> Inl (saved_errno e ret) | Inr n \<Rightarrow> Inr n)"

end
