(* ===== verification/Swrap_Io.thy ===== *)
theory Swrap_Io
  imports Swrap_Msg
begin

text \<open>
  The calls of socket_wrapper.c that transfer data. \<open>transmit\<close> is what the sending function of libc
  returns for a destination and a vector, \<open>receive\<close> what the receiving function returns with the
  contents of the buffers after it. The messages handed to libc are part of the result.
\<close>

section \<open>Sending\<close>

type_synonym transmit = "name \<Rightarrow> u8 list list \<Rightarrow> nat sysres"
type_synonym messages = "(name \<times> u8 list list) list"

text \<open>The paths of the sockets that a broadcast goes to, on every interface there may be.\<close>

definition bcast_paths :: "libc \<Rightarrow> sockaddr \<Rightarrow> string list" where
  "bcast_paths e to = filter (l_stat e)
     (map (\<lambda>iface. sun_path (dir_of e) (socket_format SOCKET_TYPE_CHAR_UDP iface (unat (sa_port to))))
        [0..<MAX_WRAPPED_INTERFACES + 1])"

definition send_entry ::
  "libc \<Rightarrow> (nat \<Rightarrow> bool) \<Rightarrow> transmit \<Rightarrow> int \<Rightarrow> int \<Rightarrow> send_msg \<Rightarrow> sockaddr option \<Rightarrow> proc
     \<Rightarrow> (nat sysres outcome \<times> messages) \<times> proc" where
  "send_entry e malloc transmit s idx msg to p =
     (let ret = transmit (s_name msg) (s_iov msg);
          (r, st) = swrap_sendmsg_after e malloc s idx msg to ret (tab p)
      in ((Returns r, [(s_name msg, s_iov msg)]), p\<lparr>tab := st\<rparr>))"

definition not_ready :: "'a before \<Rightarrow> errno" where
  "not_ready b = (case b of Fails err \<Rightarrow> err | _ \<Rightarrow> ENOTSOCK)"

definition swrap_sendto ::
  "libc \<Rightarrow> (nat \<Rightarrow> bool) \<Rightarrow> transmit \<Rightarrow> int \<Rightarrow> u8 list \<Rightarrow> sockaddr option \<Rightarrow> nat \<Rightarrow> proc
     \<Rightarrow> (nat sysres outcome \<times> messages) \<times> proc" where
  "swrap_sendto e malloc libc_sendto s buf to tolen p =
     (let idx = find_socket_info_index s (tab p);
          msg = \<lparr>s_name = (case to of None \<Rightarrow> NoName | Some a \<Rightarrow> Ip a), s_namelen = tolen, s_iov = [buf],
                 s_control = None, s_controllen = 0\<rparr>
      in if idx = - 1 then ((ToLibc, []), p)
      else case swrap_sendmsg_before e malloc s idx msg p of
        (Ready (msg, to, bcst), p) \<Rightarrow>
          if bcst \<noteq> 0 then
            let st = dump_on (l_getenv e) (l_pcap e) idx (or_zero to) SWRAP_SENDTO (Some (hd (s_iov msg)))
                       (length (hd (s_iov msg))) (tab p)
            in ((Returns (Inr (length (hd (s_iov msg)))),
                 map (\<lambda>path. (Path path, s_iov msg)) (bcast_paths e (or_zero to))), p\<lparr>tab := st\<rparr>)
          else
            let si = swrap_get_socket_info idx (tab p);
                dest = (if sotype si = Dgram \<and> connected si then NoName else s_name msg)
            in send_entry e malloc libc_sendto s idx (msg\<lparr>s_name := dest\<rparr>) to p
      | (b, p) \<Rightarrow> ((Returns (Inl (not_ready b)), []), p))"

text \<open>\<open>write\<close>, \<open>send\<close> and \<open>writev\<close> give no address.\<close>

definition unnamed :: "u8 list list \<Rightarrow> send_msg" where
  "unnamed iov = \<lparr>s_name = NoName, s_namelen = 0, s_iov = iov, s_control = None, s_controllen = 0\<rparr>"

definition swrap_write ::
  "libc \<Rightarrow> (nat \<Rightarrow> bool) \<Rightarrow> transmit \<Rightarrow> int \<Rightarrow> u8 list \<Rightarrow> proc
     \<Rightarrow> (nat sysres outcome \<times> messages) \<times> proc" where
  "swrap_write e malloc libc_write s buf p =
     (let idx = find_socket_info_index s (tab p)
      in if idx = - 1 then ((ToLibc, []), p)
      else case swrap_sendmsg_before e malloc s idx (unnamed [buf]) p of
        (Ready (msg, _, _), p) \<Rightarrow> send_entry e malloc libc_write s idx msg None p
      | (b, p) \<Rightarrow> ((Returns (Inl (not_ready b)), []), p))"

definition swrap_send ::
  "libc \<Rightarrow> (nat \<Rightarrow> bool) \<Rightarrow> transmit \<Rightarrow> int \<Rightarrow> u8 list \<Rightarrow> proc
     \<Rightarrow> (nat sysres outcome \<times> messages) \<times> proc" where
  "swrap_send e malloc libc_send s buf p =
     (let idx = find_socket_info_index s (tab p)
      in if idx = - 1 then ((ToLibc, []), p)
      else case swrap_sendmsg_before e malloc s idx (unnamed [buf]) p of
        (Ready (msg, _, _), p) \<Rightarrow> send_entry e malloc libc_send s idx msg None p
      | (b, p) \<Rightarrow> ((Returns (Inl (not_ready b)), []), p))"

text \<open>If the descriptor turns out to be no socket, the vector is read into, not written.\<close>

definition swrap_writev ::
  "libc \<Rightarrow> (nat \<Rightarrow> bool) \<Rightarrow> transmit \<Rightarrow> nat sysres \<Rightarrow> int \<Rightarrow> u8 list list \<Rightarrow> proc
     \<Rightarrow> (nat sysres outcome \<times> messages) \<times> proc" where
  "swrap_writev e malloc libc_writev libc_readv s vector p =
     (let idx = find_socket_info_index s (tab p)
      in if idx = - 1 then ((ToLibc, []), p)
      else case swrap_sendmsg_before e malloc s idx (unnamed vector) p of
        (Ready (msg, _, _), p) \<Rightarrow> send_entry e malloc libc_writev s idx msg None p
      | (NotSocket, p) \<Rightarrow> ((Returns libc_readv, []), p)
      | (Fails err, p) \<Rightarrow> ((Returns (Inl err), []), p))"

text \<open>
  The copy of the caller's message. Its control data is looked for in the copy, which has none
  yet, and so is never passed on.
\<close>

definition sendmsg_copy :: "socket_info \<Rightarrow> send_msg \<Rightarrow> send_msg" where
  "sendmsg_copy si omsg =
     (let msg = unnamed (s_iov omsg);
          msg = (if \<not> connected si then msg\<lparr>s_name := s_name omsg, s_namelen := s_namelen omsg\<rparr> else msg)
      in if s_controllen msg > 0 \<and> s_control msg \<noteq> None
         then msg\<lparr>s_control := s_control omsg, s_controllen := s_controllen omsg\<rparr> else msg)"

definition swrap_sendmsg ::
  "libc \<Rightarrow> (nat \<Rightarrow> bool) \<Rightarrow> transmit \<Rightarrow> int \<Rightarrow> send_msg \<Rightarrow> proc
     \<Rightarrow> (nat sysres outcome \<times> messages) \<times> proc" where
  "swrap_sendmsg e malloc libc_sendmsg s omsg p =
     (let idx = find_socket_info_index s (tab p)
      in if idx = - 1 then ((ToLibc, []), p)
      else case swrap_sendmsg_before e malloc s idx (sendmsg_copy (swrap_get_socket_info idx (tab p)) omsg) p of
        (Ready (msg, to, bcst), p) \<Rightarrow>
          if bcst \<noteq> 0 then
            let avail = length (concat (s_iov msg));
                buf = gather avail (s_iov msg)
            in if \<not> malloc avail then ((Returns (Inl ENOMEM), []), p)
               else ((Returns (Inr avail), map (\<lambda>path. (Path path, s_iov msg)) (bcast_paths e (or_zero to))),
                     p\<lparr>tab := dump_on (l_getenv e) (l_pcap e) idx (or_zero to) SWRAP_SENDTO (Some buf) avail (tab p)\<rparr>)
          else send_entry e malloc libc_sendmsg s idx msg to p
      | (b, p) \<Rightarrow> ((Returns (Inl (not_ready b)), []), p))"

section \<open>Receiving\<close>

text \<open>
  A message without control data. The buffers in the results are those of the vector that libc was
  given; what lies behind a buffer that was cut to the limit is unchanged.
\<close>

definition plain_recv :: "sockaddr \<Rightarrow> nat \<Rightarrow> u8 list list \<Rightarrow> recv_msg" where
  "plain_recv a n iov = \<lparr>r_name = a, r_namelen = n, r_iov = iov, r_control = None, r_ofs = 0, r_controllen = 0,
     r_ctrunc = False\<rparr>"

type_synonym receive = "u8 list list \<Rightarrow> nat sysres \<times> u8 list list"

text \<open>
  \<open>recvfrom\<close>: \<open>sender\<close> is the path and length of the address that libc reports. \<open>from\<close> is the caller's
  address object with its length, \<open>None\<close> if one of the pointers is NULL. An error of libc is
  returned at once.
\<close>

definition swrap_recvfrom ::
  "libc \<Rightarrow> (nat \<Rightarrow> u8 list option) \<Rightarrow> receive \<Rightarrow> string \<times> nat \<Rightarrow> int \<Rightarrow> u8 list \<Rightarrow> (sockaddr \<times> nat) option \<Rightarrow> proc
     \<Rightarrow> (nat sysres outcome \<times> u8 list list \<times> (sockaddr \<times> nat) option) \<times> proc" where
  "swrap_recvfrom e malloc libc_recvfrom sender s buf from_out p =
     (let idx = find_socket_info_index s (tab p);
          (a, n) = (case from_out of None \<Rightarrow> (zero_sockaddr, sockaddr_storage_size) | Some x \<Rightarrow> x)
      in if idx = - 1 then ((ToLibc, [buf], from_out), p)
      else case swrap_recvmsg_before e s idx (plain_recv a n [buf]) p of
        (Ready msg, p) \<Rightarrow>
          let (ret, iov) = libc_recvfrom (r_iov msg); msg = msg\<lparr>r_iov := iov\<rparr>
          in (case ret of
                Inl err \<Rightarrow> ((Returns (Inl err), iov, from_out), p)
              | Inr _ \<Rightarrow>
                  let ((ok, m), st) = swrap_recvmsg_after e malloc s idx (Some sender) ret msg (tab p)
                  in ((Returns (recv_result e ret ok), iov,
                       map_option (\<lambda>(_, n). (r_name m, if ok then r_namelen m else n)) from_out), p\<lparr>tab := st\<rparr>))
      | (b, p) \<Rightarrow> ((Returns (Inl (not_ready b)), [buf], from_out), p))"

text \<open>The part that \<open>recv\<close>, \<open>read\<close> and \<open>readv\<close> share.\<close>

definition recv_entry ::
  "libc \<Rightarrow> (nat \<Rightarrow> u8 list option) \<Rightarrow> receive \<Rightarrow> int \<Rightarrow> int \<Rightarrow> recv_msg \<Rightarrow> proc
     \<Rightarrow> (nat sysres outcome \<times> u8 list list) \<times> proc" where
  "recv_entry e malloc libc_recv s idx msg p =
     (let (ret, iov) = libc_recv (r_iov msg);
          ((ok, m), st) = swrap_recvmsg_after e malloc s idx None ret (msg\<lparr>r_iov := iov\<rparr>) (tab p)
      in ((Returns (recv_result e ret ok), iov), p\<lparr>tab := st\<rparr>))"

definition swrap_recv ::
  "libc \<Rightarrow> (nat \<Rightarrow> u8 list option) \<Rightarrow> receive \<Rightarrow> int \<Rightarrow> u8 list \<Rightarrow> proc
     \<Rightarrow> (nat sysres outcome \<times> u8 list list) \<times> proc" where
  "swrap_recv e malloc libc_recv s buf p =
     (let idx = find_socket_info_index s (tab p)
      in if idx = - 1 then ((ToLibc, [buf]), p)
      else case swrap_recvmsg_before e s idx (plain_recv zero_sockaddr sockaddr_storage_size [buf]) p of
        (Ready msg, p) \<Rightarrow> recv_entry e malloc libc_recv s idx msg p
      | (b, p) \<Rightarrow> ((Returns (Inl (not_ready b)), [buf]), p))"

definition swrap_read ::
  "libc \<Rightarrow> (nat \<Rightarrow> u8 list option) \<Rightarrow> receive \<Rightarrow> int \<Rightarrow> u8 list \<Rightarrow> proc
     \<Rightarrow> (nat sysres outcome \<times> u8 list list) \<times> proc" where
  "swrap_read e malloc libc_read s buf p =
     (let idx = find_socket_info_index s (tab p)
      in if idx = - 1 then ((ToLibc, [buf]), p)
      else case swrap_recvmsg_before e s idx (plain_recv zero_sockaddr sockaddr_storage_size [buf]) p of
        (Ready msg, p) \<Rightarrow> recv_entry e malloc libc_read s idx msg p
      | (NotSocket, p) \<Rightarrow> ((Returns (fst (libc_read [buf])), snd (libc_read [buf])), p)
      | (Fails err, p) \<Rightarrow> ((Returns (Inl err), [buf]), p))"

definition swrap_readv ::
  "libc \<Rightarrow> (nat \<Rightarrow> u8 list option) \<Rightarrow> receive \<Rightarrow> int \<Rightarrow> u8 list list \<Rightarrow> proc
     \<Rightarrow> (nat sysres outcome \<times> u8 list list) \<times> proc" where
  "swrap_readv e malloc libc_readv s vector p =
     (let idx = find_socket_info_index s (tab p)
      in if idx = - 1 then ((ToLibc, vector), p)
      else case swrap_recvmsg_before e s idx (plain_recv zero_sockaddr sockaddr_storage_size vector) p of
        (Ready msg, p) \<Rightarrow> recv_entry e malloc libc_readv s idx msg p
      | (NotSocket, p) \<Rightarrow> ((Returns (fst (libc_readv vector)), snd (libc_readv vector)), p)
      | (Fails err, p) \<Rightarrow> ((Returns (Inl err), vector), p))"


text \<open>
  \<open>recvmsg\<close>: libc returns its result, the buffers, the control buffer, how much of it is filled
  and \<open>MSG_CTRUNC\<close>. The length of the sender's address that libc reports is not looked at.
  \<open>oname\<close> is the caller's address object, \<open>None\<close> for NULL.
\<close>

definition swrap_recvmsg ::
  "libc \<Rightarrow> (nat \<Rightarrow> u8 list option)
     \<Rightarrow> (recv_msg \<Rightarrow> nat sysres \<times> u8 list list \<times> u8 list option \<times> nat \<times> bool) \<Rightarrow> string \<Rightarrow> int
     \<Rightarrow> sockaddr option \<times> recv_msg \<Rightarrow> proc
     \<Rightarrow> (nat sysres outcome \<times> sockaddr option \<times> recv_msg) \<times> proc" where
  "swrap_recvmsg e malloc libc_recvmsg sender s = (\<lambda>(oname, omsg) p.
     let idx = find_socket_info_index s (tab p)
     in if idx = - 1 then ((ToLibc, oname, omsg), p)
     else case swrap_recvmsg_before e s idx omsg p of
       (Ready msg, p) \<Rightarrow>
         let (ret, iov, control, filled, trunc) = libc_recvmsg msg;
             left = r_controllen omsg - filled;
             msg = \<lparr>r_name = zero_sockaddr, r_namelen = sockaddr_storage_size, r_iov = iov, r_control = control,
                    r_ofs = filled, r_controllen = (if r_control omsg = None then 0 else left), r_ctrunc = trunc\<rparr>;
             ((ok, msg), st) = swrap_recvmsg_after e malloc s idx (Some (sender, sockaddr_un_size)) ret msg (tab p);
             p = p\<lparr>tab := st\<rparr>
         in if \<not> ok then ((Returns (recv_result e ret ok), oname, omsg\<lparr>r_iov := iov, r_control := r_control msg\<rparr>), p)
         else
           let filled = (if r_control omsg \<noteq> None then r_controllen omsg - r_controllen msg else filled);
               out = omsg\<lparr>r_iov := iov, r_control := r_control msg, r_controllen := filled, r_ctrunc := r_ctrunc msg\<rparr>
           in if sotype (swrap_get_socket_info idx st) = Stream
              then ((Returns (recv_result e ret ok), oname, out\<lparr>r_namelen := 0\<rparr>), p)
              else (case oname of
                      Some a \<Rightarrow>
                        if r_namelen omsg \<noteq> 0 \<and> r_namelen omsg \<ge> r_namelen msg
                        then ((Returns (recv_result e ret ok), Some (memcpy_addr (r_namelen msg) (r_name msg) a),
                               out\<lparr>r_namelen := r_namelen msg\<rparr>), p)
                        else ((Returns (recv_result e ret ok), oname, out), p)
                    | None \<Rightarrow> ((Returns (recv_result e ret ok), None, out), p))
     | (b, p) \<Rightarrow> ((Returns (Inl (not_ready b)), oname, omsg), p))"

end
