(* ===== verification/Swrap_Run.thy ===== *)
theory Swrap_Run
  imports Swrap_Io
begin

text \<open>
  Runs of the whole socket wrapper: sequences of all its calls on one process, whatever libc
  returns. Every live entry stays well typed, the table stays consistent, and no path that an
  entry has held is lost.
\<close>

section \<open>Well-typed entries\<close>

definition name_ok :: "swrap_address \<Rightarrow> bool" where
  "name_ok a \<longleftrightarrow> addr_ok (sa a) \<and> sa_socklen a \<le> sockaddr_storage_size"

definition entry_ok :: "socket_info \<Rightarrow> bool" where
  "entry_ok si \<longleftrightarrow> family si \<in> {Inet, Inet6} \<and> sotype si \<in> {Stream, Dgram} \<and> protocol si \<in> {0, 6, 17}
     \<and> (sotype si = Stream \<longrightarrow> protocol si \<noteq> 17) \<and> tcp_nodelay si \<in> {0, 1}
     \<and> pktinfo si \<in> {0, family_code Inet, family_code Inet6}
     \<and> (connected si \<longrightarrow> bound si) \<and> (defer_connect si \<longrightarrow> connected si \<and> sotype si = Dgram)
     \<and> (is_server si \<longrightarrow> connected si) \<and> (\<not> bound si \<longrightarrow> un_addr si = '''')
     \<and> name_ok (myname si) \<and> name_ok (peername si) \<and> name_ok (bindname si)"

lemma addr_ok_zero [simp]: "addr_ok zero_sockaddr"
  by (simp add: addr_ok_def zero_sockaddr_def)

lemma name_ok_zero [simp]: "name_ok zero_address"
  by (simp add: name_ok_def zero_address_def)

lemma socket_length_small: "socket_length fam \<le> 28"
  by (simp add: socket_length_def split: sa_family.split)

lemma socket_length_storage [simp]: "socket_length fam \<le> sockaddr_storage_size"
  using socket_length_small [of fam] by (simp add: sockaddr_storage_size_def)

lemma length_addr_bytes: "addr_ok a \<Longrightarrow> length (addr_bytes a) = 24"
  by (simp add: addr_bytes_def addr_ok_def)

lemma memcpy_addr_ok:
  assumes "addr_ok a" "addr_ok b"
  shows "addr_ok (memcpy_addr n a b)"
  using assms length_addr_bytes [of a] length_addr_bytes [of b]
  by (simp add: memcpy_addr_def bytes_addr_def addr_ok_def)

lemma name_ok_copied:
  "addr_ok a \<Longrightarrow> addr_ok b \<Longrightarrow> n \<le> sockaddr_storage_size \<Longrightarrow> name_ok \<lparr>sa_socklen = n, sa = memcpy_addr n a b\<rparr>"
  by (simp add: name_ok_def memcpy_addr_ok)

lemma name_ok_addr: "name_ok a \<Longrightarrow> addr_ok (sa a)"
  by (simp add: name_ok_def)

lemma set_port_ok [simp]: "name_ok (set_port fam prt a) = name_ok a"
  by (simp add: set_port_def name_ok_def addr_ok_def split: sa_family.split)

lemma length_ipv6 [simp]: "length swrap_ipv6 = 16"
  by (simp add: swrap_ipv6_def)

lemma converted_ok:
  assumes "sockaddr_convert_from_un si un n fam room = Inr (a, len)"
  shows "addr_ok (or_zero a)" "len \<le> sockaddr_storage_size"
  using assms
  by (auto simp: sockaddr_convert_from_un_def convert_un_in_def or_zero_def addr_ok_def zero_sockaddr_def
      split: if_splits sum.splits option.splits)

section \<open>What the operations on an entry keep\<close>

text \<open>An operation may give an entry a path if it has none.\<close>

definition evolves :: "socket_info \<Rightarrow> socket_info \<Rightarrow> bool" where
  "evolves si si' \<longleftrightarrow> (entry_ok si \<longrightarrow> entry_ok si' \<and> (un_addr si' = un_addr si \<or> un_addr si = ''''))"

lemma evolves_refl: "evolves si si"
  by (simp add: evolves_def)

lemma evolves_trans: "evolves a b \<Longrightarrow> evolves b c \<Longrightarrow> evolves a c"
  by (auto simp: evolves_def)

text \<open>A dump changes the sequence numbers only.\<close>

lemma event_counters:
  assumes "pcap_handshake si addr t = Some (g, si') \<or> pcap_close si t = Some (g, si') \<or> pcap_data si addr t n = Some (g, si')"
  shows "\<exists>a b. si' = si\<lparr>pck_snd := a, pck_rcv := b\<rparr>"
proof -
  have "si' = si \<or> (\<exists>a. si' = si\<lparr>pck_snd := a\<rparr>) \<or> (\<exists>a. si' = si\<lparr>pck_rcv := a\<rparr>)"
    using assms
    by (elim disjE; cases t) (simp_all add: pcap_handshake_def pcap_close_def pcap_data_def split: if_splits, blast+)
  then show ?thesis
  proof (elim disjE exE)
    assume "si' = si"
    then have "si' = si\<lparr>pck_snd := pck_snd si, pck_rcv := pck_rcv si\<rparr>" by simp
    then show ?thesis by blast
  next
    fix a
    assume "si' = si\<lparr>pck_snd := a\<rparr>"
    then have "si' = si\<lparr>pck_snd := a, pck_rcv := pck_rcv si\<rparr>" by simp
    then show ?thesis by blast
  next
    fix a
    assume "si' = si\<lparr>pck_rcv := a\<rparr>"
    then have "si' = si\<lparr>pck_snd := pck_snd si, pck_rcv := a\<rparr>" by simp
    then show ?thesis by blast
  qed
qed

lemma marshall_counters:
  assumes "swrap_pcap_marshall_packet alloc tv si addr t buf n = (r, si')"
  shows "\<exists>a b. si' = si\<lparr>pck_snd := a, pck_rcv := b\<rparr>"
proof (cases "si' = si")
  case True
  then have "si' = si\<lparr>pck_snd := pck_snd si, pck_rcv := pck_rcv si\<rparr>" by simp
  then show ?thesis by blast
next
  case False
  then obtain g where "(if t \<in> set handshake_types then pcap_handshake si addr t
     else if t \<in> set close_types then pcap_close si t else pcap_data si addr t n) = Some (g, si')"
    using assms by (auto simp: swrap_pcap_marshall_packet_def split: if_splits option.splits)
  then show ?thesis by (intro event_counters) (auto split: if_splits)
qed

lemma dump_counters:
  assumes "swrap_pcap_dump_packet getenv os addr t buf n (si, pc) = (si', pc')"
  shows "\<exists>a b. si' = si\<lparr>pck_snd := a, pck_rcv := b\<rparr>"
proof -
  have "\<exists>r. swrap_pcap_marshall_packet (o_alloc os) (o_now os) si addr t buf n = (r, si') \<or> si' = si"
    using assms by (auto simp: swrap_pcap_dump_packet_def Let_def split: option.splits prod.splits if_splits)
  then show ?thesis
  proof (elim exE disjE)
    assume "si' = si"
    then have "si' = si\<lparr>pck_snd := pck_snd si, pck_rcv := pck_rcv si\<rparr>" by simp
    then show ?thesis by blast
  qed (rule marshall_counters)
qed

lemma counters_ok [simp]: "entry_ok (si\<lparr>pck_snd := a, pck_rcv := b\<rparr>) = entry_ok si"
  by (simp add: entry_ok_def)

lemma dump_evolves: "evolves si (fst (dump e addr t buf n (si, pc)))"
proof -
  obtain si' pc' where d: "swrap_pcap_dump_packet (l_getenv e) (l_pcap e t) addr t buf n (si, pc) = (si', pc')" by fastforce
  from dump_counters [OF d] d show ?thesis by (auto simp: evolves_def dump_def)
qed

definition start_ok :: "int option \<Rightarrow> bool" where
  "start_ok start = (case start of None \<Rightarrow> True | Some n \<Rightarrow> 10000 \<le> n \<and> n \<le> 61024)"

lemma loopback_name_ok [simp]:
  "name_ok \<lparr>sa_socklen = socket_length f, sa = zero_sockaddr\<lparr>sa_fam := g, sa_in := a\<rparr>\<rparr>"
  "length b = 16 \<Longrightarrow> name_ok \<lparr>sa_socklen = socket_length f, sa = zero_sockaddr\<lparr>sa_fam := g, sa_in6 := b\<rparr>\<rparr>"
  by (simp_all add: name_ok_def addr_ok_def zero_sockaddr_def)

lemma auto_bind_name_eq:
  assumes "auto_bind_name e fam si = Inr (t, si')"
  shows "fam = Inet \<or> fam = Inet6" "name_ok (myname si')" "si' = si\<lparr>myname := myname si'\<rparr>"
    "sotype si = Stream \<or> sotype si = Dgram" "t = type_letter fam (sotype si)"
    "fam = Inet6 \<Longrightarrow> family si = Inet6"
proof -
  consider "fam = Inet" | "fam = Inet6" | "fam \<noteq> Inet" "fam \<noteq> Inet6" by blast
  then have "(fam = Inet \<or> fam = Inet6) \<and> name_ok (myname si') \<and> si' = si\<lparr>myname := myname si'\<rparr>
    \<and> (sotype si = Stream \<or> sotype si = Dgram) \<and> t = type_letter fam (sotype si) \<and> (fam = Inet6 \<longrightarrow> family si = Inet6)"
  proof cases
    case 1
    then show ?thesis using assms by (cases "sotype si") (auto simp: auto_bind_name_def type_letter_def)
  next
    case 2
    then show ?thesis
      using assms by (cases "sotype si") (auto simp: auto_bind_name_def type_letter_def split: if_splits)
  next
    case 3
    then show ?thesis using assms by (cases fam) (auto simp: auto_bind_name_def)
  qed
  then show "fam = Inet \<or> fam = Inet6" "name_ok (myname si')" "si' = si\<lparr>myname := myname si'\<rparr>"
    "sotype si = Stream \<or> sotype si = Dgram" "t = type_letter fam (sotype si)"
    "fam = Inet6 \<Longrightarrow> family si = Inet6"
    by blast+
qed

lemma auto_bind_name_ok:
  assumes "auto_bind_name e fam si = Inr (t, si')" "entry_ok si"
  shows "entry_ok si'" "un_addr si' = un_addr si" "bound si' = bound si" "fam = Inet \<or> fam = Inet6"
    "sotype si' = sotype si"
proof -
  obtain m where m: "name_ok m" "si' = si\<lparr>myname := m\<rparr>"
    using auto_bind_name_eq [OF assms(1)] by blast
  show "entry_ok si'" "un_addr si' = un_addr si" "bound si' = bound si" "sotype si' = sotype si"
    using m assms(2) by (simp_all add: entry_ok_def)
  show "fam = Inet \<or> fam = Inet6" by (rule auto_bind_name_eq(1) [OF assms(1)])
qed

lemma find_less: "List.find P [0..<n] = Some i \<Longrightarrow> i < n"
  by (auto simp: find_Some_iff)

lemma autobind_range:
  assumes "start_ok start"
  shows "start_ok (Some (autobind_init e start))"
    "10000 \<le> autobind_wrap (autobind_init e start)" "autobind_wrap (autobind_init e start) \<le> 60000"
proof -
  have "0 \<le> l_pid e mod 50000" "l_pid e mod 50000 < 50000" by simp_all
  then show "start_ok (Some (autobind_init e start))"
    "10000 \<le> autobind_wrap (autobind_init e start)" "autobind_wrap (autobind_init e start) \<le> 60000"
    using assms by (auto simp: start_ok_def autobind_init_def autobind_wrap_def split: option.splits)
qed

text \<open>What happens: the name is refused, no port or no binding is got, or the socket is bound.\<close>

lemma auto_bind_cases:
  assumes "swrap_auto_bind e fam (start, si) = (r, start', si')"
  obtains (refused) err where "auto_bind_name e fam si = Inl err" "r = Inl err"
      "start' = Some (autobind_init e start)" "si' = si"
  | (failed) t s err where "auto_bind_name e fam si = Inr (t, si')" "s = autobind_wrap (autobind_init e start)"
      "r = Inl err" "start' = Some s" "autobind_search e t s = None \<longrightarrow> err = ENFILE"
  | (given) t sj s i where "auto_bind_name e fam si = Inr (t, sj)" "s = autobind_wrap (autobind_init e start)"
      "autobind_search e t s = Some i" "l_bind e (autobind_path e t s i) = Inr ()" "r = Inr ()"
      "start' = Some (int (nat s + i) + 1)"
      "si' = sj\<lparr>un_addr := autobind_path e t s i, bound := True, family := fam,
               myname := set_port fam (nat s + i) (myname sj)\<rparr>"
proof (cases "auto_bind_name e fam si")
  case (Inl err)
  then show ?thesis using assms by (intro that(1) [of err]) (simp_all add: swrap_auto_bind_def)
next
  case (Inr x)
  then obtain t sj where x: "auto_bind_name e fam si = Inr (t, sj)" by (cases x) auto
  let ?s = "autobind_wrap (autobind_init e start)"
  show ?thesis
  proof (cases "autobind_search e t ?s")
    case None
    then show ?thesis using assms x by (intro that(2) [of t ?s ENFILE]) (simp_all add: swrap_auto_bind_def)
  next
    case (Some i)
    then show ?thesis
  proof (cases "l_bind e (autobind_path e t ?s i)")
    case (Inl err)
    then show ?thesis using assms x Some by (intro that(2) [of t ?s err]) (simp_all add: swrap_auto_bind_def)
  next
    case (Inr u)
    then show ?thesis using assms x Some by (intro that(3) [of t sj ?s i]) (simp_all add: swrap_auto_bind_def Let_def)
  qed
  qed
qed

lemma search_small: "autobind_search e t s = Some i \<Longrightarrow> i < 1024"
  unfolding autobind_search_def using find_less by (fastforce simp: SOCKET_MAX_SOCKETS_def)

lemma auto_bind_start:
  assumes "swrap_auto_bind e fam (start, si) = (r, start', si')" "start_ok start"
  shows "start_ok start'"
  using assms(1)
proof (cases rule: auto_bind_cases)
  case refused
  then show ?thesis using assms(2) autobind_range by simp
next
  case (failed t s err)
  then show ?thesis using autobind_range [of start e] assms(2) by (auto simp: start_ok_def)
next
  case (given t sj s i)
  then show ?thesis
    using autobind_range(2,3) [of start e] search_small [OF given(3)] assms(2) by (auto simp: start_ok_def)
qed

lemma auto_bind_keeps_all:
  assumes b: "swrap_auto_bind e fam (start, si) = (r, start', si')" and ok: "entry_ok si" "\<not> bound si"
  shows "entry_ok si' \<and> sotype si' = sotype si
    \<and> (case r of Inl _ \<Rightarrow> un_addr si' = un_addr si \<and> bound si' = bound si | Inr _ \<Rightarrow> bound si' \<and> family si' = fam)"
  using b
proof (cases rule: auto_bind_cases)
  case refused
  then show ?thesis using ok by simp
next
  case (failed t s err)
  from failed auto_bind_name_ok [OF failed(1) ok(1)] show ?thesis by auto
next
  case (given t sj s i)
  note j = auto_bind_name_ok [OF given(1) ok(1)]
  have "entry_ok si'" using j given(7) by (auto simp: entry_ok_def)
  then show ?thesis using j given by simp
qed

lemmas auto_bind_keeps =
  auto_bind_keeps_all [THEN conjunct1]
  auto_bind_keeps_all [THEN conjunct2, THEN conjunct1]
  auto_bind_keeps_all [THEN conjunct2, THEN conjunct2]

lemma dump_eq:
  "\<exists>a b pc'. dump e addr t buf n (si, pc) = (si\<lparr>pck_snd := a, pck_rcv := b\<rparr>, pc')"
proof -
  obtain si' pc' where d: "swrap_pcap_dump_packet (l_getenv e) (l_pcap e t) addr t buf n (si, pc) = (si', pc')" by fastforce
  from dump_counters [OF d] d show ?thesis by (auto simp: dump_def)
qed

lemma connect_done_eq:
  "\<exists>a b pc'. connect_done e addr n (si, pc) =
     (si\<lparr>peername := \<lparr>sa_socklen = n, sa = memcpy_addr n addr zero_sockaddr\<rparr>, connected := True,
        myname := (if sa_socklen (bindname si) > 0 then bindname si else myname si),
        bindname := (if sa_socklen (bindname si) > 0 then zero_address else bindname si),
        pck_snd := a, pck_rcv := b\<rparr>, pc')"
proof -
  define sj where "sj = si\<lparr>peername := \<lparr>sa_socklen = n, sa = memcpy_addr n addr zero_sockaddr\<rparr>, connected := True,
        myname := (if sa_socklen (bindname si) > 0 then bindname si else myname si),
        bindname := (if sa_socklen (bindname si) > 0 then zero_address else bindname si)\<rparr>"
  have "connect_done e addr n (si, pc) =
    dump e addr SWRAP_CONNECT_ACK None 0 (dump e addr SWRAP_CONNECT_RECV None 0 (sj, pc))"
    by (simp add: connect_done_def sj_def)
  moreover obtain a b pc1 where "dump e addr SWRAP_CONNECT_RECV None 0 (sj, pc) = (sj\<lparr>pck_snd := a, pck_rcv := b\<rparr>, pc1)"
    using dump_eq by blast
  moreover obtain a' b' pc2 where "dump e addr SWRAP_CONNECT_ACK None 0 (sj\<lparr>pck_snd := a, pck_rcv := b\<rparr>, pc1)
      = (sj\<lparr>pck_snd := a, pck_rcv := b, pck_snd := a', pck_rcv := b'\<rparr>, pc2)"
    using dump_eq by blast
  ultimately show ?thesis unfolding sj_def by auto
qed

lemma connect_done_ok:
  assumes "addr_ok addr" "n \<le> sockaddr_storage_size" "bound si" "entry_ok si" "d \<Longrightarrow> sotype si = Dgram"
  shows "entry_ok (fst (connect_done e addr n (si\<lparr>defer_connect := d\<rparr>, pc)))"
    "un_addr (fst (connect_done e addr n (si\<lparr>defer_connect := d\<rparr>, pc))) = un_addr si"
proof -
  let ?sj = "si\<lparr>defer_connect := d\<rparr>"
  obtain a b pc' where c: "connect_done e addr n (?sj, pc) =
     (?sj\<lparr>peername := \<lparr>sa_socklen = n, sa = memcpy_addr n addr zero_sockaddr\<rparr>, connected := True,
        myname := (if sa_socklen (bindname ?sj) > 0 then bindname ?sj else myname ?sj),
        bindname := (if sa_socklen (bindname ?sj) > 0 then zero_address else bindname ?sj),
        pck_snd := a, pck_rcv := b\<rparr>, pc')"
    using connect_done_eq by blast
  have "name_ok \<lparr>sa_socklen = n, sa = memcpy_addr n addr zero_sockaddr\<rparr>"
    using assms by (intro name_ok_copied) simp_all
  then show "entry_ok (fst (connect_done e addr n (?sj, pc)))"
    using assms(3-5) unfolding c by (simp add: entry_ok_def)
  show "un_addr (fst (connect_done e addr n (?sj, pc))) = un_addr si" by (simp add: c)
qed

lemma connect_bound_evolves:
  assumes "addr_ok addr" "n \<le> sockaddr_storage_size" "bound si"
  shows "evolves si (fst (snd (connect_bound e addr n (si, pc))))"
proof (cases "family si \<noteq> sa_fam addr")
  case True
  then show ?thesis by (simp add: connect_bound_def evolves_def)
next
  case fam: False
  show ?thesis
  proof (cases "fst (sockaddr_convert_to_un (l_getenv e) (dir_of e) (l_stat e) False si addr n)")
    case (Inl err)
    then show ?thesis using fam by (simp add: connect_bound_def evolves_def)
  next
    case (Inr x)
    obtain path b where x: "x = (path, b)" by fastforce
    show ?thesis
    proof (cases "b = 0")
      case False
      then show ?thesis using fam Inr x by (simp add: connect_bound_def evolves_def)
    next
      case b: True
      show ?thesis
      proof (cases "sotype si = Dgram")
        case True
        have c: "connect_bound e addr n (si, pc) = (Returns (Inr ()), connect_done e addr n (si\<lparr>defer_connect := True\<rparr>, pc))"
          using fam Inr x b True assms(2) by (simp add: connect_bound_def Let_def)
        from connect_done_ok [of addr n si True e pc] True assms show ?thesis
          by (simp add: c evolves_def)
      next
        case False
        obtain sa sb pc1 where s: "dump e addr SWRAP_CONNECT_SEND None 0 (si, pc) = (si\<lparr>pck_snd := sa, pck_rcv := sb\<rparr>, pc1)"
          using dump_eq by blast
        define sj where "sj = si\<lparr>pck_snd := sa, pck_rcv := sb\<rparr>"
        have d: "sj\<lparr>defer_connect := defer_connect sj\<rparr> = sj" by simp
        have sj: "entry_ok sj = entry_ok si" "un_addr sj = un_addr si" "bound sj = bound si"
          "entry_ok sj \<Longrightarrow> defer_connect sj \<Longrightarrow> sotype sj = Dgram"
          by (simp_all add: sj_def) (simp add: entry_ok_def)
        have c: "connect_bound e addr n (si, pc) = (case better_error (l_connect e path) of
            Inl err \<Rightarrow> (Returns (Inl err), dump e addr SWRAP_CONNECT_UNREACH None 0 (sj, pc1))
          | Inr _ \<Rightarrow> (Returns (Inr ()), connect_done e addr n (sj, pc1)))"
          using fam Inr x b False assms(2) by (simp add: connect_bound_def s sj_def split: sum.split)
        show ?thesis
        proof (cases "better_error (l_connect e path)")
          case (Inl err)
          then show ?thesis
            using dump_evolves [of sj e addr SWRAP_CONNECT_UNREACH None 0 pc1] sj by (simp add: c evolves_def)
        next
          case (Inr u)
          then show ?thesis
            using connect_done_ok [of addr n sj "defer_connect sj" e pc1, unfolded d] sj assms by (simp add: c evolves_def)
        qed
      qed
    qed
  qed
qed

text \<open>An operation on an entry that may also bind it.\<close>

definition entry_keeps ::
  "(int option \<Rightarrow> socket_info \<times> pcap_state \<Rightarrow> ('r outcome \<times> int option) \<times> socket_info \<times> pcap_state) \<Rightarrow> bool" where
  "entry_keeps f \<longleftrightarrow> (\<forall>start si pc. case f start (si, pc) of ((r, start'), si', pc') \<Rightarrow>
     evolves si si' \<and> (start_ok start \<longrightarrow> start_ok start'))"

lemma entry_keepsI:
  assumes "\<And>start si pc r start' si' pc'. f start (si, pc) = ((r, start'), si', pc') \<Longrightarrow> entry_ok si \<Longrightarrow>
     entry_ok si' \<and> (un_addr si' = un_addr si \<or> un_addr si = '''')"
    and "\<And>start si pc r start' si' pc'. f start (si, pc) = ((r, start'), si', pc') \<Longrightarrow> start_ok start \<Longrightarrow> start_ok start'"
  shows "entry_keeps f"
  unfolding entry_keeps_def evolves_def using assms by (clarsimp split: prod.split)

text \<open>The binding that a call does first.\<close>

definition bind_first :: "libc \<Rightarrow> sa_family \<Rightarrow> int option \<Rightarrow> socket_info \<Rightarrow> unit sysres \<times> int option \<times> socket_info" where
  "bind_first e fam start si = (if bound si then (Inr (), start, si) else swrap_auto_bind e fam (start, si))"

lemma bind_first_start:
  "bind_first e fam start si = (r, start', si') \<Longrightarrow> start_ok start \<Longrightarrow> start_ok start'"
  using auto_bind_start by (auto simp: bind_first_def split: if_splits)

lemma bind_first_keeps:
  assumes "bind_first e fam start si = (r, start', si')" "entry_ok si"
  shows "entry_ok si'" "un_addr si' = un_addr si \<or> un_addr si = ''''"
    "r = Inr u \<Longrightarrow> bound si'" "sotype si' = sotype si"
proof -
  have "entry_ok si' \<and> (un_addr si' = un_addr si \<or> un_addr si = '''')
      \<and> (r = Inr u \<longrightarrow> bound si') \<and> sotype si' = sotype si"
  proof (cases "bound si")
    case True
    then show ?thesis using assms by (auto simp: bind_first_def)
  next
    case False
    then have b: "swrap_auto_bind e fam (start, si) = (r, start', si')" using assms(1) by (simp add: bind_first_def)
    have "un_addr si = ''''" using assms(2) False by (simp add: entry_ok_def)
    then show ?thesis using auto_bind_keeps [OF b assms(2) False] by (auto split: sum.splits)
  qed
  then show "entry_ok si'" "un_addr si' = un_addr si \<or> un_addr si = ''''"
    "r = Inr u \<Longrightarrow> bound si'" "sotype si' = sotype si" by blast+
qed

lemma connect_entry_keeps:
  assumes "addr_ok addr" "n \<le> sockaddr_storage_size"
  shows "entry_keeps (connect_entry e addr n)"
proof (rule entry_keepsI)
  fix start si pc r start' si' pc'
  assume c: "connect_entry e addr n start (si, pc) = ((r, start'), si', pc')" and ok: "entry_ok si"
  obtain q s1 sj where b: "bind_first e (sa_fam addr) start si = (q, s1, sj)" by (metis prod_cases3)
  have eq: "connect_entry e addr n start (si, pc) = (case q of
          Inl err \<Rightarrow> ((Returns (Inl err), s1), sj, pc)
        | Inr _ \<Rightarrow> (let (r, s) = connect_bound e addr n (sj, pc) in ((r, s1), s)))"
    using b by (simp add: connect_entry_def bind_first_def)
  show "entry_ok si' \<and> (un_addr si' = un_addr si \<or> un_addr si = '''')"
  proof (cases q)
    case (Inl err)
    then show ?thesis using c eq bind_first_keeps [OF b ok] by auto
  next
    case (Inr u)
    have bd: "bound sj" by (rule bind_first_keeps(3) [OF b ok Inr])
    show ?thesis
      using c eq Inr bind_first_keeps [OF b ok] connect_bound_evolves [OF assms bd, of e pc]
      by (cases "connect_bound e addr n (sj, pc)") (auto simp: evolves_def)
  qed
next
  fix start si pc r start' si' pc'
  assume c: "connect_entry e addr n start (si, pc) = ((r, start'), si', pc')" and ok: "start_ok start"
  obtain q s1 sj where b: "bind_first e (sa_fam addr) start si = (q, s1, sj)" by (metis prod_cases3)
  have "start' = s1"
    using c b by (auto simp: connect_entry_def bind_first_def split: sum.splits prod.splits if_splits)
  then show "start_ok start'" using bind_first_start [OF b ok] by simp
qed

lemma listen_entry_keeps: "entry_keeps (listen_entry e ll)"
proof (rule entry_keepsI)
  fix start si pc r start' si' pc'
  assume c: "listen_entry e ll start (si, pc) = ((r, start'), si', pc')" and ok: "entry_ok si"
  obtain q s1 sj where b: "bind_first e (family si) start si = (q, s1, sj)" by (metis prod_cases3)
  have "si' = sj"
    using b c by (auto simp: listen_entry_def bind_first_def split: sum.splits if_splits)
  then show "entry_ok si' \<and> (un_addr si' = un_addr si \<or> un_addr si = '''')"
    using bind_first_keeps [OF b ok] by simp
next
  fix start si pc r start' si' pc'
  assume c: "listen_entry e ll start (si, pc) = ((r, start'), si', pc')" and ok: "start_ok start"
  obtain q s1 sj where b: "bind_first e (family si) start si = (q, s1, sj)" by (metis prod_cases3)
  have "start' = s1"
    using b c by (auto simp: listen_entry_def bind_first_def split: sum.splits if_splits)
  then show "start_ok start'" using bind_first_start [OF b ok] by simp
qed

lemma store_bindname_eq:
  assumes "entry_ok si"
  shows "\<exists>m. name_ok m \<and> store_bindname a iface si = si\<lparr>bindname := m\<rparr>"
proof (cases "sa_socklen (bindname si) = 0")
  case True
  let ?m = "\<lparr>sa_socklen = socket_length (family si),
        sa = (if family si = Inet
              then zero_sockaddr\<lparr>sa_fam := sa_fam a, sa_port := sa_port a, sa_in := 0x7F000000 OR of_nat iface\<rparr>
              else zero_sockaddr\<lparr>sa_fam := sa_fam a, sa_port := sa_port a, sa_in6 := swrap_ipv6[15 := of_nat iface]\<rparr>)\<rparr>"
  have "store_bindname a iface si = si\<lparr>bindname := ?m\<rparr>"
    using True by (simp only: store_bindname_def if_False refl not_True_eq_False simp_thms)
  moreover have "name_ok ?m" by (simp add: name_ok_def addr_ok_def zero_sockaddr_def)
  ultimately show ?thesis by blast
next
  case False
  then have "store_bindname a iface si = si\<lparr>bindname := bindname si\<rparr>" by (simp add: store_bindname_def)
  then show ?thesis using assms by (intro exI [of _ "bindname si"]) (simp add: entry_ok_def)
qed

lemma alloc_keeps:
  assumes "convert_in_un_alloc getenv dir ex si a = (r, si')" "entry_ok si"
  shows "\<exists>m b. name_ok m \<and> name_ok b \<and> si' = si\<lparr>myname := m, bindname := b\<rparr>"
proof -
  have own: "name_ok (myname si)" "name_ok (bindname si)" using assms(2) by (simp_all add: entry_ok_def)
  have same: "si = si\<lparr>myname := myname si, bindname := bindname si\<rparr>" by simp
  show ?thesis
  proof (cases "alloc_target getenv si a")
    case (Inl err)
    then have "si' = si" using assms(1) by (simp add: convert_in_un_alloc_def)
    then show ?thesis using own same by metis
  next
    case (Inr x)
    obtain t iface b where x: "x = (t, iface, b)" by (metis prod_cases3)
    obtain m where m: "name_ok m" "store_bindname a iface si = si\<lparr>bindname := m\<rparr>"
      using store_bindname_eq [OF assms(2)] by blast
    have sb: "si\<lparr>bindname := m\<rparr> = si\<lparr>myname := myname si, bindname := m\<rparr>" by simp
    have "si' = si\<lparr>bindname := m\<rparr> \<or> (\<exists>prt. si' = si\<lparr>myname := set_port (family si) prt (myname si),
                    bindname := set_port (family si) prt m\<rparr>)"
      using assms(1) Inr x m
      by (auto simp: convert_in_un_alloc_def Let_def simp del: set_port_ok split: if_splits option.splits)
    then show ?thesis using own m sb by (metis set_port_ok)
  qed
qed

lemma to_un_alloc_keeps:
  assumes "sockaddr_convert_to_un getenv dir ex al si a n = (r, si')" "entry_ok si"
  shows "\<exists>m b. name_ok m \<and> name_ok b \<and> si' = si\<lparr>myname := m, bindname := b\<rparr>"
proof (cases "si' = si")
  case True
  then have "si' = si\<lparr>myname := myname si, bindname := bindname si\<rparr>" by simp
  moreover have "name_ok (myname si)" "name_ok (bindname si)" using assms(2) by (simp_all add: entry_ok_def)
  ultimately show ?thesis by blast
next
  case False
  then have "convert_in_un_alloc getenv dir ex si a = (r, si')"
    using assms(1) by (auto simp: sockaddr_convert_to_un_def split: if_splits)
  then show ?thesis using assms(2) by (rule alloc_keeps)
qed

lemma flags_ok:
  "entry_ok (si\<lparr>bcast := x\<rparr>) = entry_ok si" "entry_ok si \<Longrightarrow> entry_ok (si\<lparr>bound := True\<rparr>)"
  by (auto simp: entry_ok_def)

lemma bind_entry_evolves:
  assumes "addr_ok a" "n \<le> sockaddr_storage_size"
  shows "evolves si (snd (bind_entry e a n si))"
proof (cases "bind_check (family si) a n")
  case (Some err)
  then show ?thesis by (simp add: bind_entry_def evolves_def)
next
  case None
  define s1 where "s1 = si\<lparr>myname := \<lparr>sa_socklen = n, sa = memcpy_addr n a (sa (myname si))\<rparr>\<rparr>"
  obtain r s2 where r: "sockaddr_convert_to_un (l_getenv e) (dir_of e) (l_stat e) True s1 a n = (r, s2)" by fastforce
  define s3 where "s3 = (if sotype s1 = Stream \<or> sotype s1 = Dgram
                      then s2\<lparr>bcast := stored_bcast e s1 a\<rparr> else s2)"
  have "bind_entry e a n si = (case r of
                 Inl err \<Rightarrow> ((Returns (Inl err), None), s3)
               | Inr (path, _) \<Rightarrow>
                   (case l_bind e path of
                      Inl err \<Rightarrow> ((Returns (Inl err), Some path), s3)
                    | Inr _ \<Rightarrow> ((Returns (Inr ()), Some path), s3\<lparr>bound := True\<rparr>)))"
    using None assms(2) by (simp only: bind_entry_def s1_def [symmetric] r s3_def Let_def) simp
  then have eq: "snd (bind_entry e a n si) \<in> {s3, s3\<lparr>bound := True\<rparr>}"
    by (simp split: sum.split prod.split)
  show ?thesis
  proof (cases "entry_ok si")
    case True
    then have "name_ok \<lparr>sa_socklen = n, sa = memcpy_addr n a (sa (myname si))\<rparr>"
      using assms by (intro name_ok_copied) (simp_all add: entry_ok_def name_ok_def)
    then have s1: "entry_ok s1" using True by (simp add: s1_def entry_ok_def)
    from to_un_alloc_keeps [OF r this] obtain m b where m: "name_ok m" "name_ok b" "s2 = s1\<lparr>myname := m, bindname := b\<rparr>"
      by blast
    have "entry_ok s2" "un_addr s2 = un_addr si" using s1 m by (simp_all add: entry_ok_def) (simp add: s1_def)
    then have "entry_ok s3" "un_addr s3 = un_addr si" by (simp_all add: s3_def flags_ok)
    then show ?thesis using eq flags_ok(2) [of s3] by (auto simp: evolves_def)
  qed (simp add: evolves_def)
qed

lemma zero_info_names: "bindname zero_info = zero_address" "myname zero_info = zero_address"
    "peername zero_info = zero_address" "bound zero_info = False" "connected zero_info = False"
    "defer_connect zero_info = False" "is_server zero_info = False" "un_addr zero_info = ''''"
    "tcp_nodelay zero_info = 0" "pktinfo zero_info = 0"
  by (simp_all add: zero_info_def)

lemma new_socket_ok:
  assumes "fam = Inet \<or> fam = Inet6" "ty = Stream \<or> ty = Dgram"
    "prot = 0 \<or> prot = 6 \<and> ty = Stream \<or> (prot = 6 \<or> prot = 17) \<and> ty = Dgram"
  shows "entry_ok (new_socket_info fam ty prot)"
proof -
  have "name_ok \<lparr>sa_socklen = socket_length fam, sa = zero_sockaddr\<lparr>sa_fam := fam\<rparr>\<rparr>"
    by (simp add: name_ok_def addr_ok_def zero_sockaddr_def)
  then show ?thesis using assms by (auto simp: new_socket_info_def entry_ok_def zero_info_names)
qed

lemma child_ok:
  assumes "entry_ok si" "addr_ok a" "n \<le> sockaddr_storage_size" "addr_ok b" "m \<le> sockaddr_storage_size"
  shows "entry_ok ((child_info si a n)\<lparr>myname := \<lparr>sa_socklen = m, sa = memcpy_addr m b zero_sockaddr\<rparr>\<rparr>)"
proof -
  have "name_ok \<lparr>sa_socklen = n, sa = memcpy_addr n a zero_sockaddr\<rparr>"
    "name_ok \<lparr>sa_socklen = m, sa = memcpy_addr m b zero_sockaddr\<rparr>"
    using assms by (auto intro!: name_ok_copied)
  then show ?thesis using assms(1) by (simp add: child_info_def entry_ok_def zero_info_names)
qed

lemma deferred_connect_evolves: "evolves si (snd (deferred_connect e si))"
  by (auto simp: deferred_connect_def evolves_def entry_ok_def split: sum.split)

section \<open>What the operations on the table keep\<close>

definition info :: "swrap \<Rightarrow> nat \<Rightarrow> socket_info" where "info st i = c_info (sockets st ! i)"

definition entries_ok :: "swrap \<Rightarrow> bool" where
  "entries_ok st \<longleftrightarrow> (\<forall>i < nsock st. refc st i \<noteq> 0 \<longrightarrow> entry_ok (info st i))"

text \<open>\<open>pend\<close>: the references that calls under way hold, none where calls are single steps.\<close>

definition tab_at :: "(nat \<Rightarrow> nat) \<Rightarrow> swrap \<Rightarrow> bool" where
  "tab_at pend st \<longleftrightarrow> pool_inv {} pend st \<and> entries_ok st"

abbreviation tab_ok :: "swrap \<Rightarrow> bool" where "tab_ok \<equiv> tab_at (\<lambda>_. 0)"

lemmas tab_ok_def = tab_at_def [of "\<lambda>_. 0"]

text \<open>Operations that leave the data of the entries alone, or change it to good data.\<close>

definition infos_kept :: "swrap \<Rightarrow> swrap \<Rightarrow> bool" where
  "infos_kept st st' \<longleftrightarrow> (\<forall>i. entry_ok (info st i) \<longrightarrow> entry_ok (info st' i))"

lemma infos_refl [simp]: "infos_kept st st"
  by (simp add: infos_kept_def)

lemma infos_trans: "infos_kept a b \<Longrightarrow> infos_kept b c \<Longrightarrow> infos_kept a c"
  by (simp add: infos_kept_def)

lemma infos_same: "(\<And>i. info st' i = info st i) \<Longrightarrow> infos_kept st st'"
  by (simp add: infos_kept_def)

text \<open>The invariant is kept, no path is lost, the array keeps its length and good entries stay good, in use or not.\<close>

definition keeps_at :: "(nat \<Rightarrow> nat) \<Rightarrow> swrap \<Rightarrow> swrap \<Rightarrow> bool" where
  "keeps_at pend st st' \<longleftrightarrow>
     (tab_at pend st \<longrightarrow> tab_at pend st' \<and> files st \<subseteq># files st' \<and> nsock st' = nsock st \<and> infos_kept st st')"

abbreviation keeps :: "swrap \<Rightarrow> swrap \<Rightarrow> bool" where "keeps \<equiv> keeps_at (\<lambda>_. 0)"

lemmas keeps_def = keeps_at_def [of "\<lambda>_. 0"]

named_theorems keeping \<open>operations that keep the invariant of the table\<close>

lemma keeps_refl [keeping]: "keeps_at pend st st"
  by (simp add: keeps_at_def)

lemma keeps_trans: "keeps_at pend a b \<Longrightarrow> keeps_at pend b c \<Longrightarrow> keeps_at pend a c"
  unfolding keeps_at_def using subset_mset.order_trans infos_trans by metis

lemma info_upd:
  assumes "\<And>c. c_info (f c) = c_info c"
  shows "info (upd_container idx f st) i = info st i"
proof (cases "nat idx < length (sockets st)")
  case True
  then show ?thesis using assms by (simp add: info_def upd_container_def nth_list_update)
qed (simp add: info_def upd_container_def not_less list_update_beyond)

lemma info_simps:
  "info (reset_socket_info_index fd st) i = info st i" "info (swrap_dec_refcount idx st) i = info st i"
  "info (swrap_inc_refcount idx st) i = info st i" "info (swrap_set_next_free idx n st) i = info st i"
  "info (unlink_path p st) i = info st i" "info (st\<lparr>first_free := f\<rparr>) i = info st i"
  "info (st\<lparr>pcap := pc\<rparr>) i = info st i"
  "info (st\<lparr>fds_idx := g\<rparr>) i = info st i"
  by (auto simp: swrap_dec_refcount_def swrap_inc_refcount_def swrap_set_next_free_def unlink_path_def
      reset_socket_info_index_def set_socket_info_index_def info_upd) (simp_all add: info_def)

lemma info_stale [simp]: "info (swrap_remove_stale fd st) i = info st i"
  by (simp add: swrap_remove_stale_def Let_def info_simps)

lemma info_set:
  "nat idx < nsock st \<Longrightarrow> info (set_info idx si st) i = (if i = nat idx then si else info st i)"
  by (simp add: info_def set_info_def pool_simps)

lemma dump_infos:
  assumes "nat idx < nsock st"
  shows "infos_kept st (dump_on getenv oses idx a t buf n st)"
proof -
  obtain si pc where d: "swrap_pcap_dump_packet getenv (oses t) a t buf n (info st (nat idx), pcap st) = (si, pc)"
    by fastforce
  have e: "dump_on getenv oses idx a t buf n st = (set_info idx si st)\<lparr>pcap := pc\<rparr>"
    using d by (simp add: dump_on_def swrap_get_socket_info_def info_def)
  show ?thesis
    using dump_counters [OF d] assms by (auto simp: e infos_kept_def info_simps info_set)
qed

lemma close_dumps_infos:
  assumes "nat idx < nsock st"
  shows "infos_kept st (close_dumps getenv oses idx st)"
proof -
  have d: "infos_kept st s \<and> nat idx < nsock s \<Longrightarrow>
    infos_kept st (dump_on getenv oses idx a t buf n s) \<and> nat idx < nsock (dump_on getenv oses idx a t buf n s)" for s a t buf n
    using dump_infos [of idx s] dump_same_table [of idx s] by (auto simp: same_table_def intro: infos_trans)
  have z: "infos_kept st st \<and> nat idx < nsock st" using assms by (simp add: infos_kept_def)
  show ?thesis
    using d z by (simp add: close_dumps_def Let_def)
qed

lemma close_infos:
  assumes "pool_inv {} pend st"
  shows "infos_kept st (snd (swrap_close getenv oses fd r st))"
proof (cases "find_socket_info_index fd st = - 1")
  case True
  then show ?thesis by (simp add: swrap_close_def infos_kept_def)
next
  case False
  let ?i = "find_socket_info_index fd st"
  define st1 where "st1 = swrap_dec_refcount ?i (reset_socket_info_index fd st)"
  note rel = release_inv [OF assms refl False st1_def]
  have n: "nat ?i < nsock st1" using find_index(5) [OF assms refl False] rel(5) by simp
  have one: "infos_kept st st1" by (rule infos_same) (simp add: st1_def info_simps)
  have two: "infos_kept st (close_dumps getenv oses ?i st1)"
    using one close_dumps_infos [OF n] by (rule infos_trans)
  show ?thesis
    using False one two by (simp add: swrap_close_def Let_def st1_def [symmetric]) (simp add: infos_kept_def info_simps)
qed

lemma drop_keeps:
  assumes "pool_inv {} pend st \<Longrightarrow> infos_kept st st'"
    and "if find_socket_info_index fd st = - 1 then st' = st
      else pool_inv {} pend st \<longrightarrow> pool_inv {} pend st' \<and> drops fd (find_socket_info_index fd st) st st'"
  shows "keeps_at pend st st'"
proof (cases "find_socket_info_index fd st = - 1")
  case True
  then show ?thesis using assms by (simp add: keeps_at_def)
next
  case False
  have "tab_at pend st' \<and> files st \<subseteq># files st' \<and> nsock st' = nsock st \<and> infos_kept st st'" if ok: "tab_at pend st"
  proof -
    have p: "pool_inv {} pend st" using ok by (simp add: tab_at_def)
    have d: "pool_inv {} pend st'" "drops fd (find_socket_info_index fd st) st st'" using assms(2) False p by auto
    have f: "files st' = files st" by (rule drops_files [OF d(2) find_index(5) [OF p refl False]])
    have "entries_ok st'"
      using ok d(2) assms(1) [OF p] by (auto simp: entries_ok_def tab_at_def drops_def infos_kept_def split: if_splits)
    then show ?thesis using d f assms(1) [OF p] by (simp add: tab_at_def drops_def)
  qed
  then show ?thesis by (simp add: keeps_at_def)
qed

lemma stale_keeps [keeping]: "keeps_at pend st (swrap_remove_stale fd st)"
  by (rule drop_keeps [where fd = fd])
    (simp_all add: infos_kept_def remove_stale_drops, simp add: swrap_remove_stale_def)

lemma close_keeps [keeping]: "keeps_at pend st (snd (swrap_close getenv oses fd r st))"
  by (rule drop_keeps [where fd = fd])
    (simp_all add: close_infos [of pend] close_drops, simp add: swrap_close_def)

text \<open>Storing an entry's new data; the entry may have been freed.\<close>

lemma files_set_info:
  assumes n: "nat idx < nsock st"
    and p: "refc st (nat idx) \<noteq> 0 \<Longrightarrow> un_addr si = path_of st (nat idx) \<or> path_of st (nat idx) = ''''"
  shows "files st \<subseteq># files (set_info idx si st)"
proof -
  let ?st' = "set_info idx si st"
  let ?f = "\<lambda>i. if refc st i \<noteq> 0 \<and> path_of st i \<noteq> '''' then {#path_of st i#} else {#}"
  let ?g = "\<lambda>i. if refc ?st' i \<noteq> 0 \<and> path_of ?st' i \<noteq> '''' then {#path_of ?st' i#} else {#}"
  have r: "refc ?st' = refc st" using n by (rule same_table_simps)
  have pa: "path_of ?st' = (path_of st)(nat idx := un_addr si)"
    using n by (auto simp: set_info_def path_of_def pool_simps fun_eq_iff)
  have le: "?f i \<subseteq># ?g i" for i using p by (auto simp: r pa)
  have "sum ?f A \<subseteq># sum ?g A" if "finite A" for A
    using that
  proof (induction A rule: finite_induct)
    case (insert x A)
    then show ?case using subset_mset.add_mono [OF le insert.IH] by (simp add: insert.hyps)
  qed simp
  then have "sum ?f {..<nsock st} \<subseteq># sum ?g {..<nsock st}" by simp
  moreover have "nsock ?st' = nsock st" "unlinked ?st' = unlinked st"
    by (simp_all add: set_info_def pool_simps)
  ultimately show ?thesis unfolding files_def by simp
qed

lemma set_info_keeps:
  assumes n: "pool_inv {} pend st \<Longrightarrow> nat idx < nsock st" and e: "evolves (info st (nat idx)) si"
  shows "keeps_at pend st ((set_info idx si st)\<lparr>pcap := pc\<rparr>)"
proof -
  define s where "s = (set_info idx si st)\<lparr>pcap := pc\<rparr>"
  have "tab_at pend s \<and> files st \<subseteq># files s \<and> nsock s = nsock st \<and> infos_kept st s" if ok: "tab_at pend st"
  proof -
    have pk: "pool_inv {} pend st" using ok by (simp add: tab_at_def)
    then have nn: "nat idx < nsock st" using n by blast
    have ev: "entry_ok si" "un_addr si = path_of st (nat idx) \<or> path_of st (nat idx) = ''''" if "refc st (nat idx) \<noteq> 0"
      using that e ok nn by (auto simp: evolves_def tab_at_def entries_ok_def info_def path_of_def)
    have same: "nsock s = nsock st" "refc s = refc st"
      using same_table_simps [OF nn, of si]
      by (simp_all add: s_def nsock_def refc_def fun_eq_iff) (simp add: set_info_def upd_container_def)
    have "files s = files (set_info idx si st)"
      by (rule files_cong) (simp_all add: s_def nsock_def path_of_def refc_def fun_eq_iff)
    note same = same this
    have inf: "info s i = (if i = nat idx then si else info st i)" for i
      using nn by (simp add: s_def info_simps info_set)
    then have "entries_ok s"
      using ok ev nn by (simp add: entries_ok_def tab_at_def same)
    moreover have "infos_kept st s" using inf e by (simp add: infos_kept_def evolves_def)
    moreover have "pool_inv {} pend s" using nn pk by (simp add: s_def)
    ultimately show ?thesis using files_set_info [OF nn ev(2)] same by (simp add: tab_at_def)
  qed
  then show ?thesis by (simp add: keeps_at_def s_def)
qed

lemma dump_keeps:
  assumes "pool_inv {} pend st \<Longrightarrow> nat idx < nsock st"
  shows "keeps_at pend st (dump_on getenv oses idx a t buf n st)"
proof -
  define s where "s = dump_on getenv oses idx a t buf n st"
  have "tab_at pend s \<and> files st \<subseteq># files s \<and> nsock s = nsock st \<and> infos_kept st s" if ok: "tab_at pend st"
  proof -
    have pk: "pool_inv {} pend st" using ok by (simp add: tab_at_def)
    then have nn: "nat idx < nsock st" using assms by blast
    note d = dump_same_table [OF nn, of getenv oses a t buf n, folded s_def]
    have "files s = files st" by (rule files_cong) (use d in \<open>simp_all add: same_table_def\<close>)
    moreover have "entries_ok s"
      using dump_infos [OF nn, of getenv oses a t buf n, folded s_def] d ok
      by (auto simp: entries_ok_def tab_at_def same_table_def infos_kept_def)
    ultimately show ?thesis
      using d pk same_table_inv [OF d] dump_infos [OF nn, of getenv oses a t buf n, folded s_def]
      by (simp add: tab_at_def same_table_def)
  qed
  then show ?thesis by (simp add: keeps_at_def s_def)
qed

lemma create_infos:
  assumes "swrap_create_socket si fd st = (Some idx, st')" "i \<noteq> nat idx"
  shows "info st' i = info st i"
proof -
  have o: "info (set_info idx si s) i = info s i" for s
    using assms(2) by (simp add: info_def set_info_def upd_container_def)
  obtain s1 s2 where "set_socket_info_index fd idx s1 = Inr st'" "s1 = swrap_inc_refcount idx (set_info idx si s2)"
      "info s2 i = info st i"
    using assms(1)
    by (auto simp: swrap_create_socket_def swrap_add_socket_info_def Let_def info_simps split: if_splits sum.splits)
  then show ?thesis by (auto simp: set_socket_info_index_def info_simps o split: if_splits)
qed

lemma found_live:
  assumes "find_socket_info_index fd st = idx" "idx \<noteq> - 1" "pool_ok st"
  shows "nat idx < nsock st" "refc st (nat idx) \<noteq> 0"
  using view_live [OF assms(3), of fd idx] assms(1,2) by (auto simp: view_def)

lemma create_keeps:
  assumes "swrap_create_socket si fd st = (r, st')" "pool_ok st \<Longrightarrow> find_socket_info_index fd st = - 1" "entry_ok si"
  shows "keeps st st'"
proof -
  have "tab_ok st' \<and> files st \<subseteq># files st' \<and> nsock st' = nsock st \<and> infos_kept st st'" if ok: "tab_ok st"
  proof -
    have pk: "pool_ok st" using ok by (simp add: tab_ok_def)
    show ?thesis
    proof (cases r)
      case None
      then show ?thesis using create_socket_spec [OF pk assms(2) [OF pk], of si] assms(1) ok by simp
    next
      case (Some idx)
      then have e: "pool_ok st'" "enters fd idx si st st'"
        using create_socket_spec [OF pk assms(2) [OF pk], of si] assms(1) by simp_all
      have "info st' i = (if i = nat idx then si else info st i)" for i
        using e(2) create_infos [of si fd st idx st' i] assms(1) Some
        by (auto simp: enters_def swrap_get_socket_info_def info_def)
      then show ?thesis using e ok assms(3) enters_files [OF e(2)]
        by (auto simp: tab_ok_def entries_ok_def enters_def infos_kept_def)
    qed
  qed
  then show ?thesis by (simp add: keeps_def)
qed

section \<open>What the calls keep\<close>

definition mtu_ok :: "u32 \<Rightarrow> bool" where
  "mtu_ok m \<longleftrightarrow> m = 0 \<or> of_nat SOCKET_WRAPPER_MTU_MIN \<le> m \<and> m \<le> of_nat SOCKET_WRAPPER_MTU_MAX"

definition proc_at :: "(nat \<Rightarrow> nat) \<Rightarrow> proc \<Rightarrow> bool" where
  "proc_at pend p \<longleftrightarrow> tab_at pend (tab p) \<and> start_ok (autobind_start p) \<and> mtu_ok (max_mtu p)"

abbreviation proc_ok :: "proc \<Rightarrow> bool" where "proc_ok \<equiv> proc_at (\<lambda>_. 0)"

lemmas proc_ok_def = proc_at_def [of "\<lambda>_. 0"]

definition pkeeps_at :: "(nat \<Rightarrow> nat) \<Rightarrow> proc \<Rightarrow> proc \<Rightarrow> bool" where
  "pkeeps_at pend p p' \<longleftrightarrow> (proc_at pend p \<longrightarrow>
     proc_at pend p' \<and> files (tab p) \<subseteq># files (tab p') \<and> nsock (tab p') = nsock (tab p) \<and> infos_kept (tab p) (tab p'))"

abbreviation pkeeps :: "proc \<Rightarrow> proc \<Rightarrow> bool" where "pkeeps \<equiv> pkeeps_at (\<lambda>_. 0)"

lemmas pkeeps_def = pkeeps_at_def [of "\<lambda>_. 0"]

lemma pkeeps_refl [keeping]: "pkeeps_at pend p p"
  by (simp add: pkeeps_at_def)

lemma pkeeps_trans: "pkeeps_at pend a b \<Longrightarrow> pkeeps_at pend b c \<Longrightarrow> pkeeps_at pend a c"
  unfolding pkeeps_at_def using subset_mset.order_trans infos_trans by metis

lemma pkeeps_tab: "keeps_at pend (tab p) st \<Longrightarrow> pkeeps_at pend p (p\<lparr>tab := st\<rparr>)"
  by (simp add: pkeeps_at_def proc_at_def keeps_at_def)

text \<open>The entry that a call works on is in the array; another thread may have freed it.\<close>

definition live_at :: "int \<Rightarrow> swrap \<Rightarrow> bool" where
  "live_at idx st \<longleftrightarrow> (\<forall>pend. pool_inv {} pend st \<longrightarrow> nat idx < nsock st)"

lemma live_found: "find_socket_info_index fd st = idx \<Longrightarrow> idx \<noteq> - 1 \<Longrightarrow> live_at idx st"
  unfolding live_at_def using find_index(5) by blast

lemma live_in: "live_at idx st \<Longrightarrow> pool_inv {} pend st \<Longrightarrow> nat idx < nsock st"
  unfolding live_at_def by blast

lemma live_set_info:
  assumes "live_at idx st"
  shows "live_at idx (set_info idx si st)"
proof (cases "nat idx < nsock st")
  case True
  have "nsock (set_info idx si st) = nsock st" by (simp add: set_info_def pool_simps)
  with True show ?thesis by (simp add: live_at_def)
next
  case False
  then have "set_info idx si st = st" by (simp add: set_info_def upd_container_def nsock_def list_update_beyond not_less)
  then show ?thesis using assms by simp
qed

lemma pcap_self: "st\<lparr>pcap := pcap st\<rparr> = st" by simp

lemma entry_keeps_set:
  assumes "live_at idx st" "evolves (swrap_get_socket_info idx st) si"
  shows "keeps_at pend st (set_info idx si st)"
proof -
  have e: "(set_info idx si st)\<lparr>pcap := pcap st\<rparr> = set_info idx si st"
    by (simp add: set_info_def upd_container_def)
  have "keeps_at pend st ((set_info idx si st)\<lparr>pcap := pcap st\<rparr>)"
    by (rule set_info_keeps) (use assms live_in in \<open>auto simp: info_def swrap_get_socket_info_def\<close>)
  then show ?thesis by (simp only: e)
qed

lemma on_entry_keeps:
  assumes "live_at idx st" "\<And>pc. evolves (swrap_get_socket_info idx st) (fst (snd (f (swrap_get_socket_info idx st, pc))))"
  shows "keeps_at pend st (snd (on_entry idx f st))"
proof -
  obtain r si pc where f: "f (swrap_get_socket_info idx st, pcap st) = (r, si, pc)" by (metis prod_cases3)
  have "evolves (info st (nat idx)) si"
    using assms(2) [of "pcap st"] unfolding f by (simp add: info_def swrap_get_socket_info_def)
  then show ?thesis
    using live_in [OF assms(1)] by (simp add: on_entry_def f set_info_keeps)
qed

text \<open>A call on the entry that it found before.\<close>

definition entry_at ::
  "int \<Rightarrow> (int option \<Rightarrow> socket_info \<times> pcap_state \<Rightarrow> ('r outcome \<times> int option) \<times> socket_info \<times> pcap_state)
     \<Rightarrow> proc \<Rightarrow> 'r outcome \<times> proc" where
  "entry_at idx f p = (let ((r, start), st) = on_entry idx (f (autobind_start p)) (tab p)
     in (r, p\<lparr>tab := st, autobind_start := start\<rparr>))"

lemma entry_call_found:
  "entry_call s f p = (let idx = find_socket_info_index s (tab p) in if idx = - 1 then (ToLibc, p) else entry_at idx f p)"
  unfolding entry_call_def entry_at_def by (rule refl)

lemma entry_at_keeps:
  assumes "entry_keeps f" and l: "live_at i (tab p)"
  shows "pkeeps_at pend p (snd (entry_at i f p))"
proof -
  let ?si = "swrap_get_socket_info i (tab p)"
  obtain r start si pc where f: "f (autobind_start p) (?si, pcap (tab p)) = ((r, start), si, pc)"
    by (metis prod.exhaust)
  have e: "evolves ?si si" "start_ok (autobind_start p) \<Longrightarrow> start_ok start"
    using assms(1) f unfolding entry_keeps_def by (metis (no_types, lifting) case_prod_conv)+
  have k: "keeps_at pend (tab p) ((set_info i si (tab p))\<lparr>pcap := pc\<rparr>)"
    by (rule set_info_keeps) (use live_in [OF l] e(1) in \<open>auto simp: info_def swrap_get_socket_info_def\<close>)
  have "snd (entry_at i f p) = p\<lparr>tab := (set_info i si (tab p))\<lparr>pcap := pc\<rparr>, autobind_start := start\<rparr>"
    by (simp add: entry_at_def on_entry_def f Let_def)
  then show ?thesis using k e(2) by (simp add: pkeeps_at_def proc_at_def keeps_at_def)
qed

lemma entry_call_keeps:
  assumes "entry_keeps f"
  shows "pkeeps_at pend p (snd (entry_call s f p))"
  using entry_at_keeps [OF assms live_found] by (simp add: entry_call_found Let_def keeping)

lemma connect_keeps [keeping]:
  "addr_ok a \<Longrightarrow> n \<le> sockaddr_storage_size \<Longrightarrow> pkeeps_at pend p (snd (swrap_connect e s a n p))"
  unfolding swrap_connect_def by (intro entry_call_keeps connect_entry_keeps)

lemma listen_keeps [keeping]: "pkeeps_at pend p (snd (swrap_listen e ll s p))"
  unfolding swrap_listen_def by (intro entry_call_keeps listen_entry_keeps)

lemma bind_keeps [keeping]:
  assumes "addr_ok a" "n \<le> sockaddr_storage_size"
  shows "pkeeps_at pend p (snd (swrap_bind e s a n p))"
proof (cases "find_socket_info_index s (tab p) = - 1")
  case True
  then show ?thesis by (simp add: swrap_bind_def keeping)
next
  case False
  have "keeps_at pend (tab p) (snd (on_entry (find_socket_info_index s (tab p))
     (\<lambda>(si, pc). let (r, si) = bind_entry e a n si in (r, si, pc)) (tab p)))"
    by (rule on_entry_keeps [OF live_found [OF refl False]])
      (use bind_entry_evolves [OF assms] in \<open>simp add: case_prod_beta Let_def\<close>)
  then show ?thesis
    using False by (auto simp: swrap_bind_def Let_def split: prod.split intro: pkeeps_tab)
qed

lemma setsockopt_keeps [keeping]: "keeps_at pend st (snd (swrap_setsockopt s level optname optval optlen st))"
proof (cases "find_socket_info_index s st = - 1")
  case True
  then show ?thesis by (simp add: swrap_setsockopt_def keeping)
next
  case False
  let ?i = "find_socket_info_index s st"
  note l = live_found [OF refl False]
  have "evolves si (si\<lparr>tcp_nodelay := i\<rparr>)" if "i = 0 \<or> i = 1" for si i
    using that by (auto simp: evolves_def entry_ok_def)
  moreover have "evolves si (si\<lparr>pktinfo := family_code f\<rparr>)" if "f = Inet \<or> f = Inet6" for si f
    using that by (auto simp: evolves_def entry_ok_def)
  ultimately show ?thesis
    using False
    by (auto simp: swrap_setsockopt_def Let_def keeping intro!: entry_keeps_set [OF l]
        split: option.split sa_family.split)
qed

lemma ioctl_keeps [keeping]: "keeps_at pend st (snd (swrap_vioctl e rc v s r st))"
  using live_in [OF live_found [of s st]]
  by (auto simp: swrap_vioctl_def Let_def keeping intro!: dump_keeps)

lemma open_keeps [keeping]:
  "keeps_at pend st (snd (swrap_fopen f st))" "keeps_at pend st (snd (swrap_fopen64 f st))"
  "keeps_at pend st (snd (swrap_vopen r st))" "keeps_at pend st (snd (swrap_vopen64 r st))"
  "keeps_at pend st (snd (swrap_vopenat r st))"
  by (auto simp: swrap_fopen_def swrap_fopen64_def swrap_vopen_def swrap_vopen64_def swrap_vopenat_def keeping
      split: option.split sum.split)

lemma stale2_keeps [keeping]: "keeps_at pend st (swrap_remove_stale a (swrap_remove_stale b st))"
  by (rule keeps_trans [OF stale_keeps stale_keeps])

lemma fd_calls_keep [keeping]:
  "keeps_at pend st (snd (swrap_eventfd r st))" "keeps_at pend st (snd (swrap_timerfd_create r st))"
  "keeps_at pend st (snd (swrap_signalfd fd r st))" "keeps_at pend st (snd (swrap_socketpair r2 st))"
  "keeps_at pend st (snd (swrap_pipe r2 st))"
  by (auto simp: fd_call_defs keeping split: sum.split)

lemma share_keeps:
  assumes "find_socket_info_index fd st = idx" "idx \<noteq> - 1" "share_entry idx d st = Inr st'"
  shows "keeps st st'"
proof -
  have "tab_ok st' \<and> files st \<subseteq># files st' \<and> nsock st' = nsock st \<and> infos_kept st st'" if ok: "tab_ok st"
  proof -
    have pk: "pool_ok st" using ok by (simp add: tab_ok_def)
    have d: "0 \<le> d" "d < int SOCKET_FDS_MAX"
      using assms(3) by (auto simp: set_socket_info_index_def split: if_splits)
    have s: "pool_ok st'" "fds_idx st' = (fds_idx st)(nat d := idx)" "nsock st' = nsock st" "files st' = files st"
      using share_spec [OF pk assms(1,2) d] assms(3) by auto
    have inf: "info st' i = info st i" for i
      using assms(3) by (auto simp: set_socket_info_index_def info_simps split: if_splits)
    have "refc st i \<noteq> 0" if "i < nsock st'" "refc st' i \<noteq> 0" for i
    proof -
      have "owners st' i \<noteq> {}" using that s(1) by (auto simp: pool_inv_def)
      then have "i = nat idx \<or> owners st i \<noteq> {}" by (auto simp: owners_def s(2) split: if_splits)
      moreover have "refc st i \<noteq> 0" if "owners st i \<noteq> {}"
        using that pk \<open>i < nsock st'\<close> s(3) by (auto simp: pool_inv_def card_eq_0_iff)
      ultimately show ?thesis using found_live [OF assms(1,2) pk] by blast
    qed
    then show ?thesis using ok s inf by (auto simp: tab_ok_def entries_ok_def infos_kept_def)
  qed
  then show ?thesis by (simp add: keeps_def)
qed

lemma dup_keeps [keeping]: "swrap_dup fd res st = Inr (x, st') \<Longrightarrow> keeps st st'"
  using share_keeps [of fd st] by (auto simp: swrap_dup_def Let_def keeping split: if_splits sum.splits)

lemma fcntl_keeps [keeping]: "swrap_vfcntl fd c res st = Inr (x, st') \<Longrightarrow> keeps st st'"
  using share_keeps [of fd st] by (auto simp: swrap_vfcntl_def Let_def keeping split: if_splits sum.splits)

lemma keeps_pool: "(pool_inv {} pend st \<Longrightarrow> keeps_at pend st st') \<Longrightarrow> keeps_at pend st st'"
  by (auto simp: keeps_at_def tab_at_def)

lemma dup2_keeps [keeping]:
  assumes r: "swrap_dup2 getenv oses fd newfd lc res st = Inr (x, st')"
  shows "keeps st st'"
proof (cases "find_socket_info_index fd st = - 1 \<or> fd = newfd")
  case True
  then show ?thesis using assms by (auto simp: swrap_dup2_def Let_def keeping split: if_splits)
next
  case False
  define st1 where "st1 = (if find_socket_info_index newfd st \<noteq> - 1
    then snd (swrap_close getenv oses newfd lc st) else st)"
  show ?thesis
  proof (rule keeps_pool)
    assume ok: "pool_ok st"
    have k1: "keeps st st1" by (simp add: st1_def keeping)
    have "view st1 = (view st)(newfd := None)"
      using close_laws [OF ok, of getenv oses newfd lc] ok by (auto simp: st1_def view_def fun_eq_iff)
    then have "view st1 fd = view st fd" using False by simp
    then have i: "find_socket_info_index fd st1 = find_socket_info_index fd st"
      using False by (auto simp: view_def split: if_splits)
    then have "find_socket_info_index fd st1 \<noteq> - 1" using False by simp
    from share_keeps [OF refl this] have k2: "share_entry (find_socket_info_index fd st) d st1 = Inr s \<Longrightarrow> keeps st1 s" for d s
      by (simp add: i)
    show "keeps st st'"
      using r False k1 keeps_trans [OF k1 k2] by (auto simp: swrap_dup2_def Let_def st1_def [symmetric] split: sum.splits)
  qed
qed

lemma create_on_stale_keeps:
  assumes "swrap_create_socket si fd (swrap_remove_stale fd st) = (r, st')" "entry_ok si"
  shows "keeps st st'"
proof (rule keeps_pool)
  assume ok: "pool_ok st"
  then have "view (swrap_remove_stale fd st) fd = None" using stale_laws by simp
  then have "find_socket_info_index fd (swrap_remove_stale fd st) = - 1" by (simp add: view_def split: if_splits)
  from create_keeps [OF assms(1) this assms(2)] show "keeps st st'" by (rule keeps_trans [OF stale_keeps])
qed

lemma socket_keeps [keeping]:
  assumes s: "swrap_socket e alloc lw ls fam ty prot st = Some (r, st')"
  shows "keeps st st'"
proof (rule keeps_pool)
  assume "pool_ok st"
  then have ready: "ready st" by (simp add: pool_inv_def)
  obtain a b c where [simp]: "alloc = (a, b, c)" by (metis prod_cases3)
  have en: "socket_wrapper_enabled g a b c st \<in> {Some (False, st), Some (True, st)}" for g
    using ready by (simp add: socket_wrapper_enabled_def socket_wrapper_init_sockets_def)
  define rt where "rt = code_type (ty AND NOT SOCK_CLOEXEC AND NOT SOCK_NONBLOCK)"
  show "keeps st st'"
  proof (cases "st' = st")
    case True
    then show ?thesis by (simp add: keeping)
  next
    case False
    then obtain fd q where c: "swrap_create_socket (new_socket_info fam rt prot) fd (swrap_remove_stale fd st) = (q, st')"
      and o: "fam = Inet \<or> fam = Inet6" "rt = Stream \<or> rt = Dgram"
        "prot = 0 \<or> prot = 6 \<and> rt = Stream \<or> (prot = 6 \<or> prot = 17) \<and> rt = Dgram"
      using s en [of "l_getenv e"]
      by (auto simp: swrap_socket_def Let_def rt_def [symmetric] split: if_splits sum.splits prod.splits option.splits)
    from create_on_stale_keeps [OF c new_socket_ok [OF o]] show ?thesis .
  qed
qed

lemma nsock_dump [simp]: "nsock (dump_on getenv oses idx a t buf n st) = nsock st"
  by (simp add: dump_on_def set_info_def upd_container_def nsock_def split: prod.split)

lemma accept_dumps_keep:
  assumes "live_at idx st"
  shows "keeps_at pend st (accept_dumps e idx addr st)"
proof (rule keeps_pool)
  assume "pool_inv {} pend st"
  then have n: "nat idx < nsock st" by (rule live_in [OF assms])
  have d: "keeps_at pend s (dump_on g os idx a t b m s)" if "nat idx < nsock s" for s g os a t b m
    using that by (rule dump_keeps)
  show "keeps_at pend st (accept_dumps e idx addr st)"
  proof (cases addr)
    case (Some a)
    then show ?thesis
      using n by (simp add: accept_dumps_def) (intro keeps_trans [OF keeps_trans [OF d d] d]; simp)
  qed (simp add: accept_dumps_def keeping)
qed

lemma accept_failed_keeps: "keeps_at pend st (snd (accept_failed e lc fd err out st))"
  using close_keeps [of pend st "l_getenv e" "l_pcap e" fd lc] by (simp add: accept_failed_def case_prod_beta)

text \<open>The accepted descriptor must not be in the table.\<close>

lemma created_live:
  assumes "swrap_create_socket si fd st = (Some idx, st')" "pool_ok st" "find_socket_info_index fd st = - 1"
  shows "live_at idx st'"
proof -
  have "nat idx < nsock st'" using create_socket_spec [OF assms(2,3), of si] assms(1) by (simp add: enters_def)
  then show ?thesis by (simp add: live_at_def)
qed

lemma accept_enter_keeps:
  assumes "find_socket_info_index fd st = - 1" "entry_ok child"
  shows "keeps st (snd (accept_enter e lc fd child out st))"
proof (rule keeps_pool)
  assume ok: "pool_ok st"
  obtain r st1 where c: "swrap_create_socket child fd st = (r, st1)" by fastforce
  have k: "keeps st st1" by (rule create_keeps [OF c assms])
  show "keeps st (snd (accept_enter e lc fd child out st))"
  proof (cases r)
    case None
    then show ?thesis using c by (simp add: accept_enter_def keeps_trans [OF k accept_failed_keeps])
  next
    case (Some idx)
    have "live_at idx st1" using created_live [OF c [unfolded Some] ok assms(1)] .
    then show ?thesis using keeps_trans [OF k accept_dumps_keep] c Some by (simp add: accept_enter_def)
  qed
qed

lemma accept_own_name_keeps:
  assumes "find_socket_info_index fd st = - 1" "entry_ok si" "addr_ok a" "n \<le> sockaddr_storage_size"
  shows "keeps st (snd (accept_own_name e lg lc fd (child_info si a n) out st))"
proof -
  have "entry_ok ((child_info si a n)\<lparr>myname := \<lparr>sa_socklen = m, sa = memcpy_addr m (or_zero b) zero_sockaddr\<rparr>\<rparr>)"
    if "sockaddr_convert_from_un (child_info si a n) un k f sockaddr_storage_size = Inr (b, m)" for un k f b m
    using child_ok [OF assms(2-4)] converted_ok [OF that] by blast
  then show ?thesis
    by (auto simp: accept_own_name_def intro!: accept_failed_keeps accept_enter_keeps assms(1) split: sum.split)
qed

lemma accept_keeps [keeping]:
  assumes free: "case la of Inl _ \<Rightarrow> True | Inr (fd, _) \<Rightarrow> view st fd = None"
  shows "keeps st (snd (swrap_accept e la lg lc s out st))"
proof (rule keeps_pool)
  assume ok: "pool_ok st"
  let ?i = "find_socket_info_index s st"
  define si where "si = swrap_get_socket_info ?i st"
  show "keeps st (snd (swrap_accept e la lg lc s out st))"
  proof (cases "?i = - 1 \<or> socket_length (family si) = 0 \<or> isl la")
    case True
    then show ?thesis by (cases la) (auto simp: swrap_accept_def Let_def si_def [symmetric] keeping)
  next
    case False
    then obtain fd un n where la: "la = Inr (fd, un, n)" by (cases la) auto
    have f: "find_socket_info_index fd st = - 1" using free by (simp add: la view_def split: if_splits)
    have eq: "swrap_accept e la lg lc s out st = accept_peer_name e lg lc si (fd, un, n) out st"
      using False by (simp add: swrap_accept_def Let_def si_def [symmetric] la)
    show ?thesis
    proof (cases "entry_ok si")
      case True
      show ?thesis
      proof (cases "sockaddr_convert_from_un si un n (family si) (socket_length (family si))")
        case (Inl err)
        then show ?thesis by (simp add: eq accept_peer_name_def accept_failed_keeps)
      next
        case (Inr x)
        obtain a m where x: "x = (a, m)" by fastforce
        show ?thesis
          using accept_own_name_keeps [OF f True converted_ok [OF Inr [unfolded x]], of e lg lc]
          by (simp add: eq accept_peer_name_def Inr x)
      qed
    next
      case bad: False
      have "\<not> tab_ok st"
        using bad found_live [OF refl _ ok, of s] False
        by (auto simp: tab_ok_def entries_ok_def info_def si_def swrap_get_socket_info_def)
      then show ?thesis by (simp add: keeps_def)
    qed
  qed
qed

text \<open>The steps before and after a transfer.\<close>

lemma mtu_keeps: "pkeeps_at pend p (snd (use_mtu e p))"
proof -
  have "mtu_ok (socket_wrapper_mtu (l_getenv e) m)" if "mtu_ok m" for m
    using that mtu_range [of m "l_getenv e"] by (auto simp: mtu_ok_def)
  then show ?thesis by (simp add: use_mtu_def pkeeps_at_def proc_at_def Let_def)
qed

lemma use_mtu_tab [simp]: "tab (snd (use_mtu e p)) = tab p"
  by (simp add: use_mtu_def Let_def)

lemma ensure_bound_keeps:
  assumes l: "live_at idx (tab p)"
  shows "pkeeps_at pend p (snd (ensure_bound e fd idx p))"
    "ensure_bound e fd idx p = (Ready u, p') \<Longrightarrow> live_at idx (tab p')"
proof -
  define si where "si = swrap_get_socket_info idx (tab p)"
  show "pkeeps_at pend p (snd (ensure_bound e fd idx p))"
  proof (cases "bound si")
    case True
    then show ?thesis by (simp add: ensure_bound_def si_def [symmetric] keeping)
  next
    case False
    obtain r start sj where b: "swrap_auto_bind e (family si) (autobind_start p, si) = (r, start, sj)" by (metis prod_cases3)
    have "un_addr si = ''''" if "entry_ok si" using that False by (simp add: entry_ok_def)
    then have ev: "evolves si sj" using auto_bind_keeps(1) [OF b _ False] unfolding evolves_def by blast
    have k: "keeps_at pend (tab p) (set_info idx sj (tab p))"
      using entry_keeps_set [OF l] ev by (simp add: si_def)
    have "pkeeps_at pend p (p\<lparr>autobind_start := start, tab := st\<rparr>)" if "keeps_at pend (tab p) st" for st
      using that auto_bind_start [OF b] by (simp add: pkeeps_at_def proc_at_def keeps_at_def)
    then show ?thesis
      using False b k keeps_trans [OF k stale_keeps [of _ _ fd]]
      by (auto simp: ensure_bound_def si_def [symmetric] Let_def split: sum.split)
  qed
  show "live_at idx (tab p')" if "ensure_bound e fd idx p = (Ready u, p')"
    using that l live_set_info [OF l] by (auto simp: ensure_bound_def Let_def split: if_splits sum.splits prod.splits)
qed

lemma deferred_connect_keeps:
  assumes "live_at idx (tab p)" "deferred_connect e (swrap_get_socket_info idx (tab p)) = (r, si)"
  shows "pkeeps_at pend p (p\<lparr>tab := set_info idx si (tab p)\<rparr>)"
  using entry_keeps_set [OF assms(1), of si] deferred_connect_evolves [of "swrap_get_socket_info idx (tab p)" e] assms(2)
  by (auto intro: pkeeps_tab)

lemma sendmsg_before_keeps:
  assumes l: "live_at idx (tab p)"
  shows "pkeeps_at pend p (snd (swrap_sendmsg_before e ra fd idx msg p))"
proof -
  define si where "si = swrap_get_socket_info idx (tab p)"
  show ?thesis
  proof (cases "sotype si")
    case Stream
    obtain m p1 where "use_mtu e p = (m, p1)" by fastforce
    then show ?thesis
      using mtu_keeps [of pend p e] Stream
      by (simp add: swrap_sendmsg_before_def si_def [symmetric] Let_def keeping)
  next
    case Dgram
    obtain b p1 where b: "ensure_bound e fd idx p = (b, p1)" by fastforce
    note k1 = ensure_bound_keeps(1) [OF l, of pend e fd, unfolded b, simplified]
    obtain r sj where d: "deferred_connect e (swrap_get_socket_info idx (tab p1)) = (r, sj)" by fastforce
    have k2: "pkeeps_at pend p (p1\<lparr>tab := set_info idx sj (tab p1)\<rparr>)" if "b = Ready u" for u
      using ensure_bound_keeps(2) [OF l] b that d deferred_connect_keeps pkeeps_trans [OF k1] by blast
    show ?thesis
    proof (cases "dgram_target e si msg")
      case (Inl err)
      then show ?thesis using Dgram by (simp add: swrap_sendmsg_before_def si_def [symmetric] Let_def keeping)
    next
      case (Inr t)
      then show ?thesis
        using Dgram k1 k2 b d
        by (cases b; cases r) (simp_all add: swrap_sendmsg_before_def si_def [symmetric] Let_def)
    qed
  next
    case (OtherType n)
    then show ?thesis by (simp add: swrap_sendmsg_before_def si_def [symmetric] Let_def keeping)
  qed
qed

lemma drop_stale_keeps [keeping]: "keeps_at pend st (drop_stale fd ret st)"
  by (simp add: drop_stale_def keeping split: sum.split errno.split)

lemma nsock_stale: "nsock (swrap_remove_stale fd st) = nsock st"
  by (simp add: swrap_remove_stale_def Let_def reset_socket_info_index_def set_socket_info_index_def
      swrap_dec_refcount_def swrap_set_next_free_def unlink_path_def upd_container_def nsock_def)

lemma nsock_drop_stale [simp]: "nsock (drop_stale fd ret st) = nsock st"
  by (simp add: drop_stale_def nsock_stale split: sum.split errno.split)

lemma send_dumps_keep:
  assumes "nat idx < nsock st"
  shows "keeps_at pend st (send_dumps e idx to ret buf st)"
proof -
  have d: "keeps_at pend s (dump_on g os idx a t b m s)" if "nat idx < nsock s" for s g os a t b m
    using that by (rule dump_keeps)
  have d2: "keeps_at pend s (dump_on g os idx a t b m (dump_on g' os' idx a' t' b' m' s))" if "nat idx < nsock s"
    for s g os a t b m g' os' a' t' b' m'
    using that by (intro keeps_trans [OF d d]) simp_all
  show ?thesis
    using assms by (simp add: send_dumps_def Let_def keeping d d2 split: sock_type.split sum.split)
qed

lemma sendmsg_after_keeps:
  assumes "pool_inv {} pend st \<Longrightarrow> nat idx < nsock st"
  shows "keeps_at pend st (snd (swrap_sendmsg_after e ma fd idx msg to ret st))"
proof (rule keeps_pool)
  assume "pool_inv {} pend st"
  then have "nat idx < nsock (drop_stale fd ret st)" using assms by simp
  from keeps_trans [OF drop_stale_keeps send_dumps_keep [OF this]]
  show "keeps_at pend st (snd (swrap_sendmsg_after e ma fd idx msg to ret st))"
    by (simp add: swrap_sendmsg_after_def Let_def keeping)
qed

lemma recvmsg_before_keeps:
  assumes l: "live_at idx (tab p)"
  shows "pkeeps_at pend p (snd (swrap_recvmsg_before e fd idx msg p))"
proof -
  define si where "si = swrap_get_socket_info idx (tab p)"
  obtain b p1 where b: "ensure_bound e fd idx p = (b, p1)" by fastforce
  note k1 = ensure_bound_keeps(1) [OF l, of pend e fd, unfolded b, simplified]
  obtain m p2 where u: "use_mtu e p = (m, p2)" by fastforce
  show ?thesis
    using mtu_keeps [of pend p e] u k1 b
    by (cases "sotype si"; cases b) (simp_all add: swrap_recvmsg_before_def si_def [symmetric] Let_def keeping)
qed

lemma recv_dumps_keep:
  assumes "nat idx < nsock st"
  shows "keeps_at pend st (recv_dumps e idx fg sender ret buf st)"
proof -
  have d: "keeps_at pend st (dump_on g os idx a t b m st)" for g os a t b m
    using assms by (rule dump_keeps)
  show ?thesis
    by (simp add: recv_dumps_def Let_def keeping d split: sock_type.split sum.split)
qed

lemma recvmsg_after_keeps:
  assumes "pool_inv {} pend st \<Longrightarrow> nat idx < nsock st"
  shows "keeps_at pend st (snd (swrap_recvmsg_after e ma fd idx un ret msg st))"
proof (rule keeps_pool)
  assume "pool_inv {} pend st"
  then have "nat idx < nsock (drop_stale fd ret st)" using assms by simp
  note k = keeps_trans [OF drop_stale_keeps recv_dumps_keep [OF this]]
  show "keeps_at pend st (snd (swrap_recvmsg_after e ma fd idx un ret msg st))"
    using k by (auto simp: swrap_recvmsg_after_def Let_def keeping split: option.split)
qed

lemma nsock_kept: "pkeeps_at pend p p' \<Longrightarrow> proc_at pend p \<Longrightarrow> nsock (tab p') = nsock (tab p)"
  by (simp add: pkeeps_at_def)

text \<open>A last step that works on the array where the call's entry is.\<close>

lemma pkeeps_step:
  assumes k: "pkeeps_at pend p p'" and l: "live_at idx (tab p)"
    and s: "nat idx < nsock (tab p') \<Longrightarrow> keeps_at pend (tab p') st"
  shows "pkeeps_at pend p (p'\<lparr>tab := st\<rparr>)"
proof (cases "proc_at pend p")
  case True
  then have "nat idx < nsock (tab p')"
    using live_in [OF l, of pend] nsock_kept [OF k] by (auto simp: proc_at_def tab_at_def)
  from pkeeps_trans [OF k pkeeps_tab [OF s [OF this]]] show ?thesis .
qed (simp add: pkeeps_at_def)

lemma send_entry_keeps:
  assumes "pkeeps_at pend p p'" "live_at idx (tab p)"
  shows "pkeeps_at pend p (snd (send_entry e ma tr s idx msg to p'))"
proof -
  have "pkeeps_at pend p (p'\<lparr>tab := snd (swrap_sendmsg_after e ma s idx msg to ret (tab p'))\<rparr>)" for ret
    by (rule pkeeps_step [OF assms]) (rule sendmsg_after_keeps)
  then show ?thesis by (simp add: send_entry_def Let_def case_prod_beta)
qed

lemma recv_entry_keeps:
  assumes "pkeeps_at pend p p'" "live_at idx (tab p)"
  shows "pkeeps_at pend p (snd (recv_entry e ma rc s idx msg p'))"
proof -
  have "pkeeps_at pend p (p'\<lparr>tab := snd (swrap_recvmsg_after e ma s idx un ret m (tab p'))\<rparr>)" for un ret m
    by (rule pkeeps_step [OF assms]) (rule recvmsg_after_keeps)
  then show ?thesis by (simp add: recv_entry_def Let_def case_prod_beta)
qed

lemma sendto_keeps [keeping]: "pkeeps_at pend p (snd (swrap_sendto e ma tr s buf to tolen p))"
proof (cases "find_socket_info_index s (tab p) = - 1")
  case True
  then show ?thesis by (simp add: swrap_sendto_def keeping)
next
  case False
  define idx where "idx = find_socket_info_index s (tab p)"
  have l: "live_at idx (tab p)" using False by (simp add: idx_def live_found)
  define msg where "msg = \<lparr>s_name = (case to of None \<Rightarrow> NoName | Some a \<Rightarrow> Ip a), s_namelen = tolen, s_iov = [buf],
                 s_control = None, s_controllen = 0\<rparr>"
  obtain b p1 where b: "swrap_sendmsg_before e ma s idx msg p = (b, p1)" by fastforce
  note k = sendmsg_before_keeps [OF l, of pend e ma s msg, unfolded b, simplified]
  have d: "pkeeps_at pend p (p1\<lparr>tab := dump_on g os idx a t bf m (tab p1)\<rparr>)" for g os a t bf m
    by (rule pkeeps_step [OF k l]) (rule dump_keeps)
  show ?thesis
    using False b k
    by (cases b) (simp_all add: swrap_sendto_def Let_def idx_def [symmetric] msg_def [symmetric] case_prod_beta d
        send_entry_keeps [OF k l])
qed

lemma sendmsg_keeps [keeping]: "pkeeps_at pend p (snd (swrap_sendmsg e ma tr s omsg p))"
proof (cases "find_socket_info_index s (tab p) = - 1")
  case True
  then show ?thesis by (simp add: swrap_sendmsg_def keeping)
next
  case False
  define idx where "idx = find_socket_info_index s (tab p)"
  have l: "live_at idx (tab p)" using False by (simp add: idx_def live_found)
  define msg where "msg = sendmsg_copy (swrap_get_socket_info idx (tab p)) omsg"
  obtain b p1 where b: "swrap_sendmsg_before e ma s idx msg p = (b, p1)" by fastforce
  note k = sendmsg_before_keeps [OF l, of pend e ma s msg, unfolded b, simplified]
  have d: "pkeeps_at pend p (p1\<lparr>tab := dump_on g os idx a t bf m (tab p1)\<rparr>)" for g os a t bf m
    by (rule pkeeps_step [OF k l]) (rule dump_keeps)
  show ?thesis
    using False b k
    by (cases b) (simp_all add: swrap_sendmsg_def Let_def idx_def [symmetric] msg_def [symmetric] case_prod_beta d
        send_entry_keeps [OF k l])
qed

text \<open>The other calls that send: a message without a name, then one transmission.\<close>

lemma unnamed_send_keeps:
  assumes "idx \<noteq> - 1" "idx = find_socket_info_index s (tab p)"
  shows "pkeeps_at pend p (snd (case swrap_sendmsg_before e ma s idx msg p of
        (Ready (msg, _, _), p) \<Rightarrow> send_entry e ma tr s idx msg None p
      | (NotSocket, p) \<Rightarrow> ((r1, []), p)
      | (Fails err, p) \<Rightarrow> ((r2 err, []), p)))"
proof -
  have l: "live_at idx (tab p)" using assms by (simp add: live_found)
  obtain b p1 where b: "swrap_sendmsg_before e ma s idx msg p = (b, p1)" by fastforce
  note k = sendmsg_before_keeps [OF l, of pend e ma s msg, unfolded b, simplified]
  show ?thesis
    using b k by (cases b) (simp_all add: case_prod_beta send_entry_keeps [OF k l])
qed

lemma send_calls_keep [keeping]:
  "pkeeps_at pend p (snd (swrap_write e ma tr s buf p))" "pkeeps_at pend p (snd (swrap_send e ma tr s buf p))"
  "pkeeps_at pend p (snd (swrap_writev e ma tr lr s vec p))"
  using unnamed_send_keeps [OF _ refl, of s p pend e ma]
  by (simp_all add: swrap_write_def swrap_send_def swrap_writev_def keeping Let_def)

text \<open>The calls that receive.\<close>

lemma simple_recv_keeps:
  assumes "idx \<noteq> - 1" "idx = find_socket_info_index s (tab p)"
  shows "pkeeps_at pend p (snd (case swrap_recvmsg_before e s idx msg p of
        (Ready msg, p) \<Rightarrow> recv_entry e ma rc s idx msg p
      | (NotSocket, p) \<Rightarrow> (r1, p)
      | (Fails err, p) \<Rightarrow> (r2 err, p)))"
proof -
  have l: "live_at idx (tab p)" using assms by (simp add: live_found)
  obtain b p1 where b: "swrap_recvmsg_before e s idx msg p = (b, p1)" by fastforce
  note k = recvmsg_before_keeps [OF l, of pend e s msg, unfolded b, simplified]
  show ?thesis
    using b k by (cases b) (simp_all add: recv_entry_keeps [OF k l])
qed

lemma recv_calls_keep [keeping]:
  "pkeeps_at pend p (snd (swrap_recv e mb rc s buf p))" "pkeeps_at pend p (snd (swrap_read e mb rc s buf p))"
  "pkeeps_at pend p (snd (swrap_readv e mb rc s vec p))"
  using simple_recv_keeps [OF _ refl, where s = s and p = p and e = e and ma = mb]
  by (simp_all add: swrap_recv_def swrap_read_def swrap_readv_def keeping Let_def)

lemma recvfrom_keeps [keeping]: "pkeeps_at pend p (snd (swrap_recvfrom e mb rc sender s buf from_out p))"
proof (cases "find_socket_info_index s (tab p) = - 1")
  case True
  then show ?thesis by (simp add: swrap_recvfrom_def Let_def keeping split: prod.split)
next
  case False
  define idx where "idx = find_socket_info_index s (tab p)"
  have l: "live_at idx (tab p)" using False by (simp add: idx_def live_found)
  obtain a n where an: "(case from_out of None \<Rightarrow> (zero_sockaddr, sockaddr_storage_size) | Some x \<Rightarrow> x) = (a, n)" by fastforce
  obtain b p1 where b: "swrap_recvmsg_before e s idx (plain_recv a n [buf]) p = (b, p1)" by fastforce
  note k = recvmsg_before_keeps [OF l, of pend e s "plain_recv a n [buf]", unfolded b, simplified]
  have d: "pkeeps_at pend p (p1\<lparr>tab := snd (swrap_recvmsg_after e mb s idx un ret m (tab p1))\<rparr>)" for un ret m
    by (rule pkeeps_step [OF k l]) (rule recvmsg_after_keeps)
  show ?thesis
    using False b k
    by (cases b) (simp_all add: swrap_recvfrom_def Let_def idx_def [symmetric] an case_prod_beta d split: sum.split)
qed

lemma recvmsg_keeps [keeping]: "pkeeps_at pend p (snd (swrap_recvmsg e mb rc sender s (oname, omsg) p))"
proof (cases "find_socket_info_index s (tab p) = - 1")
  case True
  then show ?thesis by (simp add: swrap_recvmsg_def Let_def keeping)
next
  case False
  define idx where "idx = find_socket_info_index s (tab p)"
  have l: "live_at idx (tab p)" using False by (simp add: idx_def live_found)
  obtain b p1 where b: "swrap_recvmsg_before e s idx omsg p = (b, p1)" by fastforce
  note k = recvmsg_before_keeps [OF l, of pend e s omsg, unfolded b, simplified]
  have d: "pkeeps_at pend p (p1\<lparr>tab := snd (swrap_recvmsg_after e mb s idx un ret m (tab p1))\<rparr>)" for un ret m
    by (rule pkeeps_step [OF k l]) (rule recvmsg_after_keeps)
  show ?thesis
    using False b k
    by (cases b) (simp_all add: swrap_recvmsg_def Let_def idx_def [symmetric] case_prod_beta d split: option.split)
qed

lemma resv_loop_keeps:
  assumes "addr_ok a"
  shows "pkeeps p (snd (snd (resv_loop e lb sd af n rc a (port, p))))"
  using assms
proof (induction n arbitrary: rc a port p)
  case (Suc n)
  define b where "b = a\<lparr>sa_port := port, sa_fam := af\<rparr>"
  have b: "addr_ok b" using Suc.prems by (simp add: b_def addr_ok_def)
  obtain r x p1 where s: "swrap_bind e sd b (socket_length af) p = ((r, x), p1)" by (metis prod.exhaust)
  have k: "pkeeps p p1" using bind_keeps [OF b socket_length_storage, of "\<lambda>_. 0" p e sd af] s by simp
  note ih = pkeeps_trans [OF k Suc.IH [OF b]]
  show ?case
    using s k ih by (cases r) (auto simp: Let_def b_def [symmetric] keeping)
qed (simp add: keeping)

lemma bindresvport_keeps [keeping]:
  assumes "case given of None \<Rightarrow> True | Some a \<Rightarrow> addr_ok a"
  shows "pkeeps p (snd (snd (swrap_bindresvport_sa e lg lb sd given (port, p))))"
  using assms
  by (auto simp: swrap_bindresvport_sa_def Let_def keeping resv_loop_keeps case_prod_beta split: option.split sum.split)

section \<open>Runs\<close>

text \<open>
  A step is one call, with any arguments and any results of libc. The caller's addresses have
  their size, and those given to connect and bind fit the storage; no descriptor that accept
  returns is still in the table.
\<close>

inductive lib_step :: "proc \<Rightarrow> proc \<Rightarrow> bool" where
  step_socket: "swrap_socket e alloc lw ls fam ty prot (tab p) = Some (r, st) \<Longrightarrow> lib_step p (p\<lparr>tab := st\<rparr>)"
| step_accept: "(case la of Inl _ \<Rightarrow> True | Inr (fd, _) \<Rightarrow> view (tab p) fd = None) \<Longrightarrow>
    lib_step p (p\<lparr>tab := snd (swrap_accept e la lg lc s out (tab p))\<rparr>)"
| step_connect: "addr_ok a \<Longrightarrow> n \<le> sockaddr_storage_size \<Longrightarrow> lib_step p (snd (swrap_connect e s a n p))"
| step_bind: "addr_ok a \<Longrightarrow> n \<le> sockaddr_storage_size \<Longrightarrow> lib_step p (snd (swrap_bind e s a n p))"
| step_bindresvport: "(case given of None \<Rightarrow> True | Some a \<Rightarrow> addr_ok a) \<Longrightarrow>
    lib_step p (snd (snd (swrap_bindresvport_sa e lgs lb s given (port, p))))"
| step_listen: "lib_step p (snd (swrap_listen e ll s p))"
| step_setsockopt: "lib_step p (p\<lparr>tab := snd (swrap_setsockopt s level optname optval optlen (tab p))\<rparr>)"
| step_ioctl: "lib_step p (p\<lparr>tab := snd (swrap_vioctl e rc v s req (tab p))\<rparr>)"
| step_sendto: "lib_step p (snd (swrap_sendto e ma tr s buf to tolen p))"
| step_write: "lib_step p (snd (swrap_write e ma tr s buf p))"
| step_send: "lib_step p (snd (swrap_send e ma tr s buf p))"
| step_writev: "lib_step p (snd (swrap_writev e ma tr lr s vec p))"
| step_sendmsg: "lib_step p (snd (swrap_sendmsg e ma tr s omsg p))"
| step_recvfrom: "lib_step p (snd (swrap_recvfrom e mb rcv sender s buf from_out p))"
| step_recv: "lib_step p (snd (swrap_recv e mb rcv s buf p))"
| step_read: "lib_step p (snd (swrap_read e mb rcv s buf p))"
| step_readv: "lib_step p (snd (swrap_readv e mb rcv s vec p))"
| step_recvmsg: "lib_step p (snd (swrap_recvmsg e mb rcm sender s (oname, imsg) p))"
| step_close: "lib_step p (p\<lparr>tab := snd (swrap_close getenv oses fd cl (tab p))\<rparr>)"
| step_dup: "swrap_dup fd res (tab p) = Inr (x, st) \<Longrightarrow> lib_step p (p\<lparr>tab := st\<rparr>)"
| step_dup2: "swrap_dup2 getenv oses fd newfd cl res (tab p) = Inr (x, st) \<Longrightarrow> lib_step p (p\<lparr>tab := st\<rparr>)"
| step_fcntl: "swrap_vfcntl fd c res (tab p) = Inr (x, st) \<Longrightarrow> lib_step p (p\<lparr>tab := st\<rparr>)"
| step_fopen: "lib_step p (p\<lparr>tab := snd (swrap_fopen f (tab p))\<rparr>)"
| step_fopen64: "lib_step p (p\<lparr>tab := snd (swrap_fopen64 f (tab p))\<rparr>)"
| step_open: "lib_step p (p\<lparr>tab := snd (swrap_vopen res (tab p))\<rparr>)"
| step_open64: "lib_step p (p\<lparr>tab := snd (swrap_vopen64 res (tab p))\<rparr>)"
| step_openat: "lib_step p (p\<lparr>tab := snd (swrap_vopenat res (tab p))\<rparr>)"
| step_eventfd: "lib_step p (p\<lparr>tab := snd (swrap_eventfd res (tab p))\<rparr>)"
| step_timerfd: "lib_step p (p\<lparr>tab := snd (swrap_timerfd_create res (tab p))\<rparr>)"
| step_signalfd: "lib_step p (p\<lparr>tab := snd (swrap_signalfd fd res (tab p))\<rparr>)"
| step_socketpair: "lib_step p (p\<lparr>tab := snd (swrap_socketpair res2 (tab p))\<rparr>)"
| step_pipe: "lib_step p (p\<lparr>tab := snd (swrap_pipe res2 (tab p))\<rparr>)"

lemma lib_step_keeps: "lib_step p p' \<Longrightarrow> pkeeps p p'"
  by (induction rule: lib_step.induct) (auto intro: keeping pkeeps_tab)

definition proc_start :: "swrap \<Rightarrow> proc" where
  "proc_start st = \<lparr>tab = st, autobind_start = None, max_mtu = 0\<rparr>"

inductive library_run :: "proc \<Rightarrow> bool" where
  run_start: "socket_wrapper_init_sockets getenv True True True swrap0 = Some st \<Longrightarrow> library_run (proc_start st)"
| run_step: "library_run p \<Longrightarrow> lib_step p p' \<Longrightarrow> library_run p'"

lemma library_run_ok: "library_run p \<Longrightarrow> proc_ok p"
proof (induction rule: library_run.induct)
  case (run_start getenv st)
  have "refc st i = 0" if "i < nsock st" for i
    using run_start that
    by (auto simp: socket_wrapper_init_sockets_def swrap0_def Let_def refc_def nsock_def fresh_container_def)
  then show ?case
    using init_pool_ok [OF run_start]
    by (simp add: proc_ok_def proc_start_def tab_ok_def entries_ok_def start_ok_def mtu_ok_def)
next
  case (run_step p p')
  then show ?case using lib_step_keeps by (simp add: pkeeps_def)
qed

lemma steps_keep: "lib_step\<^sup>*\<^sup>* p p' \<Longrightarrow> pkeeps p p'"
  by (induction rule: rtranclp_induct) (auto intro: keeping pkeeps_trans lib_step_keeps)

section \<open>A socket\<close>

lemma run_pool: "library_run p \<Longrightarrow> pool_ok (tab p)"
  using library_run_ok by (auto simp: proc_ok_def tab_ok_def)

lemma pool_ready: "pool_ok st \<Longrightarrow> ready st"
  by (simp add: pool_inv_def)

text \<open>The arguments that \<open>swrap_socket\<close> makes an entry for.\<close>

definition socket_args :: "sa_family \<Rightarrow> sock_type \<Rightarrow> int \<Rightarrow> bool" where
  "socket_args fam rt prot \<longleftrightarrow> (fam = Inet \<or> fam = Inet6) \<and> (rt = Stream \<or> rt = Dgram)
     \<and> (prot = 0 \<or> prot = 6 \<or> prot = 17 \<and> rt = Dgram)"

lemma socket_wrapped:
  assumes "ready st" "socket_wrapper_dir (l_getenv e) \<noteq> None"
    and "rt = code_type (ty AND NOT SOCK_CLOEXEC AND NOT SOCK_NONBLOCK)"
  shows "swrap_socket e alloc lw ls fam ty prot st = Some (
     if fam \<in> {AF_NETLINK, AF_PACKET, Unix} then (lw, st)
     else if \<not> socket_args fam rt prot then (Inl (if fam \<noteq> Inet \<and> fam \<noteq> Inet6 then EAFNOSUPPORT else EPROTONOSUPPORT), st)
     else case ls of Inl err \<Rightarrow> (Inl err, st)
       | Inr fd \<Rightarrow>
          (case swrap_create_socket (new_socket_info fam rt prot) fd (swrap_remove_stale fd st) of
             (None, st) \<Rightarrow> (Inl (if 0 \<le> fd \<and> fd < int SOCKET_FDS_MAX then ENFILE else l_errno e), st)
           | (Some _, st) \<Rightarrow> (Inr fd, st)))"
proof -
  obtain a b c where [simp]: "alloc = (a, b, c)" by (metis prod_cases3)
  have "socket_wrapper_enabled (l_getenv e) a b c st = Some (True, st)"
    using assms by (simp add: socket_wrapper_enabled_def socket_wrapper_init_sockets_def)
  then show ?thesis
    unfolding swrap_socket_def assms(3) [symmetric] by (auto simp: Let_def socket_args_def split: sum.split)
qed

text \<open>Surroundings in which every call succeeds and no path exists.\<close>

definition quiet :: libc where
  "quiet = \<lparr>l_getenv = (\<lambda>n. if n = ''SOCKET_WRAPPER_DIR'' then Some ''d'' else None), l_pid = 1234,
     l_stat = (\<lambda>_. False), l_bind = (\<lambda>_. Inr ()), l_connect = (\<lambda>_. Inr ()), l_pcap = (\<lambda>_. os_ok), l_errno = EOTHER 0\<rparr>"

lemma quiet_dir [simp]: "socket_wrapper_dir (l_getenv quiet) = Some ''d''" "dir_of quiet = ''d''"
  by (simp_all add: quiet_def socket_wrapper_dir_def strip_dot_def dir_of_def)

lemma library_start: "\<exists>p. library_run p \<and> view (tab p) = Map.empty \<and> nsock (tab p) = 65535 \<and> autobind_start p = None \<and> max_mtu p = 0"
proof -
  obtain st where st: "socket_wrapper_init_sockets (\<lambda>_. None) True True True swrap0 = Some st"
    by (simp add: socket_wrapper_init_sockets_def swrap0_def Let_def)
  then have "nsock st = 65535 \<and> (\<forall>fd. fds_idx st fd = - 1)"
    by (auto simp: socket_wrapper_init_sockets_def swrap0_def Let_def nsock_def socket_wrapper_max_sockets_def
        SOCKET_WRAPPER_MAX_SOCKETS_DEFAULT_def)
  then have "nsock st = 65535 \<and> view st = Map.empty"
    by (simp add: view_def find_socket_info_index_def fun_eq_iff)
  with run_start [OF st] show ?thesis by (intro exI [of _ "proc_start st"]) (simp add: proc_start_def)
qed

lemma new_socket:
  assumes r: "library_run p" "view (tab p) fd = None" "0 \<le> fd" "fd < int SOCKET_FDS_MAX"
    and i: "i < nsock (tab p)" "\<forall>fd. view (tab p) fd \<noteq> Some (int i)"
    and a: "socket_args fam rt prot" "rt = code_type (ty AND NOT SOCK_CLOEXEC AND NOT SOCK_NONBLOCK)"
    and e: "socket_wrapper_dir (l_getenv e) \<noteq> None"
  shows "\<exists>st idx. swrap_socket e alloc lw (Inr fd) fam ty prot (tab p) = Some (Inr fd, st)
    \<and> library_run (p\<lparr>tab := st\<rparr>) \<and> view st = (view (tab p))(fd \<mapsto> idx)
    \<and> swrap_get_socket_info idx st = new_socket_info fam rt prot \<and> nsock st = nsock (tab p)
    \<and> (\<forall>g. view (tab p) g \<noteq> Some idx)"
proof -
  note ok = run_pool [OF r(1)]
  have f: "find_socket_info_index fd (tab p) = - 1" using r(2) by (auto simp: view_def split: if_splits)
  then have rs: "swrap_remove_stale fd (tab p) = tab p" by (simp add: swrap_remove_stale_def)
  have "refc (tab p) i = 0" using live_iff_view [OF ok i(1)] i(2) by auto
  then obtain idx st where c: "swrap_create_socket (new_socket_info fam rt prot) fd (tab p) = (Some idx, st)"
    using create_socket_spec [OF ok f, of "new_socket_info fam rt prot"] r(3,4) i(1)
    by (cases "swrap_create_socket (new_socket_info fam rt prot) fd (tab p)";
        cases "fst (swrap_create_socket (new_socket_info fam rt prot) fd (tab p))") auto
  have n: "fam \<notin> {AF_NETLINK, AF_PACKET, Unix}" using a(1) by (auto simp: socket_args_def AF_NETLINK_def AF_PACKET_def)
  have s: "swrap_socket e alloc lw (Inr fd) fam ty prot (tab p) = Some (Inr fd, st)"
    using a(1) n c by (simp add: socket_wrapped [OF pool_ready [OF ok] e a(2)] rs)
  moreover have "nsock st = nsock (tab p)"
    using create_socket_spec [OF ok f, of "new_socket_info fam rt prot"] c by (simp add: enters_def)
  moreover have "view (tab p) g \<noteq> Some idx" for g
    using create_socket_spec [OF ok f, of "new_socket_info fam rt prot"] c view_live(3) [OF ok, of g idx]
    by (auto simp: enters_def)
  ultimately show ?thesis using run_step [OF r(1) step_socket [OF s]] create_view [OF ok r(2) c] by blast
qed

lemma socket_exists:
  assumes "socket_args fam rt prot" "rt = code_type (ty AND NOT SOCK_CLOEXEC AND NOT SOCK_NONBLOCK)"
  shows "\<exists>p idx. library_run p \<and> view (tab p) = [3 \<mapsto> idx]
    \<and> swrap_get_socket_info idx (tab p) = new_socket_info fam rt prot \<and> autobind_start p = None \<and> max_mtu p = 0
    \<and> nsock (tab p) = 65535"
proof -
  obtain p where p: "library_run p" "view (tab p) = Map.empty" "nsock (tab p) = 65535" "autobind_start p = None" "max_mtu p = 0"
    using library_start by blast
  have f: "(3 :: int) < int SOCKET_FDS_MAX" by (simp add: SOCKET_FDS_MAX_def SOCKET_WRAPPER_MAX_SOCKETS_LIMIT_def)
  obtain st idx where s: "library_run (p\<lparr>tab := st\<rparr>)" "view st = (view (tab p))(3 \<mapsto> idx)"
      "swrap_get_socket_info idx st = new_socket_info fam rt prot" "nsock st = nsock (tab p)"
    using new_socket [OF p(1) _ _ f _ _ assms, where i = 0 and e = quiet and alloc = "(True, True, True)" and lw = "Inr 0"] p
    by auto
  then show ?thesis using p by (intro exI [of _ "p\<lparr>tab := st\<rparr>"] exI [of _ idx]) simp
qed

text \<open>A TCP socket of IPv4.\<close>

lemma tcp_socket:
  "\<exists>p idx. library_run p \<and> view (tab p) = [3 \<mapsto> idx]
    \<and> swrap_get_socket_info idx (tab p) = new_socket_info Inet Stream 0 \<and> autobind_start p = None \<and> max_mtu p = 0
    \<and> nsock (tab p) = 65535"
proof (rule socket_exists [where ty = 1])
  show "Stream = code_type (1 AND NOT SOCK_CLOEXEC AND NOT SOCK_NONBLOCK)" by code_simp
qed (simp add: socket_args_def)

lemma udp_socket:
  "\<exists>p idx. library_run p \<and> view (tab p) = [3 \<mapsto> idx]
    \<and> swrap_get_socket_info idx (tab p) = new_socket_info Inet Dgram 0 \<and> autobind_start p = None \<and> max_mtu p = 0
    \<and> nsock (tab p) = 65535"
proof (rule socket_exists [where ty = 2])
  show "Dgram = code_type (2 AND NOT SOCK_CLOEXEC AND NOT SOCK_NONBLOCK)" by code_simp
qed (simp add: socket_args_def)

text \<open>A socket that listens without having been bound gets the first port and a path.\<close>

lemma default_iface_quiet [simp]: "socket_wrapper_default_iface (l_getenv quiet) = 1"
  by (simp add: quiet_def socket_wrapper_default_iface_def)

lemma search_quiet [simp]: "autobind_search quiet t n = Some 0"
proof -
  have "[0..<SOCKET_MAX_SOCKETS] = 0 # [Suc 0..<SOCKET_MAX_SOCKETS]"
    by (rule upt_conv_Cons) (simp add: SOCKET_MAX_SOCKETS_def)
  then show ?thesis by (simp add: autobind_search_def quiet_def)
qed

lemma entry_at:
  assumes "library_run p" "view (tab p) fd = Some idx"
  shows "find_socket_info_index fd (tab p) = idx" "idx \<noteq> - 1" "nat idx < nsock (tab p)" "0 \<le> idx"
  using assms view_live [OF run_pool [OF assms(1)] assms(2)] by (auto simp: view_def split: if_splits)

text \<open>The entry after a call on it.\<close>

lemma get_set_info:
  "nat idx < nsock st \<Longrightarrow> swrap_get_socket_info idx ((set_info idx si st)\<lparr>pcap := pc\<rparr>) = si"
  by (simp add: swrap_get_socket_info_def set_info_def upd_container_def nsock_def)

lemma view_set_info [simp]: "view ((set_info idx si st)\<lparr>pcap := pc\<rparr>) = view st"
  by (simp add: view_def find_socket_info_index_def set_info_def upd_container_def fun_eq_iff)

lemma entry_call_at:
  assumes "library_run p" "view (tab p) fd = Some idx"
    and f: "f (autobind_start p) (swrap_get_socket_info idx (tab p), pcap (tab p)) = ((r, start), si, pc)"
  shows "fst (entry_call fd f p) = r" "autobind_start (snd (entry_call fd f p)) = start"
    "swrap_get_socket_info idx (tab (snd (entry_call fd f p))) = si"
    "view (tab (snd (entry_call fd f p))) = view (tab p)"
  using entry_at [OF assms(1,2)] f
  by (simp_all add: entry_call_def on_entry_def get_set_info Let_def)

lemma listen_binds:
  assumes "library_run p" "view (tab p) fd = Some idx" "autobind_start p = None"
    and "swrap_get_socket_info idx (tab p) = new_socket_info Inet Stream 0"
  shows "\<exists>p'. p' = snd (swrap_listen quiet (Inr ()) fd p) \<and> library_run p' \<and> view (tab p') = view (tab p)
    \<and> un_addr (swrap_get_socket_info idx (tab p')) = autobind_path quiet (CHR ''T'') 11234 0
    \<and> autobind_start p' = Some 11235"
proof -
  define si where "si = new_socket_info Inet Stream 0"
  obtain t sj where n: "auto_bind_name quiet Inet si = Inr (t, sj)"
    by (simp add: auto_bind_name_def si_def new_socket_info_def)
  have t: "t = CHR ''T''" using n by (auto simp: auto_bind_name_def si_def new_socket_info_def type_chars)
  have w: "autobind_wrap (autobind_init quiet None) = 11234"
    by (simp add: autobind_wrap_def autobind_init_def quiet_def)
  have b: "\<not> bound si" "family si = Inet" by (simp_all add: si_def new_socket_info_def zero_info_names)
  have q: "l_bind quiet path = Inr ()" for path by (simp add: quiet_def)
  have "listen_entry quiet (Inr ()) None (si, pcap (tab p)) = ((Returns (Inr ()), Some 11235),
     sj\<lparr>un_addr := autobind_path quiet t 11234 0, bound := True, family := Inet,
        myname := set_port Inet 11234 (myname sj)\<rparr>, pcap (tab p))"
    using b n by (simp add: listen_entry_def swrap_auto_bind_def w q)
  note c = entry_call_at [OF assms(1,2), of "listen_entry quiet (Inr ())", unfolded assms(3,4) si_def [symmetric], OF this]
  have "library_run (snd (swrap_listen quiet (Inr ()) fd p))"
    using run_step [OF assms(1) step_listen] .
  then show ?thesis using c by (simp add: swrap_listen_def t)
qed

lemma autobind_path_nonempty: "autobind_path e t s i \<noteq> ''''"
  by (simp add: autobind_path_def sun_path_def socket_format_def SUN_PATH_def take_Cons')

section \<open>Properties\<close>





text \<open>
  No socket path is forgotten: whatever calls follow, the path that a wrapped descriptor's socket
  has now will either have been unlinked or still belong to the socket of some descriptor.
\<close>

theorem no_path_lost:
  assumes "library_run p" "view (tab p) fd = Some idx" "lib_step\<^sup>*\<^sup>* p p'"
    and "path = un_addr (swrap_get_socket_info idx (tab p))" "path \<noteq> ''''"
  shows "path \<in> set (unlinked (tab p'))
    \<or> (\<exists>fd' idx'. view (tab p') fd' = Some idx' \<and> un_addr (swrap_get_socket_info idx' (tab p')) = path)"
proof -
  have ok: "proc_ok p" using assms(1) by (rule library_run_ok)
  with steps_keep [OF assms(3)] have ok': "pool_ok (tab p')" and f: "files (tab p) \<subseteq># files (tab p')"
    by (auto simp: pkeeps_def proc_ok_def tab_ok_def)
  have l: "nat idx < nsock (tab p)" "refc (tab p) (nat idx) \<noteq> 0"
    using view_live [OF run_pool [OF assms(1)] assms(2)] by blast+
  have "path_of (tab p) (nat idx) = path" by (simp add: assms(4) path_of_def swrap_get_socket_info_def)
  then have "path \<in># files (tab p)"
    using l assms(5) by (auto simp: files_def set_mset_sum intro!: bexI [of _ "nat idx"] split: if_splits)
  then have "path \<in># files (tab p')" using f by (rule mset_subset_eqD [rotated])
  then consider "path \<in> set (unlinked (tab p'))" | i where "i < nsock (tab p')" "refc (tab p') i \<noteq> 0" "path_of (tab p') i = path"
    by (auto simp: files_def set_mset_sum split: if_splits)
  then show ?thesis
  proof cases
    case 2
    then obtain fd' where "view (tab p') fd' = Some (int i)" using live_iff_view [OF ok'] by blast
    moreover have "un_addr (swrap_get_socket_info (int i) (tab p')) = path"
      using 2 by (simp add: path_of_def swrap_get_socket_info_def)
    ultimately show ?thesis by blast
  qed simp
qed

theorem no_path_lost_witness:
  "\<exists>p idx. library_run p \<and> view (tab p) 3 = Some idx
    \<and> un_addr (swrap_get_socket_info idx (tab p)) \<in> set (unlinked (snd (swrap_close (l_getenv quiet) (l_pcap quiet) 3 (Inr ()) (tab p))))"
proof -
  obtain p0 idx where p0: "library_run p0" "view (tab p0) = [3 \<mapsto> idx]" "autobind_start p0 = None"
      "swrap_get_socket_info idx (tab p0) = new_socket_info Inet Stream 0"
    using tcp_socket by blast
  then have v0: "view (tab p0) 3 = Some idx" by simp
  obtain p where p: "library_run p" "view (tab p) = view (tab p0)"
      "un_addr (swrap_get_socket_info idx (tab p)) = autobind_path quiet (CHR ''T'') 11234 0"
    using listen_binds [OF p0(1) v0 p0(3,4)] by blast
  let ?st = "snd (swrap_close (l_getenv quiet) (l_pcap quiet) 3 (Inr ()) (tab p))"
  have v: "view (tab p) 3 = Some idx" using p(2) v0 by simp
  have s: "lib_step\<^sup>*\<^sup>* p (p\<lparr>tab := ?st\<rparr>)" by (rule r_into_rtranclp) (rule step_close)
  have "view ?st = Map.empty"
    using close_laws [OF run_pool [OF p(1)]] p(2) p0(2) by simp
  with no_path_lost [OF p(1) v s refl] p(3) autobind_path_nonempty
  show ?thesis using p(1) v by (intro exI [of _ p] exI [of _ idx]) simp
qed

end
