(* ===== verification/Swrap_Conn.thy ===== *)
theory Swrap_Conn
  imports Swrap_Run
begin

text \<open>
  What the calls that make, name and connect sockets do: creation, automatic binding, the two
  ends of a connection and the names they see of each other, options, reserved ports.
\<close>

lemma run_entry:
  assumes "library_run p" "view (tab p) fd = Some idx"
  shows "entry_ok (swrap_get_socket_info idx (tab p))"
proof -
  have ok: "tab_ok (tab p)" using library_run_ok [OF assms(1)] by (simp add: proc_ok_def)
  then have "nat idx < nsock (tab p)" "refc (tab p) (nat idx) \<noteq> 0"
    using view_live [OF _ assms(2)] by (auto simp: tab_ok_def)
  then show ?thesis using ok by (auto simp: tab_ok_def entries_ok_def info_def swrap_get_socket_info_def)
qed

section \<open>Copied addresses\<close>

lemma rev_le16: "rev (le16 w) = be16 w"
  by (simp add: le16_def be16_def)

lemma code_family_code: "f \<in> {Unspec, Unix, Inet, Inet6} \<Longrightarrow> code_family (family_code f) = f"
  by (auto simp: code_family_def family_code_def)

lemma family_code_small: "f \<in> {Unspec, Unix, Inet, Inet6} \<Longrightarrow> uint (word_of_int (family_code f) :: u16) = family_code f"
  by (auto simp: family_code_def)

lemma bytes_addr_inverse:
  assumes "addr_ok a" "sa_fam a \<in> {Unspec, Unix, Inet, Inet6}"
  shows "bytes_addr (addr_bytes a) = a"
proof -
  have "drop 4 (addr_bytes a) = be32 (sa_in a) @ sa_in6 a" "drop 2 (addr_bytes a) = be16 (sa_port a) @ be32 (sa_in a) @ sa_in6 a"
    "take 2 (addr_bytes a) = le16 (word_of_int (family_code (sa_fam a)))" "drop 8 (addr_bytes a) = sa_in6 a"
    by (simp_all add: addr_bytes_def)
  then show ?thesis
    using assms(2) by (simp add: bytes_addr_def rev_le16 code_family_code family_code_small)
qed

text \<open>An address without bytes behind its own structure is copied whole by the length of that.\<close>

definition exact_addr :: "sockaddr \<Rightarrow> bool" where
  "exact_addr a \<longleftrightarrow> addr_ok a \<and> (sa_fam a = Inet \<and> sa_in6 a = replicate 16 0 \<or> sa_fam a = Inet6)"

lemma memcpy_exact:
  assumes "exact_addr a" "n = socket_length (sa_fam a)"
  shows "memcpy_addr n a zero_sockaddr = a"
proof -
  have l: "length (addr_bytes a) = 24" "length (addr_bytes zero_sockaddr) = 24"
    using assms(1) by (simp_all add: exact_addr_def length_addr_bytes)
  have "take n (addr_bytes a) @ drop n (addr_bytes zero_sockaddr) = addr_bytes a"
  proof (cases "sa_fam a = Inet")
    case True
    then have n: "n = 16" "sa_in6 a = replicate 16 0" using assms by (auto simp: exact_addr_def socket_length_def)
    have d: "drop 16 (addr_bytes a) = drop 8 (sa_in6 a)" "drop 16 (addr_bytes zero_sockaddr) = drop 8 (sa_in6 zero_sockaddr)"
      by (simp_all add: addr_bytes_def)
    have "drop 16 (addr_bytes zero_sockaddr) = drop 16 (addr_bytes a)"
      unfolding d n(2) by (simp add: zero_sockaddr_def)
    then show ?thesis by (simp add: n(1))
  next
    case False
    then have "n = 28" using assms by (auto simp: exact_addr_def socket_length_def)
    then show ?thesis using l by simp
  qed
  then show ?thesis
    using assms(1) by (simp add: memcpy_addr_def bytes_addr_inverse exact_addr_def) (auto intro!: bytes_addr_inverse)
qed

text \<open>The names that the wrapper gives itself.\<close>

lemma plain_exact [simp]:
  "exact_addr (zero_sockaddr\<lparr>sa_fam := Inet, sa_in := x, sa_port := q\<rparr>)"
  "length b = 16 \<Longrightarrow> exact_addr (zero_sockaddr\<lparr>sa_fam := Inet6, sa_in6 := b, sa_port := q\<rparr>)"
  by (simp_all add: exact_addr_def addr_ok_def zero_sockaddr_def)

lemma from_un_exact:
  assumes "sockaddr_convert_from_un si un n fam room = Inr (Some a, len)"
  shows "exact_addr a" "len = socket_length (sa_fam a)"
  using assms
  by (auto simp: sockaddr_convert_from_un_def convert_un_in_def zero_sockaddr_def exact_addr_def addr_ok_def
      split: if_splits option.splits sum.splits)

section \<open>Automatic names\<close>

text \<open>The address of a port on an interface, as the wrapper writes it.\<close>

definition own_addr :: "sa_family \<Rightarrow> nat \<Rightarrow> nat \<Rightarrow> sockaddr" where
  "own_addr fam iface prt = (if fam = Inet
     then zero_sockaddr\<lparr>sa_fam := Inet, sa_in := 0x7F000000 OR of_nat iface, sa_port := of_nat prt\<rparr>
     else zero_sockaddr\<lparr>sa_fam := Inet6, sa_in6 := swrap_ipv6[15 := of_nat iface], sa_port := of_nat prt\<rparr>)"

lemma own_addr_exact: "exact_addr (own_addr fam iface prt)"
  by (simp add: own_addr_def)

lemma own_addr_fam: "fam = Inet \<or> fam = Inet6 \<Longrightarrow> sa_fam (own_addr fam iface prt) = fam"
  by (auto simp: own_addr_def)

lemma read_back:
  assumes "dir_ok dir" "1 \<le> iface" "iface \<le> MAX_WRAPPED_INTERFACES" "prt < 65536" "fam = Inet \<or> fam = Inet6"
    and "sotype si = Stream \<or> sotype si = Dgram" "st = Stream \<or> st = Dgram" "n \<noteq> 0" "socket_length fam \<le> room"
  shows "sockaddr_convert_from_un si (sun_path dir (socket_format (type_letter fam st) iface prt)) n fam room
    = Inr (Some (own_addr fam iface prt), socket_length fam)"
proof -
  have "iface < 256" using assms(3) by (simp add: MAX_WRAPPED_INTERFACES_def)
  then have "format_ok (type_letter fam st, iface, prt)"
    using assms(4) type_letter_slash by (simp add: format_ok_def)
  then have "scan_format (last_component (sun_path dir (socket_format (type_letter fam st) iface prt)))
      = Some (type_letter fam st, iface, prt)"
    using path.decode [of dir "(type_letter fam st, iface, prt)"] assms(1) by simp
  then show ?thesis
    using assms by (auto simp: sockaddr_convert_from_un_def convert_un_in_def own_addr_def type_letter_def type_chars)
qed

lemma auto_bind_name_value:
  assumes "auto_bind_name e fam si = Inr (t, sj)"
  shows "myname sj = \<lparr>sa_socklen = socket_length fam, sa = own_addr fam (socket_wrapper_default_iface (l_getenv e)) 0\<rparr>"
proof -
  have z: "zero_sockaddr\<lparr>sa_fam := Inet, sa_in := x, sa_port := 0\<rparr> = zero_sockaddr\<lparr>sa_fam := Inet, sa_in := x\<rparr>"
    "zero_sockaddr\<lparr>sa_fam := Inet6, sa_in6 := b, sa_port := 0\<rparr> = zero_sockaddr\<lparr>sa_fam := Inet6, sa_in6 := b\<rparr>" for x b
    by (simp_all add: zero_sockaddr_def)
  consider "fam = Inet" | "fam = Inet6" using auto_bind_name_eq(1) [OF assms] by blast
  then show ?thesis
  proof cases
    case 1
    then show ?thesis using assms by (cases "sotype si") (auto simp: auto_bind_name_def own_addr_def z)
  next
    case 2
    then show ?thesis
      using assms by (cases "sotype si") (auto simp: auto_bind_name_def own_addr_def z split: if_splits)
  qed
qed

lemma set_port_own: "fam = Inet \<or> fam = Inet6 \<Longrightarrow>
  set_port fam prt \<lparr>sa_socklen = n, sa = own_addr fam iface 0\<rparr> = \<lparr>sa_socklen = n, sa = own_addr fam iface prt\<rparr>"
  by (auto simp: set_port_def own_addr_def)

text \<open>What a socket that was bound automatically is called, and where it is.\<close>

lemma auto_bound:
  assumes "swrap_auto_bind e fam (start, si) = (Inr u, start', si')" "start_ok start"
  shows "\<exists>prt. 10000 \<le> prt \<and> prt \<le> 61023
    \<and> un_addr si' = sun_path (dir_of e) (socket_format (type_letter fam (sotype si)) (socket_wrapper_default_iface (l_getenv e)) prt)
    \<and> myname si' = \<lparr>sa_socklen = socket_length fam, sa = own_addr fam (socket_wrapper_default_iface (l_getenv e)) prt\<rparr>
    \<and> (fam = Inet \<or> fam = Inet6) \<and> (sotype si = Stream \<or> sotype si = Dgram) \<and> sotype si' = sotype si \<and> family si' = fam"
  using assms(1)
proof (cases rule: auto_bind_cases)
  case (given t sj s i)
  note n = auto_bind_name_eq [OF given(1)]
  have i: "i < 1024" by (rule search_small [OF given(3)])
  have s: "10000 \<le> s" "s \<le> 60000" using autobind_range [OF assms(2), of e] given(2) by simp_all
  have "sotype sj = sotype si" using n(3) by (metis socket_info.select_convs(2) socket_info.surjective socket_info.update_convs(13))
  then show ?thesis
    using n s i given(7) auto_bind_name_value [OF given(1)]
    by (intro exI [of _ "nat s + i"]) (auto simp: autobind_path_def set_port_own)
qed simp_all

section \<open>Properties\<close>

text \<open>
  (C19) A socket that is used before it was bound gets the lowest free port of the 1024 from the
  current start on, and \<open>ENFILE\<close> exactly if there is none; the port lies between 10000 and 61023
  and becomes the port of its name, its path exists nowhere else, and the next search starts
  behind it.
\<close>

theorem auto_bind_port:
  assumes "swrap_auto_bind e fam (start, si) = (r, start', si')" "start_ok start"
    and "fam = Inet \<or> fam = Inet6 \<and> family si = Inet6" "sotype si = Stream \<or> sotype si = Dgram"
    and "s = autobind_wrap (autobind_init e start)"
    and "path = (\<lambda>i. sun_path (dir_of e)
          (socket_format (type_letter fam (sotype si)) (socket_wrapper_default_iface (l_getenv e)) (nat s + i)))"
  shows "if \<forall>i < SOCKET_MAX_SOCKETS. l_stat e (path i) then r = Inl ENFILE
    else \<exists>i < SOCKET_MAX_SOCKETS. (\<forall>j < i. l_stat e (path j)) \<and> \<not> l_stat e (path i)
      \<and> (case l_bind e (path i) of
           Inl err \<Rightarrow> r = Inl err
         | Inr _ \<Rightarrow> r = Inr () \<and> un_addr si' = path i \<and> 10000 \<le> nat s + i \<and> nat s + i \<le> 61023
             \<and> unat (sa_port (sa (myname si'))) = nat s + i \<and> start' = Some (s + int i + 1))"
proof -
  obtain t sj where n: "auto_bind_name e fam si = Inr (t, sj)"
    using assms(3,4) by (auto simp: auto_bind_name_def)
  note t = auto_bind_name_eq(5) [OF n]
  have p: "autobind_path e t s = path" using assms(6) t by (simp add: autobind_path_def fun_eq_iff)
  have s: "10000 \<le> s" "s \<le> 60000" using autobind_range [OF assms(2), of e] assms(5) by simp_all
  have search: "autobind_search e t s = List.find (\<lambda>i. \<not> l_stat e (path i)) [0..<SOCKET_MAX_SOCKETS]"
    by (simp add: autobind_search_def p)
  show ?thesis
  proof (cases "autobind_search e t s")
    case None
    then have "\<forall>i < SOCKET_MAX_SOCKETS. l_stat e (path i)"
      unfolding search find_None_iff by auto
    moreover have "r = Inl ENFILE"
      using assms(1) n None assms(5) by (simp add: swrap_auto_bind_def Let_def)
    ultimately show ?thesis by simp
  next
    case (Some i)
    then have i: "i < SOCKET_MAX_SOCKETS" "\<not> l_stat e (path i)" "\<forall>j < i. l_stat e (path j)"
      unfolding search find_Some_iff by (auto simp: SOCKET_MAX_SOCKETS_def)
    have "case l_bind e (path i) of
           Inl err \<Rightarrow> r = Inl err
         | Inr _ \<Rightarrow> r = Inr () \<and> un_addr si' = path i \<and> 10000 \<le> nat s + i \<and> nat s + i \<le> 61023
             \<and> unat (sa_port (sa (myname si'))) = nat s + i \<and> start' = Some (s + int i + 1)"
    proof (cases "l_bind e (path i)")
      case (Inl err)
      then have "r = Inl err" using assms(1,5) n Some p by (simp add: swrap_auto_bind_def Let_def)
      then show ?thesis by (simp add: Inl)
    next
      case (Inr u)
      then have q: "r = Inr ()" "start' = Some (int (nat s + i) + 1)"
          "si' = sj\<lparr>un_addr := path i, bound := True, family := fam, myname := set_port fam (nat s + i) (myname sj)\<rparr>"
        using assms(1,5) n Some p by (auto simp: swrap_auto_bind_def Let_def)
      have small: "nat s + i < 65536" using i s by (simp add: SOCKET_MAX_SOCKETS_def)
      then have "unat (of_nat (nat s + i) :: u16) = nat s + i"
        by (simp add: unsigned_of_nat take_bit_nat_eq_self del: of_nat_add)
      moreover have "sa_port (sa (myname si')) = of_nat (nat s + i)"
        using auto_bind_name_eq(1) [OF n] by (auto simp: q(3) set_port_def)
      moreover have "int (nat s + i) + 1 = s + int i + 1" using s by simp
      moreover have "10000 \<le> nat s + i" "nat s + i \<le> 61023"
        using s i(1) unfolding SOCKET_MAX_SOCKETS_def by linarith+
      ultimately show ?thesis using Inr q by simp
    qed
    then show ?thesis using i by auto
  qed
qed

theorem auto_bind_port_witness:
  "\<exists>r start' si'. swrap_auto_bind quiet Inet (None, inet_sock Stream) = (r, start', si')
    \<and> r = Inr () \<and> unat (sa_port (sa (myname si'))) = 11234 \<and> start' = Some 11235"
proof -
  obtain r start' si' where b: "swrap_auto_bind quiet Inet (None, inet_sock Stream) = (r, start', si')" by (metis prod_cases3)
  have w: "autobind_wrap (autobind_init quiet None) = 11234"
    by (simp add: autobind_wrap_def autobind_init_def quiet_def)
  have st: "l_stat quiet = (\<lambda>_. False)" "l_bind quiet = (\<lambda>_. Inr ())" by (simp_all add: quiet_def)
  have t: "(\<forall>i. \<not> i < SOCKET_MAX_SOCKETS) = False"
    by (simp add: SOCKET_MAX_SOCKETS_def) (rule exI [of _ 0], simp)
  have "sotype (inet_sock Stream) = Stream" by (simp add: inet_sock_def)
  from auto_bind_port [OF b _ _ _ refl refl] this obtain i where
    "\<forall>j < i. False" "r = Inr ()" "unat (sa_port (sa (myname si'))) = nat 11234 + i" "start' = Some (11234 + int i + 1)"
    by (auto simp: start_ok_def w st t cong: if_cong)
  then show ?thesis using b by auto
qed

section \<open>The two ends of a connection\<close>

lemma dump_on_entry:
  assumes "nat idx < nsock st"
  shows "\<exists>a b. swrap_get_socket_info idx (dump_on g os idx x t buf n st) = (swrap_get_socket_info idx st)\<lparr>pck_snd := a, pck_rcv := b\<rparr>"
    "view (dump_on g os idx x t buf n st) = view st"
proof -
  obtain si pc where d: "swrap_pcap_dump_packet g (os t) x t buf n (swrap_get_socket_info idx st, pcap st) = (si, pc)" by fastforce
  have e: "dump_on g os idx x t buf n st = (set_info idx si st)\<lparr>pcap := pc\<rparr>" by (simp add: dump_on_def d)
  show "view (dump_on g os idx x t buf n st) = view st" by (simp add: e)
  show "\<exists>a b. swrap_get_socket_info idx (dump_on g os idx x t buf n st) = (swrap_get_socket_info idx st)\<lparr>pck_snd := a, pck_rcv := b\<rparr>"
    using dump_counters [OF d] by (simp add: e get_set_info [OF assms])
qed

lemma accept_dumps_entry:
  assumes "nat idx < nsock st"
  shows "\<exists>a b. swrap_get_socket_info idx (accept_dumps e idx addr st) = (swrap_get_socket_info idx st)\<lparr>pck_snd := a, pck_rcv := b\<rparr>"
    "view (accept_dumps e idx addr st) = view st"
proof -
  have "(\<exists>a b. swrap_get_socket_info idx (accept_dumps e idx addr st) = (swrap_get_socket_info idx st)\<lparr>pck_snd := a, pck_rcv := b\<rparr>)
    \<and> view (accept_dumps e idx addr st) = view st"
  proof (cases addr)
    case None
    have "swrap_get_socket_info idx st = (swrap_get_socket_info idx st)
        \<lparr>pck_snd := pck_snd (swrap_get_socket_info idx st), pck_rcv := pck_rcv (swrap_get_socket_info idx st)\<rparr>" by simp
    then show ?thesis unfolding accept_dumps_def None option.case by blast
  next
    case (Some x)
    define d where "d = (\<lambda>t. dump_on (l_getenv e) (l_pcap e) idx x t None 0)"
    have d: "\<exists>a b. swrap_get_socket_info idx (d t s) = (swrap_get_socket_info idx s)\<lparr>pck_snd := a, pck_rcv := b\<rparr>"
      "view (d t s) = view s" "nat idx < nsock (d t s)" if "nat idx < nsock s" for t s
      using dump_on_entry [OF that] that by (simp_all add: d_def)
    have "accept_dumps e idx addr st = d SWRAP_ACCEPT_ACK (d SWRAP_ACCEPT_RECV (d SWRAP_ACCEPT_SEND st))"
      by (simp add: accept_dumps_def Some d_def)
    then show ?thesis
      using assms d(1) [OF assms, of SWRAP_ACCEPT_SEND] d(1) [of "d SWRAP_ACCEPT_SEND st" SWRAP_ACCEPT_RECV]
        d(1) [of "d SWRAP_ACCEPT_RECV (d SWRAP_ACCEPT_SEND st)" SWRAP_ACCEPT_ACK] d(2,3)
      by clarsimp blast
  qed
  then show "\<exists>a b. swrap_get_socket_info idx (accept_dumps e idx addr st) = (swrap_get_socket_info idx st)\<lparr>pck_snd := a, pck_rcv := b\<rparr>"
    "view (accept_dumps e idx addr st) = view st" by blast+
qed

lemma failed_is_error [simp]: "accept_failed e lc fd err out st \<noteq> ((Returns (Inr x), out'), st')"
  by (simp add: accept_failed_def split: prod.split)

lemma accept_success:
  assumes a: "swrap_accept e (Inr (fd, un, n)) lg lc s out st = ((Returns (Inr fd'), out'), st')"
    and ok: "pool_ok st" "view st fd = None" "view st s = Some idx" "si = swrap_get_socket_info idx st"
    and c: "sockaddr_convert_from_un si un n (family si) (socket_length (family si)) = Inr (pa, len)"
  shows "fd' = fd" "\<exists>i. view st' = (view st)(fd \<mapsto> i)
    \<and> peername (swrap_get_socket_info i st') = \<lparr>sa_socklen = len, sa = memcpy_addr len (or_zero pa) zero_sockaddr\<rparr>
    \<and> connected (swrap_get_socket_info i st') \<and> is_server (swrap_get_socket_info i st')
    \<and> family (swrap_get_socket_info i st') = family si \<and> sotype (swrap_get_socket_info i st') = sotype si"
proof -
  have i: "find_socket_info_index s st = idx" "idx \<noteq> - 1" using ok(3) by (auto simp: view_def split: if_splits)
  have f: "find_socket_info_index fd st = - 1" using ok(2) by (auto simp: view_def split: if_splits)
  let ?ch = "child_info si (or_zero pa) len"
  have not_zero: "socket_length (family si) \<noteq> 0"
    using a i ok(4) by (auto simp: swrap_accept_def Let_def split: if_splits)
  obtain out2 where own: "accept_own_name e lg lc fd ?ch out2 st = ((Returns (Inr fd'), out'), st')"
    using a not_zero i ok(4) c by (auto simp: swrap_accept_def Let_def accept_peer_name_def)
  obtain mu ml where lg: "lg = Inr (mu, ml)"
    using own by (cases lg) (auto simp: accept_own_name_def)
  obtain b m where cv: "sockaddr_convert_from_un ?ch mu ml (family ?ch) sockaddr_storage_size = Inr (b, m)"
    using own
    by (cases "sockaddr_convert_from_un ?ch mu ml (family ?ch) sockaddr_storage_size") (auto simp: accept_own_name_def lg)
  define child where "child = ?ch\<lparr>myname := \<lparr>sa_socklen = m, sa = memcpy_addr m (or_zero b) zero_sockaddr\<rparr>\<rparr>"
  have en: "accept_enter e lc fd child out2 st = ((Returns (Inr fd'), out'), st')"
    using own by (simp add: accept_own_name_def lg cv child_def)
  obtain i st1 where cr: "swrap_create_socket child fd st = (Some i, st1)"
    using en
    by (cases "swrap_create_socket child fd st"; cases "fst (swrap_create_socket child fd st)")
      (auto simp: accept_enter_def split: if_splits)
  have st': "fd' = fd" "st' = accept_dumps e i (fst out2) st1"
    using en by (auto simp: accept_enter_def cr)
  show "fd' = fd" by (rule st')
  note v = create_view [OF ok(1,2) cr]
  have "nat i < nsock st1"
    using create_socket_spec [OF ok(1) f, of child] cr by (simp add: enters_def)
  note d = accept_dumps_entry [OF this, of e "fst out2"]
  obtain x y where "swrap_get_socket_info i st' = child\<lparr>pck_snd := x, pck_rcv := y\<rparr>"
    using d(1) v(3) st'(2) by auto
  then show "\<exists>i. view st' = (view st)(fd \<mapsto> i)
    \<and> peername (swrap_get_socket_info i st') = \<lparr>sa_socklen = len, sa = memcpy_addr len (or_zero pa) zero_sockaddr\<rparr>
    \<and> connected (swrap_get_socket_info i st') \<and> is_server (swrap_get_socket_info i st')
    \<and> family (swrap_get_socket_info i st') = family si \<and> sotype (swrap_get_socket_info i st') = sotype si"
    using v(1) d(2) st'(2) by (intro exI [of _ i]) (simp add: child_def child_info_def)
qed

lemma getpeername_at:
  assumes "view st fd = Some i" "peername (swrap_get_socket_info i st) = \<lparr>sa_socklen = n, sa = a\<rparr>"
    "n \<noteq> 0" "n \<le> room" "memcpy_addr n a z = a"
  shows "swrap_getpeername fd (z, room) st = Returns (Inr (a, n))"
  using assms by (auto simp: swrap_getpeername_def view_def copy_name_def split: if_splits)

lemma getsockname_at:
  assumes "view st fd = Some i" "myname (swrap_get_socket_info i st) = \<lparr>sa_socklen = n, sa = a\<rparr>"
    "n \<noteq> 0" "n \<le> room" "memcpy_addr n a z = a"
  shows "swrap_getsockname fd (z, room) st = Returns (Inr (a, n))"
  using assms by (auto simp: swrap_getsockname_def view_def copy_name_def split: if_splits)

text \<open>
  (C15) The server sees the client by the client's own name: if a client's socket was bound
  automatically and the Unix socket that accept returns has the client's path, getpeername on the
  accepted descriptor gives the address, port and length of the client's name.
\<close>

theorem accept_sees_client:
  assumes "library_run p" "view (tab p) s = Some idx" "view (tab p) fd = None"
    and "swrap_auto_bind e fam (start, si) = (Inr u, start', client)" "start_ok start" "dir_ok (dir_of e)"
    and "family (swrap_get_socket_info idx (tab p)) = fam" "n \<noteq> 0"
    and "swrap_accept e' (Inr (fd, un_addr client, n)) lg lc s out (tab p) = ((Returns (Inr fd'), out'), st)"
  shows "swrap_getpeername fd' (zero_sockaddr, sockaddr_storage_size) st
    = Returns (Inr (sa (myname client), sa_socklen (myname client)))"
proof -
  let ?par = "swrap_get_socket_info idx (tab p)"
  let ?if = "socket_wrapper_default_iface (l_getenv e)"
  obtain prt where b: "prt \<le> 61023"
      "un_addr client = sun_path (dir_of e) (socket_format (type_letter fam (sotype si)) ?if prt)"
      "myname client = \<lparr>sa_socklen = socket_length fam, sa = own_addr fam ?if prt\<rparr>"
      "fam = Inet \<or> fam = Inet6" "sotype si = Stream \<or> sotype si = Dgram"
    using auto_bound [OF assms(4,5)] by blast
  have ty: "sotype ?par = Stream \<or> sotype ?par = Dgram"
    using run_entry [OF assms(1,2)] by (simp add: entry_ok_def)
  have "sockaddr_convert_from_un ?par (un_addr client) n fam (socket_length fam)
      = Inr (Some (own_addr fam ?if prt), socket_length fam)"
    unfolding b(2) using b default_iface_range assms(6,8) ty by (intro read_back) auto
  then have c: "sockaddr_convert_from_un ?par (un_addr client) n (family ?par) (socket_length (family ?par))
      = Inr (Some (own_addr fam ?if prt), socket_length fam)" by (simp add: assms(7))
  have m: "memcpy_addr (socket_length fam) (own_addr fam ?if prt) zero_sockaddr = own_addr fam ?if prt"
    using own_addr_exact own_addr_fam [OF b(4)] by (intro memcpy_exact) simp_all
  note ac = accept_success [OF assms(9) run_pool [OF assms(1)] assms(3,2) refl c]
  obtain i where i: "view st fd' = Some i"
      "peername (swrap_get_socket_info i st) = \<lparr>sa_socklen = socket_length fam, sa = own_addr fam ?if prt\<rparr>"
    using ac by (auto simp: or_zero_def m)
  have "socket_length fam \<noteq> 0" using b(4) by (auto simp: socket_length_def)
  from getpeername_at [OF i this socket_length_storage m] show ?thesis by (simp add: b(3))
qed

lemma create_again:
  assumes ok: "pool_ok st" and c: "swrap_create_socket si fd st = (Some i, st')"
  shows "view st' = (view st)(fd \<mapsto> i)" "refc st' = (refc st)(nat i := 1)" "refc st (nat i) = 0" "nsock st' = nsock st" "0 \<le> i"
    "nat i < nsock st"
proof -
  have f: "0 \<le> fd" "fd < int SOCKET_FDS_MAX" and ff: "first_free st \<noteq> - 1"
    using c by (auto simp: swrap_create_socket_def swrap_add_socket_info_def split: if_splits)
  obtain st1 where a: "swrap_add_socket_info (Some si) st = (Inr (first_free st), st1)" "nsock st1 = nsock st"
      "fds_idx st1 = fds_idx st" "refc st1 = (refc st)(nat (first_free st) := 1)" "pool_inv {} ((\<lambda>_. 0)(nat (first_free st) := 1)) st1"
    using add_inv [OF ok ff, of si] by blast
  have t: "0 \<le> first_free st" "nat (first_free st) < nsock st" "refc st (nat (first_free st)) = 0"
    using take_inv [OF ok ff refl] by blast+
  have st': "i = first_free st" "st' = st1\<lparr>fds_idx := (fds_idx st)(nat fd := i)\<rparr>"
    using c f a by (auto simp: swrap_create_socket_def set_socket_info_index_def)
  have r: "ready st" "ready st1" using ok a(5) by (simp_all add: pool_inv_def)
  show "view st' = (view st)(fd \<mapsto> i)"
  proof
    fix g
    show "view st' g = ((view st)(fd \<mapsto> i)) g"
      using f r t(1) a(3) st' by (cases "g = fd") (auto simp: view_def find_socket_info_index_def nat_eq_iff)
  qed
  show "refc st' = (refc st)(nat i := 1)" "nsock st' = nsock st" "refc st (nat i) = 0" "0 \<le> i" "nat i < nsock st"
    using st' a t by (simp_all add: refc_def fun_eq_iff nsock_def)
qed

lemma accept_result:
  assumes a: "swrap_accept e (Inr (fd, un, n)) lg lc s out st = ((Returns (Inr fd'), out'), st')"
    and v: "view st s = Some idx"
  shows "\<exists>child i st1 a. fd' = fd \<and> swrap_create_socket child fd st = (Some i, st1) \<and> st' = accept_dumps e i a st1"
proof -
  have i: "find_socket_info_index s st = idx" "idx \<noteq> - 1" using v by (auto simp: view_def split: if_splits)
  define si where "si = swrap_get_socket_info idx st"
  have "accept_peer_name e lg lc si (fd, un, n) out st = ((Returns (Inr fd'), out'), st')"
    using a i by (auto simp: swrap_accept_def Let_def si_def split: if_splits)
  then obtain ch out1 where "accept_own_name e lg lc fd ch out1 st = ((Returns (Inr fd'), out'), st')"
    by (auto simp: accept_peer_name_def split: sum.splits prod.splits)
  then obtain ch out2 where "accept_enter e lc fd ch out2 st = ((Returns (Inr fd'), out'), st')"
    by (auto simp: accept_own_name_def split: sum.splits prod.splits)
  then show ?thesis
    by (auto simp: accept_enter_def split: prod.splits option.splits)
qed

text \<open>
  (C23) accept does not look for a stale entry of the descriptor it returns, as socket does: if the
  descriptor is still in the table, as the only one of its entry, that entry keeps its reference
  although no descriptor leads to it any more, and its path is not unlinked.
\<close>

theorem accept_leaks_stale_entry:
  assumes "library_run p" "view (tab p) s = Some idx" "view (tab p) fd = Some old" "s \<noteq> fd"
    and "\<forall>g. g \<noteq> fd \<longrightarrow> view (tab p) g \<noteq> Some old"
    and "swrap_accept e (Inr (fd, un, n)) lg lc s out (tab p) = ((Returns (Inr fd'), out'), st)"
  shows "(\<forall>g. view st g \<noteq> Some old) \<and> refc st (nat old) \<noteq> 0 \<and> unlinked st = unlinked (tab p)"
proof -
  note ok = run_pool [OF assms(1)]
  obtain ch i st1 a where c: "swrap_create_socket ch fd (tab p) = (Some i, st1)" "st = accept_dumps e i a st1"
    using accept_result [OF assms(6,2)] by blast
  note n = create_again [OF ok c(1)]
  have o: "0 \<le> old" "refc (tab p) (nat old) \<noteq> 0" using view_live [OF ok assms(3)] by blast+
  then have ne: "nat i \<noteq> nat old" using n(3) by auto
  have n1: "nat i < nsock st1" using n by simp
  have same: "same_table st1 st"
  proof -
    have d: "same_table s (dump_on g os i x t b m s)" if "nat i < nsock s" for s g os x t b m
      by (rule dump_same_table [OF that])
    have d3: "same_table st1 (dump_on g os i x t b m (dump_on g os i x t' b m (dump_on g os i x t'' b m st1)))"
      for g os x t t' t'' b m
      using n1 by (intro same_table_trans [OF same_table_trans [OF d d] d]) simp_all
    show ?thesis by (cases a) (simp_all add: c(2) accept_dumps_def same_table_refl d3)
  qed
  have "view st = (view (tab p))(fd \<mapsto> i)"
    using accept_dumps_entry(2) [OF n1, of e a] n(1) by (simp add: c(2))
  moreover have "refc st (nat old) = refc (tab p) (nat old)"
    using same n(2) ne by (simp add: same_table_def)
  moreover have "unlinked st1 = unlinked (tab p)"
    using c(1)
    by (auto simp: swrap_create_socket_def swrap_add_socket_info_def set_socket_info_index_def Let_def swrap_inc_refcount_def
        set_info_def upd_container_def split: if_splits)
  ultimately show ?thesis
    using o ne assms(5) same by (auto simp: same_table_def)
qed

text \<open>An accept that succeeds.\<close>

lemma create_some:
  assumes ok: "pool_ok st" and "0 \<le> fd" "fd < int SOCKET_FDS_MAX" "i < nsock st" "refc st i = 0"
  shows "\<exists>j st'. swrap_create_socket si fd st = (Some j, st')"
proof -
  have "first_free st \<noteq> - 1" using full_pool [OF ok] assms(4,5) by auto
  from add_inv [OF ok this, of si] obtain st1 where "swrap_add_socket_info (Some si) st = (Inr (first_free st), st1)"
    by blast
  then show ?thesis using assms(2,3) by (simp add: swrap_create_socket_def set_socket_info_index_def)
qed

definition client_path :: string where
  "client_path = sun_path ''d'' (socket_format (type_letter Inet Stream) 1 11234)"

lemma d_ok: "dir_ok ''d''"
  by (simp add: dir_ok_def SUN_PATH_def)

lemma accept_quiet:
  assumes r: "library_run p" "view (tab p) s = Some idx" "swrap_get_socket_info idx (tab p) = new_socket_info Inet Stream 0"
    and "0 \<le> fd" "fd < int SOCKET_FDS_MAX" "i < nsock (tab p)" "refc (tab p) i = 0"
  shows "\<exists>out' st. swrap_accept quiet (Inr (fd, client_path, 110)) (Inr (client_path, 110)) (Inr ()) s (None, None) (tab p)
    = ((Returns (Inr fd), out'), st)"
proof -
  have i: "find_socket_info_index s (tab p) = idx" "idx \<noteq> - 1" using entry_at [OF r(1,2)] by simp_all
  let ?si = "new_socket_info Inet Stream 0"
  have c: "sockaddr_convert_from_un si client_path 110 Inet room = Inr (Some (own_addr Inet 1 11234), socket_length Inet)"
    if "sotype si = Stream" "socket_length Inet \<le> room" for si room
    unfolding client_path_def using that d_ok by (intro read_back) (simp_all add: MAX_WRAPPED_INTERFACES_def)
  have f: "family ?si = Inet" "sotype ?si = Stream" by (simp_all add: new_socket_info_def)
  obtain j st' where cr: "swrap_create_socket ((child_info ?si (own_addr Inet 1 11234) (socket_length Inet))\<lparr>myname :=
      \<lparr>sa_socklen = socket_length Inet, sa = memcpy_addr (socket_length Inet) (own_addr Inet 1 11234) zero_sockaddr\<rparr>\<rparr>) fd (tab p) = (Some j, st')"
    using create_some [OF run_pool [OF r(1)] assms(4-7)] by blast
  have k: "family (child_info ?si a n) = Inet" "sotype (child_info ?si a n) = Stream" for a n
    by (simp_all add: child_info_def f)
  have "socket_length Inet \<noteq> 0" by (simp add: socket_length_def)
  then have "swrap_accept quiet (Inr (fd, client_path, 110)) (Inr (client_path, 110)) (Inr ()) s (None, None) (tab p)
    = ((Returns (Inr fd), None, None), accept_dumps quiet j None st')"
    using i f by (simp add: swrap_accept_def r(3) accept_peer_name_def c accept_own_name_def k accept_enter_def or_zero_def cr
        del: One_nat_def)
  then show ?thesis by blast
qed

text \<open>A socket that is bound automatically where nothing fails.\<close>

lemma auto_bind_quiet:
  assumes "st = Stream \<or> st = Dgram"
  shows "\<exists>si. swrap_auto_bind quiet Inet (None, inet_sock st) = (Inr (), Some 11235, si)
    \<and> un_addr si = sun_path ''d'' (socket_format (type_letter Inet st) 1 11234)
    \<and> myname si = \<lparr>sa_socklen = 16, sa = own_addr Inet 1 11234\<rparr>"
proof -
  obtain t sj where n: "auto_bind_name quiet Inet (inet_sock st) = Inr (t, sj)"
    using assms by (auto simp: auto_bind_name_def inet_sock_def)
  have t: "t = type_letter Inet st" using auto_bind_name_eq(5) [OF n] by (simp add: inet_sock_def)
  have w: "autobind_wrap (autobind_init quiet None) = 11234"
    by (simp add: autobind_wrap_def autobind_init_def quiet_def)
  have q: "l_bind quiet x = Inr ()" for x by (simp add: quiet_def)
  define si where "si = sj\<lparr>un_addr := autobind_path quiet t 11234 0, bound := True, family := Inet,
        myname := set_port Inet 11234 (myname sj)\<rparr>"
  have "swrap_auto_bind quiet Inet (None, inet_sock st) = (Inr (), Some 11235, si)"
    using n by (simp add: swrap_auto_bind_def w q si_def)
  moreover have "myname si = \<lparr>sa_socklen = 16, sa = own_addr Inet 1 11234\<rparr>"
    using auto_bind_name_value [OF n] by (simp add: si_def set_port_own) (simp add: socket_length_def)
  moreover have "un_addr si = sun_path ''d'' (socket_format (type_letter Inet st) 1 11234)"
    by (simp add: si_def autobind_path_def t)
  ultimately show ?thesis by blast
qed

theorem accept_sees_client_witness:
  "\<exists>(p :: proc) out' st. swrap_accept quiet (Inr (4, client_path, 110)) (Inr (client_path, 110)) (Inr ()) 3 (None, None) (tab p)
      = ((Returns (Inr 4), out'), st)
    \<and> swrap_getpeername 4 (zero_sockaddr, sockaddr_storage_size) st = Returns (Inr (own_addr Inet 1 11234, 16))"
proof -
  obtain p idx where p: "library_run p" "view (tab p) = [3 \<mapsto> idx]" "nsock (tab p) = 65535"
      "swrap_get_socket_info idx (tab p) = new_socket_info Inet Stream 0" using tcp_socket by blast
  have v: "view (tab p) 3 = Some idx" "view (tab p) 4 = None" using p(2) by simp_all
  define i where "i = (if idx = 0 then 1 else 0 :: nat)"
  have "i < nsock (tab p)" "\<nexists>fd. view (tab p) fd = Some (int i)" using p(2,3) by (auto simp: i_def)
  then have fr: "i < nsock (tab p)" "refc (tab p) i = 0" using live_iff_view [OF run_pool [OF p(1)]] by blast+
  have m: "(0 :: int) \<le> 4" "(4 :: int) < int SOCKET_FDS_MAX" by (simp_all add: SOCKET_FDS_MAX_def SOCKET_WRAPPER_MAX_SOCKETS_LIMIT_def)
  obtain out' st where a: "swrap_accept quiet (Inr (4, client_path, 110)) (Inr (client_path, 110)) (Inr ()) 3 (None, None) (tab p)
      = ((Returns (Inr 4), out'), st)"
    using accept_quiet [OF p(1) v(1) p(4) m fr] by blast
  obtain client where b: "swrap_auto_bind quiet Inet (None, inet_sock Stream) = (Inr (), Some 11235, client)"
      "un_addr client = client_path" "myname client = \<lparr>sa_socklen = 16, sa = own_addr Inet 1 11234\<rparr>"
    using auto_bind_quiet [of Stream] by (auto simp: client_path_def)
  have so: "start_ok None" by (simp add: start_ok_def)
  have fam: "family (swrap_get_socket_info idx (tab p)) = Inet" by (simp add: p(4) new_socket_info_def)
  have "swrap_getpeername 4 (zero_sockaddr, sockaddr_storage_size) st = Returns (Inr (own_addr Inet 1 11234, 16))"
    using accept_sees_client [OF p(1) v b(1) so _ fam, unfolded b(2), OF _ _ a] d_ok by (simp add: b(3) del: One_nat_def)
  with a show ?thesis by (intro exI conjI)
qed

theorem accept_leaks_stale_entry_witness:
  "\<exists>(p :: proc) old st. view (tab p) 3 = Some old \<and> (\<forall>g. view st g \<noteq> Some old) \<and> refc st (nat old) \<noteq> 0"
proof -
  obtain p idx where p: "library_run p" "view (tab p) = [3 \<mapsto> idx]" "nsock (tab p) = 65535" using tcp_socket by blast
  define i where "i = (if idx = 0 then 1 else 0 :: nat)"
  have i: "i < nsock (tab p)" "\<forall>fd. view (tab p) fd \<noteq> Some (int i)" using p(2,3) by (auto simp: i_def)
  have m: "(0 :: int) \<le> 5" "(5 :: int) < int SOCKET_FDS_MAX" "(0 :: int) \<le> 3" "(3 :: int) < int SOCKET_FDS_MAX"
    by (simp_all add: SOCKET_FDS_MAX_def SOCKET_WRAPPER_MAX_SOCKETS_LIMIT_def)
  have v5: "view (tab p) 5 = None" using p(2) by simp
  have ty: "Stream = code_type (1 AND NOT SOCK_CLOEXEC AND NOT SOCK_NONBLOCK)" by code_simp
  have ar: "socket_args Inet Stream 0" by (simp add: socket_args_def)
  have qd: "socket_wrapper_dir (l_getenv quiet) \<noteq> None" by simp
  obtain st0 j where q: "library_run (p\<lparr>tab := st0\<rparr>)" "view st0 = (view (tab p))(5 \<mapsto> j)"
      "swrap_get_socket_info j st0 = new_socket_info Inet Stream 0" "nsock st0 = nsock (tab p)"
      "\<forall>g. view (tab p) g \<noteq> Some j"
    using new_socket [OF p(1) v5 m(1,2) i ar ty qd, where alloc = "(True, True, True)" and lw = "Inr 0"] by blast
  define p' where "p' = p\<lparr>tab := st0\<rparr>"
  have "view (tab p) 3 \<noteq> Some j" using q(5) by blast
  then have jn: "idx \<noteq> j" using p(2) by simp
  have r: "library_run p'" "view (tab p') 5 = Some j" "view (tab p') 3 = Some idx"
      "swrap_get_socket_info j (tab p') = new_socket_info Inet Stream 0" "nsock (tab p') = 65535"
      "view (tab p') = [3 \<mapsto> idx, 5 \<mapsto> j]"
    using q p by (simp_all add: p'_def)
  note ok = run_pool [OF r(1)]
  have "\<exists>k < 3. int k \<noteq> idx \<and> int k \<noteq> j" by (cases "idx = 0"; cases "j = 0"; cases "idx = 1"; cases "j = 1") (auto intro: exI [of _ 0] exI [of _ 1] exI [of _ 2])
  then obtain k where k: "k < 3" "int k \<noteq> idx" "int k \<noteq> j" by blast
  then have "\<nexists>fd. view (tab p') fd = Some (int k)" by (auto simp: r(6))
  then have fr: "k < nsock (tab p')" "refc (tab p') k = 0" using live_iff_view [OF ok, of k] k(1) r(5) by auto
  obtain out' st where a: "swrap_accept quiet (Inr (3, client_path, 110)) (Inr (client_path, 110)) (Inr ()) 5 (None, None) (tab p')
      = ((Returns (Inr 3), out'), st)"
    using accept_quiet [OF r(1,2,4) m(3,4) fr] by blast
  have o: "\<forall>g. g \<noteq> 3 \<longrightarrow> view (tab p') g \<noteq> Some idx" using jn by (simp add: r(6))
  from accept_leaks_stale_entry [OF r(1-3) _ o a] r(3) show ?thesis by (intro exI [of _ p'] exI [of _ idx] exI [of _ st]) simp
qed

text \<open>
  (C18) socket makes an entry exactly for IPv4 and IPv6, stream and datagram, and protocols 0 and 6,
  or 17 for datagrams; 6 with a datagram socket is accepted too. If the descriptor is in range and
  an entry is free after the stale one of the descriptor was dropped, it leads to a fresh entry
  with that family, type and protocol; otherwise the call fails although libc has made the descriptor,
  which nobody closes. Other families go to lwIP, every other combination fails without a change.
\<close>

theorem socket_result:
  assumes "library_run p" "socket_wrapper_dir (l_getenv e) \<noteq> None"
    and "rt = code_type (ty AND NOT SOCK_CLOEXEC AND NOT SOCK_NONBLOCK)"
    and "swrap_socket e alloc lw (Inr fd) fam ty prot (tab p) = Some (r, st)"
  shows "if fam \<in> {AF_NETLINK, AF_PACKET, Unix} then r = lw \<and> st = tab p
    else if \<not> socket_args fam rt prot then isl r \<and> st = tab p
    else if 0 \<le> fd \<and> fd < int SOCKET_FDS_MAX \<and> (\<exists>i < nsock (tab p). \<forall>g. g \<noteq> fd \<longrightarrow> view (tab p) g \<noteq> Some (int i))
    then r = Inr fd \<and> (\<exists>idx. view st = (view (tab p))(fd \<mapsto> idx) \<and> (\<forall>g. g \<noteq> fd \<longrightarrow> view (tab p) g \<noteq> Some idx)
      \<and> swrap_get_socket_info idx st = new_socket_info fam rt prot)
    else isl r \<and> view st = (view (tab p))(fd := None)"
proof -
  note ok = run_pool [OF assms(1)]
  define s where "s = swrap_remove_stale fd (tab p)"
  have s: "pool_ok s" "view s = (view (tab p))(fd := None)" using stale_laws [OF ok] by (simp_all add: s_def)
  have ns: "nsock s = nsock (tab p)" by (simp add: s_def nsock_stale)
  have "view s fd = None" by (simp add: s(2))
  then have f: "find_socket_info_index fd s = - 1" by (simp add: view_def split: if_splits)
  note eq = assms(4) [unfolded socket_wrapped [OF pool_ready [OF ok] assms(2,3)]]
  have "refc s i = 0 \<longleftrightarrow> (\<forall>g. g \<noteq> fd \<longrightarrow> view (tab p) g \<noteq> Some (int i))" if "i < nsock (tab p)" for i
    using live_iff_view [OF s(1), of i] ns s(2) that by (auto split: if_splits)
  then have free: "(\<exists>i < nsock s. refc s i = 0) \<longleftrightarrow> (\<exists>i < nsock (tab p). \<forall>g. g \<noteq> fd \<longrightarrow> view (tab p) g \<noteq> Some (int i))"
    using ns by auto
  show ?thesis
  proof (cases "fam \<in> {AF_NETLINK, AF_PACKET, Unix} \<or> \<not> socket_args fam rt prot")
    case True
    then show ?thesis using eq by (cases "fam \<in> {AF_NETLINK, AF_PACKET, Unix}") (simp_all, auto)
  next
    case False
    obtain q st1 where c: "swrap_create_socket (new_socket_info fam rt prot) fd s = (q, st1)" by fastforce
    have r: "r = (case q of None \<Rightarrow> Inl (if 0 \<le> fd \<and> fd < int SOCKET_FDS_MAX then ENFILE else l_errno e) | Some _ \<Rightarrow> Inr fd)"
      "st = st1"
      using eq False c by (simp_all add: s_def eq_commute [of _ r] split: option.splits)
    note spec = create_socket_spec [OF s(1) f, of "new_socket_info fam rt prot", unfolded c]
    show ?thesis
    proof (cases q)
      case None
      then have "st1 = s" "fd < 0 \<or> fd \<ge> int SOCKET_FDS_MAX \<or> \<not> (\<exists>i < nsock s. refc s i = 0)"
        using spec by auto
      moreover have "isl r" using r(1) None by simp
      ultimately show ?thesis using False r(2) s(2) free by auto
    next
      case (Some idx)
      then have i: "0 \<le> fd" "fd < int SOCKET_FDS_MAX" "0 \<le> idx" "nat idx < nsock s" "refc s (nat idx) = 0"
        using spec by (simp_all add: enters_def)
      have v: "view st = (view (tab p))(fd \<mapsto> idx)" "swrap_get_socket_info idx st = new_socket_info fam rt prot"
        using create_view [OF s(1) _ c [unfolded Some]] s(2) r(2) by simp_all
      have "view (tab p) g \<noteq> Some idx" if "g \<noteq> fd" for g
        using live_iff_view [OF s(1) i(4)] i(3,5) s(2) that by (auto split: if_splits)
      moreover have "\<exists>i < nsock (tab p). \<forall>g. g \<noteq> fd \<longrightarrow> view (tab p) g \<noteq> Some (int i)"
        using free i(4,5) by blast
      moreover have "r = Inr fd" using r(1) Some by simp
      ultimately show ?thesis using False v i(1,2) by auto
    qed
  qed
qed

theorem socket_result_witness:
  "\<exists>p r st idx. library_run p \<and> swrap_socket quiet (True, True, True) (Inr 9) (Inr 3) Inet 2 6 (tab p) = Some (r, st)
    \<and> r = Inr 3 \<and> swrap_get_socket_info idx st = new_socket_info Inet Dgram 6"
proof -
  obtain p where p: "library_run p" "view (tab p) = Map.empty" "nsock (tab p) = 65535" using library_start by blast
  have ty: "Dgram = code_type (2 AND NOT SOCK_CLOEXEC AND NOT SOCK_NONBLOCK)" by code_simp
  have d: "socket_wrapper_dir (l_getenv quiet) \<noteq> None" by simp
  obtain x where "swrap_socket quiet (True, True, True) (Inr 9) (Inr 3) Inet 2 6 (tab p) = Some x"
    using socket_wrapped [OF pool_ready [OF run_pool [OF p(1)]] d ty, where alloc = "(True, True, True)"] by blast
  then obtain r st where s: "swrap_socket quiet (True, True, True) (Inr 9) (Inr 3) Inet 2 6 (tab p) = Some (r, st)"
    by (cases x) simp
  have a: "socket_args Inet Dgram 6" "Inet \<notin> {AF_NETLINK, AF_PACKET, Unix}"
    by (simp_all add: socket_args_def AF_NETLINK_def AF_PACKET_def)
  have f: "(0 :: int) \<le> 3 \<and> (3 :: int) < int SOCKET_FDS_MAX \<and> (\<exists>i < nsock (tab p). \<forall>g. g \<noteq> 3 \<longrightarrow> view (tab p) g \<noteq> Some (int i))"
    using p(2,3) by (auto simp: SOCKET_FDS_MAX_def SOCKET_WRAPPER_MAX_SOCKETS_LIMIT_def intro: exI [of _ 0])
  from socket_result [OF p(1) d ty s] a f p(1) s show ?thesis by (simp only: if_True if_False simp_thms) blast
qed

text \<open>
  What setsockopt stores getsockopt returns: \<open>TCP_NODELAY\<close> takes 0 and 1 and nothing else, a refused
  call changes nothing, and family, type and protocol are reported as they were before.
\<close>

theorem options_roundtrip:
  assumes "library_run p" "view (tab p) fd = Some idx" "optlen \<ge> 4" "room \<ge> 4"
    and "swrap_setsockopt fd IPPROTO_TCP TCP_NODELAY (Some v) optlen (tab p) = (r, st)"
  shows "(if v = 0 \<or> v = 1
      then r = Returns (Inr ()) \<and> swrap_getsockopt fd IPPROTO_TCP TCP_NODELAY (Some room) st = Returns (Inr v)
      else r = Returns (Inl EINVAL) \<and> st = tab p)
    \<and> swrap_getsockopt fd SOL_SOCKET SO_DOMAIN (Some room) st = swrap_getsockopt fd SOL_SOCKET SO_DOMAIN (Some room) (tab p)
    \<and> swrap_getsockopt fd SOL_SOCKET SO_TYPE (Some room) st = swrap_getsockopt fd SOL_SOCKET SO_TYPE (Some room) (tab p)
    \<and> swrap_getsockopt fd SOL_SOCKET SO_PROTOCOL (Some room) st = swrap_getsockopt fd SOL_SOCKET SO_PROTOCOL (Some room) (tab p)"
proof -
  note i = entry_at [OF assms(1,2)]
  let ?si = "swrap_get_socket_info idx (tab p)"
  have st: "st = (if v = 0 \<or> v = 1 then set_info idx (?si\<lparr>tcp_nodelay := v\<rparr>) (tab p) else tab p)"
    "r = (if v = 0 \<or> v = 1 then Returns (Inr ()) else Returns (Inl EINVAL))"
    using assms(3,5) i by (auto simp: swrap_setsockopt_def option_codes)
  have g: "swrap_get_socket_info idx (set_info idx si (tab p)) = si" for si
    using i(3) by (simp add: swrap_get_socket_info_def set_info_def upd_container_def nsock_def)
  have "find_socket_info_index fd (set_info idx si (tab p)) = find_socket_info_index fd (tab p)" for si
    by (simp add: find_socket_info_index_def set_info_def upd_container_def)
  then show ?thesis
    using st i assms(4) by (simp add: swrap_getsockopt_def g option_codes)
qed

theorem options_roundtrip_witness:
  "\<exists>p r st. library_run p \<and> swrap_setsockopt 3 IPPROTO_TCP TCP_NODELAY (Some 1) 4 (tab p) = (r, st)
    \<and> swrap_getsockopt 3 IPPROTO_TCP TCP_NODELAY (Some 4) st = Returns (Inr 1)"
proof -
  obtain p idx where p: "library_run p" "view (tab p) = [3 \<mapsto> idx]" using tcp_socket by blast
  obtain r st where s: "swrap_setsockopt 3 IPPROTO_TCP TCP_NODELAY (Some 1) 4 (tab p) = (r, st)" by fastforce
  have "view (tab p) 3 = Some idx" using p(2) by simp
  from options_roundtrip [OF p(1) this _ _ s, of 4] p(1) s show ?thesis by auto
qed

section \<open>Connections to a bound address\<close>

text \<open>An address of one interface.\<close>

definition unicast :: "sockaddr \<Rightarrow> bool" where
  "unicast a \<longleftrightarrow> sa_fam a = Inet \<and> sa_in a AND 0xFFFFFF00 = 0x7F000000
     \<or> sa_fam a = Inet6 \<and> swrap_ipv6 = (sa_in6 a)[15 := 0]"

definition server_path :: "string \<Rightarrow> sock_type \<Rightarrow> sockaddr \<Rightarrow> string" where
  "server_path dir st a = sun_path dir (socket_format (type_letter (sa_fam a) st) (iface_of a) (unat (sa_port a)))"

lemma not_broadcast:
  assumes "(x :: u32) AND 0xFFFFFF00 = 0x7F000000"
  shows "x \<noteq> 0" "x \<noteq> 0xFFFFFFFF" "x \<noteq> 0x7FFFFFFF"
  using assms by auto

lemma not_unspecified: "swrap_ipv6 \<noteq> (replicate 16 0)[15 := 0]"
  by code_simp

lemma remote_path:
  assumes "unicast a" "sa_port a \<noteq> 0" "sotype si = Stream \<or> sotype si = Dgram"
  shows "convert_in_un_remote getenv dir si a = Inr (server_path dir (sotype si) a, 0)"
  using assms not_broadcast [of "sa_in a"]
  by (auto simp: convert_in_un_remote_def remote_target_def unicast_def server_path_def iface_of_def type_letter_def)

lemma alloc_path:
  assumes "convert_in_un_alloc getenv dir exists_path si a = (Inr (path, b), si')"
    and "unicast a" "sa_port a \<noteq> 0" "sa_fam a = family si"
  shows "path = server_path dir (sotype si) a"
proof -
  obtain t iface where t: "alloc_target getenv si a = Inr (t, iface, b)"
    using assms(1,3) by (auto simp: convert_in_un_alloc_def Let_def split: sum.splits if_splits)
  have "iface = iface_of a"
    using t assms(2,4) not_broadcast [of "sa_in a"] not_unspecified
    by (auto simp: alloc_target_def unicast_def iface_of_def Let_def split: if_splits)
  then show ?thesis
    using assms(1,3,4) t alloc_target_ok(3) [OF t]
    by (simp add: convert_in_un_alloc_def server_path_def Let_def split: if_splits)
qed

lemma bind_path:
  assumes "bind_entry e a n s = ((Returns (Inr ()), Some path), s')" "unicast a" "sa_port a \<noteq> 0" "sa_fam a = family s"
    and "entry_ok s" "addr_ok a"
  shows "path = server_path (dir_of e) (sotype s) a" "sotype s = Stream \<or> sotype s = Dgram" "n \<le> sockaddr_storage_size"
    "bound s' \<and> sotype s' = sotype s \<and> family s' = family s \<and> connected s' = connected s"
proof -
  have c: "bind_check (family s) a n = None"
    using assms(1) by (cases "bind_check (family s) a n") (simp_all add: bind_entry_def)
  show n: "n \<le> sockaddr_storage_size"
    using assms(1) c by (simp add: bind_entry_def split: if_splits)
  define s1 where "s1 = s\<lparr>myname := \<lparr>sa_socklen = n, sa = memcpy_addr n a (sa (myname s))\<rparr>\<rparr>"
  obtain r s2 where r: "sockaddr_convert_to_un (l_getenv e) (dir_of e) (l_stat e) True s1 a n = (r, s2)" by fastforce
  define s3 where "s3 = (if sotype s1 = Stream \<or> sotype s1 = Dgram
                      then s2\<lparr>bcast := stored_bcast e s1 a\<rparr> else s2)"
  have "bind_entry e a n s = (case r of
                 Inl err \<Rightarrow> ((Returns (Inl err), None), s3)
               | Inr (path, _) \<Rightarrow>
                   (case l_bind e path of
                      Inl err \<Rightarrow> ((Returns (Inl err), Some path), s3)
                    | Inr _ \<Rightarrow> ((Returns (Inr ()), Some path), s3\<lparr>bound := True\<rparr>)))"
    using c n by (simp only: bind_entry_def s1_def [symmetric] r s3_def Let_def) simp
  then obtain b where b: "r = Inr (path, b)" "s' = s3\<lparr>bound := True\<rparr>"
    using assms(1) by (auto split: sum.splits prod.splits)
  then have "convert_in_un_alloc (l_getenv e) (dir_of e) (l_stat e) s1 a = (Inr (path, b), s2)"
    and st: "sotype s = Stream \<or> sotype s = Dgram"
    using r by (auto simp: sockaddr_convert_to_un_def s1_def split: if_splits)
  from alloc_path [OF this(1) assms(2,3)] assms(4) show "path = server_path (dir_of e) (sotype s) a" by (simp add: s1_def)
  show "sotype s = Stream \<or> sotype s = Dgram" by (rule st)
  have "name_ok \<lparr>sa_socklen = n, sa = memcpy_addr n a (sa (myname s))\<rparr>"
    using assms(5,6) n by (intro name_ok_copied) (simp_all add: entry_ok_def name_ok_def)
  then have "entry_ok s1" using assms(5) by (simp add: s1_def entry_ok_def)
  from to_un_alloc_keeps [OF r this] obtain m k where "s2 = s1\<lparr>myname := m, bindname := k\<rparr>" by blast
  then show "bound s' \<and> sotype s' = sotype s \<and> family s' = family s \<and> connected s' = connected s"
    using b(2) by (simp add: s3_def s1_def)
qed

lemma unicast_converts:
  assumes "unicast a" "sa_port a \<noteq> 0" "sotype si = Stream \<or> sotype si = Dgram"
  shows "fst (sockaddr_convert_to_un getenv dir ex False si a n) = Inr (server_path dir (sotype si) a, 0)"
proof -
  have "sa_fam a = Inet \<or> sa_fam a = Inet6" using assms(1) by (auto simp: unicast_def)
  then show ?thesis using assms remote_path [OF assms] by (auto simp: sockaddr_convert_to_un_def)
qed

lemma connect_unicast:
  assumes "unicast a" "sa_port a \<noteq> 0" "family c = sa_fam a" "n \<le> sockaddr_storage_size"
  shows "sotype c = Stream \<Longrightarrow> \<exists>pc2 x y. connect_bound e a n (c, pc) =
      (case better_error (l_connect e (server_path (dir_of e) Stream a)) of
         Inl err \<Rightarrow> (Returns (Inl err), dump e a SWRAP_CONNECT_UNREACH None 0 (c\<lparr>pck_snd := x, pck_rcv := y\<rparr>, pc2))
       | Inr _ \<Rightarrow> (Returns (Inr ()), connect_done e a n (c\<lparr>pck_snd := x, pck_rcv := y\<rparr>, pc2)))"
    and "sotype c = Dgram \<Longrightarrow> connect_bound e a n (c, pc) = (Returns (Inr ()), connect_done e a n (c\<lparr>defer_connect := True\<rparr>, pc))"
proof -
  show "connect_bound e a n (c, pc) = (Returns (Inr ()), connect_done e a n (c\<lparr>defer_connect := True\<rparr>, pc))"
    if t: "sotype c = Dgram"
  proof -
    have "fst (sockaddr_convert_to_un (l_getenv e) (dir_of e) (l_stat e) False c a n) = Inr (server_path (dir_of e) Dgram a, 0)"
      using unicast_converts [OF assms(1,2), of c] t by simp
    then show ?thesis using assms(3,4) t by (simp add: connect_bound_def Let_def)
  qed
  show "\<exists>pc2 x y. connect_bound e a n (c, pc) =
      (case better_error (l_connect e (server_path (dir_of e) Stream a)) of
         Inl err \<Rightarrow> (Returns (Inl err), dump e a SWRAP_CONNECT_UNREACH None 0 (c\<lparr>pck_snd := x, pck_rcv := y\<rparr>, pc2))
       | Inr _ \<Rightarrow> (Returns (Inr ()), connect_done e a n (c\<lparr>pck_snd := x, pck_rcv := y\<rparr>, pc2)))"
    if t: "sotype c = Stream"
  proof -
    have v: "fst (sockaddr_convert_to_un (l_getenv e) (dir_of e) (l_stat e) False c a n) = Inr (server_path (dir_of e) Stream a, 0)"
      using unicast_converts [OF assms(1,2), of c] t by simp
    obtain x y pc2 where "dump e a SWRAP_CONNECT_SEND None 0 (c, pc) = (c\<lparr>pck_snd := x, pck_rcv := y\<rparr>, pc2)"
      using dump_eq by blast
    with v show ?thesis using assms(3,4) t
      by (intro exI [of _ pc2] exI [of _ x] exI [of _ y]) (simp add: connect_bound_def split: sum.split)
  qed
qed

lemma done_facts:
  assumes "connect_done e a n (c, pc) = (c', pc')"
  shows "peername c' = \<lparr>sa_socklen = n, sa = memcpy_addr n a zero_sockaddr\<rparr>" "connected c'"
    "defer_connect c' = defer_connect c" "sotype c' = sotype c" "family c' = family c" "bound c' = bound c"
    "myname c' = (if sa_socklen (bindname c) > 0 then bindname c else myname c)" "sa_socklen (bindname c') = 0"
  using assms connect_done_eq [of e a n c pc] by (auto simp: zero_address_def)


lemma bind_at:
  assumes "library_run p" "view (tab p) fd = Some idx" "swrap_bind e fd a n p = (r, p1)"
  shows "\<exists>si. bind_entry e a n (swrap_get_socket_info idx (tab p)) = (r, si) \<and> swrap_get_socket_info idx (tab p1) = si
    \<and> view (tab p1) = view (tab p)"
  using assms(3) entry_at [OF assms(1,2)]
  by (cases "bind_entry e a n (swrap_get_socket_info idx (tab p))")
    (auto simp: swrap_bind_def on_entry_def get_set_info Let_def)

lemma connect_at:
  assumes "library_run q" "view (tab q) cl = Some c" "swrap_connect e cl a n q = (r, q1)"
    and "bound (swrap_get_socket_info c (tab q))"
  shows "\<exists>pc. connect_bound e a n (swrap_get_socket_info c (tab q), pcap (tab q)) = (r, swrap_get_socket_info c (tab q1), pc)
    \<and> view (tab q1) = view (tab q)"
proof -
  obtain r0 si pc where b: "connect_bound e a n (swrap_get_socket_info c (tab q), pcap (tab q)) = (r0, si, pc)"
    by (metis prod_cases3)
  then have "connect_entry e a n (autobind_start q) (swrap_get_socket_info c (tab q), pcap (tab q))
      = ((r0, autobind_start q), si, pc)"
    using assms(4) by (simp add: connect_entry_def)
  note k = entry_call_at [where f = "connect_entry e a n", OF assms(1,2) this, folded swrap_connect_def]
  then show ?thesis using b assms(3) by auto
qed



text \<open>A socket bound to an address.\<close>

lemma bound_socket:
  assumes p: "library_run p" "view (tab p) = [3 \<mapsto> idx]" "swrap_get_socket_info idx (tab p) = new_socket_info Inet st 0"
    and st: "st = Stream \<or> st = Dgram"
  shows "\<exists>path p1. swrap_bind quiet 3 (loopback 9 53) 16 p = ((Returns (Inr ()), Some path), p1)
    \<and> library_run p1 \<and> view (tab p1) = [3 \<mapsto> idx] \<and> max_mtu p1 = max_mtu p
    \<and> bound (swrap_get_socket_info idx (tab p1)) \<and> family (swrap_get_socket_info idx (tab p1)) = Inet
    \<and> sotype (swrap_get_socket_info idx (tab p1)) = st \<and> \<not> connected (swrap_get_socket_info idx (tab p1))"
proof -
  have v: "view (tab p) 3 = Some idx" using p by simp
  let ?si = "new_socket_info Inet st 0"
  have si: "family ?si = Inet" "sotype ?si = st" "\<not> connected ?si"
    by (simp_all add: new_socket_info_def) (simp add: zero_info_def)
  have t: "\<exists>t. alloc_target g (?si\<lparr>myname := m\<rparr>) (loopback 9 53) = Inr (t, 9, 0)" for g m
    using st by (auto simp: alloc_target_def si loopback_def)
  have l: "sa_fam (loopback 9 53) = Inet" "sa_port (loopback 9 53) \<noteq> 0" by (simp_all add: loopback_def)
  have q: "l_bind quiet x = Inr ()" for x by (simp add: quiet_def)
  have c: "bind_check Inet (loopback 9 53) 16 = None" by (simp add: bind_check_def socket_length_def loopback_def)
  have "\<exists>path s'. bind_entry quiet (loopback 9 53) 16 ?si = ((Returns (Inr ()), Some path), s')"
  proof -
    define m where "m = \<lparr>sa_socklen = 16, sa = memcpy_addr 16 (loopback 9 53) (sa (myname ?si))\<rparr>"
    obtain t where "alloc_target (l_getenv quiet) (?si\<lparr>myname := m\<rparr>) (loopback 9 53) = Inr (t, 9, 0)" using t by blast
    then show ?thesis
      using c st by (auto simp: bind_entry_def si sockaddr_storage_size_def sockaddr_convert_to_un_def convert_in_un_alloc_def Let_def
          MAX_WRAPPED_INTERFACES_def q l m_def [symmetric])
  qed
  then obtain path s' where b: "bind_entry quiet (loopback 9 53) 16 ?si = ((Returns (Inr ()), Some path), s')" by blast
  obtain r p1 where c: "swrap_bind quiet 3 (loopback 9 53) 16 p = (r, p1)" by fastforce
  note a = bind_at [OF p(1) v c, unfolded p(3) b]
  have ex: "exact_addr (loopback 9 53)" by (simp add: loopback_def)
  then have ok: "addr_ok (loopback 9 53)" "unicast (loopback 9 53)" "sa_port (loopback 9 53) \<noteq> 0" "sa_fam (loopback 9 53) = family ?si"
    by (simp_all add: exact_addr_def loopback_def unicast_def si)
  note bp = bind_path [OF b ok(2-4) run_entry [OF p(1) v, unfolded p(3)] ok(1)]
  have "library_run p1"
    using run_step [OF p(1) step_bind [of "loopback 9 53" 16 p quiet 3]] ok(1) c by (simp add: sockaddr_storage_size_def)
  moreover have "max_mtu p1 = max_mtu p"
    using c by (auto simp: swrap_bind_def Let_def split: if_splits prod.splits)
  ultimately show ?thesis using p a c bp(4) si by (intro exI [of _ path] exI [of _ p1]) auto
qed

lemma udp_bound:
  "\<exists>p idx path p1. library_run p \<and> view (tab p) = [3 \<mapsto> idx]
    \<and> swrap_get_socket_info idx (tab p) = new_socket_info Inet Dgram 0
    \<and> swrap_bind quiet 3 (loopback 9 53) 16 p = ((Returns (Inr ()), Some path), p1)
    \<and> library_run p1 \<and> view (tab p1) = [3 \<mapsto> idx] \<and> max_mtu p1 = 0
    \<and> bound (swrap_get_socket_info idx (tab p1)) \<and> family (swrap_get_socket_info idx (tab p1)) = Inet
    \<and> sotype (swrap_get_socket_info idx (tab p1)) = Dgram \<and> \<not> connected (swrap_get_socket_info idx (tab p1))"
proof -
  obtain p idx where p: "library_run p" "view (tab p) = [3 \<mapsto> idx]"
      "swrap_get_socket_info idx (tab p) = new_socket_info Inet Dgram 0" "max_mtu p = 0" using udp_socket by blast
  then show ?thesis using bound_socket [OF p(1-3)] by (intro exI [of _ p] exI [of _ idx]) simp
qed

text \<open>A connected TCP socket.\<close>

lemma tcp_connected:
  "\<exists>p idx. library_run p \<and> view (tab p) = [3 \<mapsto> idx] \<and> sotype (swrap_get_socket_info idx (tab p)) = Stream
    \<and> connected (swrap_get_socket_info idx (tab p))"
proof -
  obtain p idx where p: "library_run p" "view (tab p) = [3 \<mapsto> idx]"
      "swrap_get_socket_info idx (tab p) = new_socket_info Inet Stream 0" using tcp_socket by blast
  obtain p1 where q: "library_run p1" "view (tab p1) = [3 \<mapsto> idx]"
      "bound (swrap_get_socket_info idx (tab p1))" "family (swrap_get_socket_info idx (tab p1)) = Inet"
      "sotype (swrap_get_socket_info idx (tab p1)) = Stream"
    using bound_socket [OF p] by blast
  let ?si = "swrap_get_socket_info idx (tab p1)"
  have v: "view (tab p1) 3 = Some idx" using q(2) by simp
  obtain r p2 where c: "swrap_connect quiet 3 (loopback 9 53) 16 p1 = (r, p2)" by fastforce
  obtain pc where k: "connect_bound quiet (loopback 9 53) 16 (?si, pcap (tab p1)) = (r, swrap_get_socket_info idx (tab p2), pc)"
      "view (tab p2) = view (tab p1)"
    using connect_at [OF q(1) v c q(3)] by blast
  have ex: "exact_addr (loopback 9 53)" by (simp add: loopback_def)
  have a: "unicast (loopback 9 53)" "sa_port (loopback 9 53) \<noteq> 0" "family ?si = sa_fam (loopback 9 53)" "16 \<le> sockaddr_storage_size"
    by (simp_all add: loopback_def unicast_def q(4) sockaddr_storage_size_def)
  have b: "better_error (l_connect quiet x) = Inr ()" for x by (simp add: better_error_def quiet_def)
  obtain pc2 x y where d: "connect_done quiet (loopback 9 53) 16 (?si\<lparr>pck_snd := x, pck_rcv := y\<rparr>, pc2)
      = (swrap_get_socket_info idx (tab p2), pc)"
    using connect_unicast(1) [OF a q(5), of quiet "pcap (tab p1)"] k(1) by (auto simp: b)
  have "library_run p2"
    using run_step [OF q(1) step_connect [of "loopback 9 53" 16 p1 quiet 3]] ex c a(4) by (simp add: exact_addr_def)
  then show ?thesis using done_facts(2,4) [OF d] k(2) q(2,5) by (intro exI [of _ p2] exI [of _ idx]) simp
qed


end
