(* ===== verification/Swrap_Data.thy ===== *)
theory Swrap_Data
  imports Swrap_Conn "HOL-Library.Sublist"
begin

text \<open>
  What the calls that transfer data do: how they relate to each other, what they refuse, what they
  hand to libc of a stream, to whom a broadcast goes, and what a receiver learns of the sender.
\<close>

section \<open>Streams\<close>

lemma stream_iov_parts:
  assumes "iov \<noteq> []"
  shows "prefix (concat (stream_iov mtu iov)) (concat iov)"
    "b \<in> set (stream_iov mtu iov) \<Longrightarrow> length b \<le> mtu"
    "length (hd iov) \<le> mtu \<Longrightarrow> prefix (stream_iov mtu iov) iov"
    "\<forall>b \<in> set iov. length b \<le> mtu \<Longrightarrow> stream_iov mtu iov = iov"
    "stream_iov mtu iov \<noteq> []"
    "hd (stream_iov mtu iov) = take mtu (hd iov)"
proof -
  obtain b bs where iov: "iov = b # bs" using assms by (cases iov) auto
  let ?cut = "takeWhile (\<lambda>b. length b \<le> mtu) iov"
  have p: "prefix ?cut iov" by (metis takeWhile_dropWhile_id prefixI)
  have pc: "prefix (concat ?cut) (concat iov)" by (metis concat_append prefixI takeWhile_dropWhile_id)
  have s: "stream_iov mtu iov = (if length b \<le> mtu then ?cut else [take mtu b])"
    by (auto simp: stream_iov_def iov)
  have "prefix (take mtu b) (concat iov)"
    by (simp add: iov) (metis append_take_drop_id append.assoc prefixI)
  with pc show "prefix (concat (stream_iov mtu iov)) (concat iov)" by (simp add: s)
  show "b \<in> set (stream_iov mtu iov) \<Longrightarrow> length b \<le> mtu" for b
    by (auto simp: s dest: set_takeWhileD split: if_splits)
  show "length (hd iov) \<le> mtu \<Longrightarrow> prefix (stream_iov mtu iov) iov" using p by (simp add: s) (simp add: iov)
  show "\<forall>b \<in> set iov. length b \<le> mtu \<Longrightarrow> stream_iov mtu iov = iov"
    by (simp add: s) (simp add: iov)
  show "stream_iov mtu iov \<noteq> []" "hd (stream_iov mtu iov) = take mtu (hd iov)" by (simp_all add: s) (simp_all add: iov)
qed

lemma mtu_of_run:
  assumes "library_run p" "use_mtu e p = (mtu, p')"
  shows "512 \<le> mtu" "mtu \<le> 32768"
proof -
  have m: "max_mtu p = 0 \<or> of_nat SOCKET_WRAPPER_MTU_MIN \<le> max_mtu p \<and> max_mtu p \<le> of_nat SOCKET_WRAPPER_MTU_MAX"
    using library_run_ok [OF assms(1)] by (simp add: proc_ok_def mtu_ok_def)
  have mt: "mtu = unat (socket_wrapper_mtu (l_getenv e) (max_mtu p))" using assms(2) by (auto simp: use_mtu_def Let_def)
  have "(512 :: u32) \<le> socket_wrapper_mtu (l_getenv e) (max_mtu p)" "socket_wrapper_mtu (l_getenv e) (max_mtu p) \<le> (32768 :: u32)"
    using mtu_range [OF m, of "l_getenv e"] by (simp_all add: SOCKET_WRAPPER_MTU_MIN_def SOCKET_WRAPPER_MTU_MAX_def)
  then show "512 \<le> mtu" "mtu \<le> 32768" unfolding mt word_le_nat_alt by simp_all
qed

lemma send_entry_result:
  "\<exists>st. send_entry e malloc tr s idx msg to p =
    ((Returns (case tr (s_name msg) (s_iov msg) of Inl err \<Rightarrow> Inl (if err = ENOENT then EHOSTUNREACH else err) | Inr n \<Rightarrow> Inr n),
      [(s_name msg, s_iov msg)]), p\<lparr>tab := st\<rparr>)"
  by (cases "tr (s_name msg) (s_iov msg)") (auto simp: send_entry_def swrap_sendmsg_after_def saved_errno_def Let_def)

lemma stream_before:
  assumes "sotype (swrap_get_socket_info idx (tab p)) = Stream" "connected (swrap_get_socket_info idx (tab p))"
    and "s_controllen msg = 0" "s_iov msg \<noteq> []"
  shows "swrap_sendmsg_before e ra s idx msg p =
    (Ready (msg\<lparr>s_iov := stream_iov (fst (use_mtu e p)) (s_iov msg)\<rparr>, None, 0), snd (use_mtu e p))"
  using assms by (simp add: swrap_sendmsg_before_def filter_control_def Let_def split: prod.split)

text \<open>A message without an address, whatever length is given for it.\<close>

lemma before_any_length:
  obtains (fails) err p' where "\<And>n. swrap_sendmsg_before e ra s idx ((unnamed iov)\<lparr>s_namelen := n\<rparr>) p = (Fails err, p')"
  | (no_socket) p' where "\<And>n. swrap_sendmsg_before e ra s idx ((unnamed iov)\<lparr>s_namelen := n\<rparr>) p = (NotSocket, p')"
  | (ready) iov' p' where "\<And>n. swrap_sendmsg_before e ra s idx ((unnamed iov)\<lparr>s_namelen := n\<rparr>) p
        = (Ready (\<lparr>s_name = NoName, s_namelen = n, s_iov = iov', s_control = None, s_controllen = 0\<rparr>, None, 0), p')"
proof -
  let ?si = "swrap_get_socket_info idx (tab p)"
  have f: "filter_control ra \<lparr>s_name = nm, s_namelen = n, s_iov = v, s_control = None, s_controllen = 0\<rparr> err
      = Inr \<lparr>s_name = nm, s_namelen = n, s_iov = v, s_control = None, s_controllen = 0\<rparr>" for nm n v err
    by (simp add: filter_control_def)
  note d = swrap_sendmsg_before_def dgram_target_def unnamed_def f Let_def
  show ?thesis
  proof (cases "sotype ?si")
    case Stream
    obtain m p1 where m: "use_mtu e p = (m, p1)" by fastforce
    consider "\<not> connected ?si" | "connected ?si" "iov = []" | "connected ?si" "iov \<noteq> []" by blast
    then show ?thesis
    proof cases
      case 1
      then show ?thesis using Stream by (intro fails [of ENOTCONN p]) (simp add: d)
    next
      case 2
      then show ?thesis using Stream by (intro ready [of "[]" p]) (simp add: d)
    next
      case 3
      then show ?thesis using Stream m by (intro ready [of "stream_iov m iov" p1]) (simp add: d)
    qed
  next
    case Dgram
    show ?thesis
    proof (cases "connected ?si")
      case True
      obtain b p1 where b: "ensure_bound e s idx p = (b, p1)" by fastforce
      obtain r sj where c: "deferred_connect e (swrap_get_socket_info idx (tab p1)) = (r, sj)" by fastforce
      let ?p = "p1\<lparr>tab := set_info idx sj (tab p1)\<rparr>"
      show ?thesis
      proof (cases b)
        case (Fails err)
        then show ?thesis using Dgram True b by (intro fails [of err p1]) (simp add: d)
      next
        case NotSocket
        then show ?thesis using Dgram True b by (intro no_socket [of p1]) (simp add: d)
      next
        case (Ready u)
        show ?thesis
        proof (cases r)
          case (Inl err)
          then show ?thesis using Dgram True b c Ready by (intro fails [of err ?p]) (simp add: d)
        next
          case (Inr u)
          then show ?thesis using Dgram True b c Ready by (intro ready [of iov ?p]) (simp add: d)
        qed
      qed
    next
      case False
      then show ?thesis using Dgram by (intro fails [of ENOTCONN p]) (simp add: d)
    qed
  next
    case (OtherType t)
    then show ?thesis by (intro fails [of EHOSTUNREACH p]) (simp add: d)
  qed
qed

lemma before_cases:
  obtains (fails) err p' where "\<And>n. swrap_sendmsg_before e ra s idx ((unnamed iov)\<lparr>s_namelen := n\<rparr>) p = (Fails err, p')"
      "swrap_sendmsg_before e ra s idx (unnamed iov) p = (Fails err, p')"
  | (no_socket) p' where "\<And>n. swrap_sendmsg_before e ra s idx ((unnamed iov)\<lparr>s_namelen := n\<rparr>) p = (NotSocket, p')"
      "swrap_sendmsg_before e ra s idx (unnamed iov) p = (NotSocket, p')"
  | (ready) iov' p' where "\<And>n. swrap_sendmsg_before e ra s idx ((unnamed iov)\<lparr>s_namelen := n\<rparr>) p
        = (Ready (\<lparr>s_name = NoName, s_namelen = n, s_iov = iov', s_control = None, s_controllen = 0\<rparr>, None, 0), p')"
      "swrap_sendmsg_before e ra s idx (unnamed iov) p = (Ready (unnamed iov', None, 0), p')"
proof -
  have u: "unnamed iov = (unnamed iov)\<lparr>s_namelen := 0\<rparr>" for iov by (simp add: unnamed_def)
  show ?thesis
  proof (cases rule: before_any_length [of e ra s idx iov p])
    case (fails err p')
    then show ?thesis using that(1) u by metis
  next
    case (no_socket p')
    then show ?thesis using that(2) u by metis
  next
    case (ready iov' p')
    have "unnamed iov' = \<lparr>s_name = NoName, s_namelen = 0, s_iov = iov', s_control = None, s_controllen = 0\<rparr>"
      by (simp add: unnamed_def)
    then show ?thesis using that(3) [OF ready] ready [of 0] u by metis
  qed
qed

lemma send_entry_namelen:
  "send_entry e malloc tr s idx \<lparr>s_name = NoName, s_namelen = n, s_iov = v, s_control = None, s_controllen = 0\<rparr> to p
    = send_entry e malloc tr s idx (unnamed v) to p"
  by (simp add: send_entry_def swrap_sendmsg_after_def unnamed_def Let_def)

section \<open>Properties\<close>

text \<open>
  (C28) The sending calls agree: write and send are the same call, as is sendto without an address,
  and writev and sendmsg with the same single buffer and no address, but that writev on a descriptor that
  turns out to be no socket reads. The receiving calls agree in the same way.
\<close>

theorem transfer_calls_agree:
  "swrap_write e malloc tr s buf p = swrap_send e malloc tr s buf p
   \<and> swrap_sendto e malloc tr s buf None n p = swrap_send e malloc tr s buf p
   \<and> swrap_sendmsg e malloc tr s (unnamed [buf]) p = swrap_send e malloc tr s buf p
   \<and> swrap_writev e malloc tr (Inl ENOTSOCK) s [buf] p = swrap_send e malloc tr s buf p
   \<and> (let idx = find_socket_info_index s (tab p)
      in idx \<noteq> - 1 \<and> fst (swrap_sendmsg_before e malloc s idx (unnamed [buf]) p) = NotSocket
         \<longrightarrow> fst (swrap_writev e malloc tr rv s [buf] p) = (Returns rv, []))
   \<and> swrap_readv e alloc rc s [buf] p = swrap_read e alloc rc s buf p
   \<and> (let idx = find_socket_info_index s (tab p)
      in fst (swrap_recvmsg_before e s idx (plain_recv zero_sockaddr sockaddr_storage_size [buf]) p) \<noteq> NotSocket
         \<longrightarrow> swrap_recv e alloc rc s buf p = swrap_read e alloc rc s buf p)"
proof -
  let ?idx = "find_socket_info_index s (tab p)"
  have copy: "sendmsg_copy si (unnamed [buf]) = unnamed [buf]" for si by (simp add: sendmsg_copy_def unnamed_def Let_def)
  have to: "\<lparr>s_name = NoName, s_namelen = n, s_iov = [buf], s_control = None, s_controllen = 0\<rparr> = (unnamed [buf])\<lparr>s_namelen := n\<rparr>"
    by (simp add: unnamed_def)
  have nm: "s_name (unnamed v) = NoName" "(unnamed v)\<lparr>s_name := NoName\<rparr> = unnamed v" for v by (simp_all add: unnamed_def)
  note b = before_cases [of e malloc s ?idx "[buf]" p]
  have wr: "swrap_write e malloc tr s buf p = swrap_send e malloc tr s buf p"
    by (simp add: swrap_write_def swrap_send_def)
  have sendto: "swrap_sendto e malloc tr s buf None n p = swrap_send e malloc tr s buf p"
    by (rule b) (simp_all add: swrap_sendto_def swrap_send_def to Let_def send_entry_namelen)
  have sendmsg: "swrap_sendmsg e malloc tr s (unnamed [buf]) p = swrap_send e malloc tr s buf p"
    by (rule b) (simp_all add: swrap_sendmsg_def swrap_send_def copy Let_def)
  have writev: "swrap_writev e malloc tr (Inl ENOTSOCK) s [buf] p = swrap_send e malloc tr s buf p"
    by (rule b) (simp_all add: swrap_writev_def swrap_send_def Let_def not_ready_def)
  have reads: "fst (swrap_writev e malloc tr rv s [buf] p) = (Returns rv, [])"
    if "?idx \<noteq> - 1" "fst (swrap_sendmsg_before e malloc s ?idx (unnamed [buf]) p) = NotSocket"
    using that by (rule_tac b) (simp_all add: swrap_writev_def Let_def)
  have readv: "swrap_readv e alloc rc s [buf] p = swrap_read e alloc rc s buf p"
    by (simp add: swrap_readv_def swrap_read_def)
  have recv: "swrap_recv e alloc rc s buf p = swrap_read e alloc rc s buf p"
    if "fst (swrap_recvmsg_before e s ?idx (plain_recv zero_sockaddr sockaddr_storage_size [buf]) p) \<noteq> NotSocket"
    using that
    by (cases "swrap_recvmsg_before e s ?idx (plain_recv zero_sockaddr sockaddr_storage_size [buf]) p")
      (auto simp: swrap_recv_def swrap_read_def not_ready_def Let_def split: before.split)
  show ?thesis using wr sendto sendmsg writev reads readv recv by (simp add: Let_def)
qed

theorem transfer_calls_agree_witness:
  "\<exists>p. library_run p \<and> swrap_recv quiet (\<lambda>_. None) (\<lambda>v. (Inr 0, v)) 3 [] p = swrap_read quiet (\<lambda>_. None) (\<lambda>v. (Inr 0, v)) 3 [] p"
proof -
  obtain p idx where p: "library_run p" "view (tab p) = [3 \<mapsto> idx]"
      "swrap_get_socket_info idx (tab p) = new_socket_info Inet Stream 0" using tcp_socket by blast
  then have i: "find_socket_info_index 3 (tab p) = idx" using entry_at(1) [OF p(1)] by simp
  have "fst (swrap_recvmsg_before quiet 3 idx m p) \<noteq> NotSocket" for m
    by (simp add: swrap_recvmsg_before_def p(3) new_socket_info_def) (simp add: zero_info_def)
  with transfer_calls_agree [of _ _ _ 3 _ p 0, where e = quiet and alloc = "\<lambda>_. None" and rc = "\<lambda>v. (Inr 0, v)" and buf = "[]"]
  show ?thesis using p(1) i by (intro exI [of _ p]) (simp add: Let_def)
qed

text \<open>
  On a stream socket that is not connected every transfer call fails with \<open>ENOTCONN\<close>: nothing is handed
  to libc, nothing is stored in the caller's buffers, and the process is unchanged.
\<close>

theorem unconnected_streams_refuse:
  assumes "library_run p" "view (tab p) s = Some idx"
    and "sotype (swrap_get_socket_info idx (tab p)) = Stream" "\<not> connected (swrap_get_socket_info idx (tab p))"
  shows "swrap_sendto e malloc tr s buf to n p = ((Returns (Inl ENOTCONN), []), p)
    \<and> swrap_write e malloc tr s buf p = ((Returns (Inl ENOTCONN), []), p)
    \<and> swrap_send e malloc tr s buf p = ((Returns (Inl ENOTCONN), []), p)
    \<and> swrap_writev e malloc tr rv s vec p = ((Returns (Inl ENOTCONN), []), p)
    \<and> swrap_sendmsg e malloc tr s msg p = ((Returns (Inl ENOTCONN), []), p)
    \<and> swrap_recvfrom e alloc rc sender s buf from p = ((Returns (Inl ENOTCONN), [buf], from), p)
    \<and> swrap_recv e alloc rc s buf p = ((Returns (Inl ENOTCONN), [buf]), p)
    \<and> swrap_read e alloc rc s buf p = ((Returns (Inl ENOTCONN), [buf]), p)
    \<and> swrap_readv e alloc rc s vec p = ((Returns (Inl ENOTCONN), vec), p)
    \<and> swrap_recvmsg e alloc rm un s (name, rmsg) p = ((Returns (Inl ENOTCONN), name, rmsg), p)"
proof -
  note i = entry_at [OF assms(1,2)]
  have "swrap_sendmsg_before e ra s idx m p = (Fails ENOTCONN, p)" for e ra m
    using assms(3,4) by (simp add: swrap_sendmsg_before_def)
  moreover have "swrap_recvmsg_before e s idx m p = (Fails ENOTCONN, p)" for e m
    using assms(3,4) by (simp add: swrap_recvmsg_before_def)
  ultimately show ?thesis
    using i(1,2) by (intro conjI)
      (simp_all add: swrap_sendto_def swrap_write_def swrap_send_def swrap_writev_def swrap_sendmsg_def swrap_recvfrom_def
        swrap_recv_def swrap_read_def swrap_readv_def swrap_recvmsg_def not_ready_def Let_def split: prod.split)
qed

theorem unconnected_streams_refuse_witness:
  "\<exists>p. library_run p \<and> swrap_write quiet (\<lambda>_. True) (\<lambda>_ _. Inr 0) 3 [1] p = ((Returns (Inl ENOTCONN), []), p)"
proof -
  obtain p idx where p: "library_run p" "view (tab p) = [3 \<mapsto> idx]"
      "swrap_get_socket_info idx (tab p) = new_socket_info Inet Stream 0" using tcp_socket by blast
  then have v: "view (tab p) 3 = Some idx" by simp
  have "sotype (swrap_get_socket_info idx (tab p)) = Stream" "\<not> connected (swrap_get_socket_info idx (tab p))"
    by (simp_all add: p(3) new_socket_info_def) (simp add: zero_info_def)
  from unconnected_streams_refuse [OF p(1) v this] p(1) show ?thesis by blast
qed

text \<open>
  (C20) What writev hands to libc for a connected stream is a prefix of the bytes given, in buffers that are
  within the limit, which lies between 512 and 32768: the buffers before the first one that is too long, or
  the front of that one if it is the first. If no single buffer is too long the vector is passed on
  unchanged, whatever its total length. The caller gets the result of libc.
\<close>

theorem stream_writes_cut:
  assumes "library_run p" "view (tab p) s = Some idx" "si = swrap_get_socket_info idx (tab p)"
    and "sotype si = Stream" "connected si" "vec \<noteq> []"
    and "swrap_writev e malloc tr rv s vec p = ((Returns r, msgs), p')"
  shows "\<exists>iov. msgs = [(NoName, iov)] \<and> prefix (concat iov) (concat vec)
    \<and> r = (case tr NoName iov of Inl err \<Rightarrow> Inl (if err = ENOENT then EHOSTUNREACH else err) | Inr n \<Rightarrow> Inr n)
    \<and> (let mtu = unat (max_mtu p') in 512 \<le> mtu \<and> mtu \<le> 32768 \<and> (\<forall>b \<in> set iov. length b \<le> mtu)
        \<and> hd iov = take mtu (hd vec) \<and> (length (hd vec) \<le> mtu \<longrightarrow> prefix iov vec)
        \<and> ((\<forall>b \<in> set vec. length b \<le> mtu) \<longrightarrow> iov = vec))"
proof -
  note i = entry_at [OF assms(1,2)]
  obtain mtu p1 where m: "use_mtu e p = (mtu, p1)" by fastforce
  have mt: "mtu = unat (max_mtu p1)" using m by (auto simp: use_mtu_def Let_def)
  let ?iov = "stream_iov mtu vec"
  have "swrap_sendmsg_before e malloc s idx (unnamed vec) p = (Ready ((unnamed vec)\<lparr>s_iov := ?iov\<rparr>, None, 0), p1)"
    using stream_before [of idx p "unnamed vec" e malloc s] assms(3-6) m by (simp add: unnamed_def)
  then have "swrap_writev e malloc tr rv s vec p = send_entry e malloc tr s idx ((unnamed vec)\<lparr>s_iov := ?iov\<rparr>) None p1"
    using i(1,2) by (simp add: swrap_writev_def)
  with send_entry_result [of e malloc tr s idx "(unnamed vec)\<lparr>s_iov := ?iov\<rparr>" None p1] assms(7)
  have "msgs = [(NoName, ?iov)]" "max_mtu p' = max_mtu p1"
    "r = (case tr NoName ?iov of Inl err \<Rightarrow> Inl (if err = ENOENT then EHOSTUNREACH else err) | Inr n \<Rightarrow> Inr n)"
    by (auto simp: unnamed_def)
  then show ?thesis
    using stream_iov_parts [OF assms(6), where mtu = mtu] mtu_of_run [OF assms(1) m] mt
    by (intro exI [of _ ?iov]) (simp add: Let_def)
qed


theorem stream_writes_cut_witness:
  "\<exists>p. library_run p \<and> snd (fst (swrap_writev quiet (\<lambda>_. True) (\<lambda>_ _. Inr 3) (Inr 0) 3 [[1, 2], [3]] p)) = [(NoName, [[1, 2], [3]])]"
proof -
  obtain p idx where p: "library_run p" "view (tab p) = [3 \<mapsto> idx]" "sotype (swrap_get_socket_info idx (tab p)) = Stream"
      "connected (swrap_get_socket_info idx (tab p))" using tcp_connected by blast
  then have v: "view (tab p) 3 = Some idx" by simp
  let ?w = "swrap_writev quiet (\<lambda>_. True) (\<lambda>_ _. Inr 3) (Inr 0) 3 [[1, 2], [3]] p"
  obtain r msgs p' where w: "?w = ((r, msgs), p')" by (metis prod_cases3 surj_pair)
  have "\<exists>x. r = Returns x"
    using w entry_at [OF p(1) v] stream_before [OF p(3,4), of "unnamed [[1, 2], [3]]" quiet "\<lambda>_. True" 3]
      send_entry_result [of quiet "\<lambda>_. True" "\<lambda>_ _. Inr 3" 3 idx]
    by (auto simp: swrap_writev_def unnamed_def send_entry_def split: prod.splits)
  then obtain x where x: "r = Returns x" by blast
  from stream_writes_cut [OF p(1) v refl p(3,4) _ w [unfolded x]] show ?thesis
    using p(1) w by (intro exI [of _ p]) (force simp: Let_def)
qed

text \<open>
  sendmsg passes no control data on: the call does the same with any control buffer as with none;
  and on a connected socket it does the same with any address as with none.
\<close>

theorem sendmsg_drops_control:
  "swrap_sendmsg e malloc tr s (msg\<lparr>s_control := c, s_controllen := k\<rparr>) p = swrap_sendmsg e malloc tr s msg p
   \<and> (connected (swrap_get_socket_info (find_socket_info_index s (tab p)) (tab p))
      \<longrightarrow> swrap_sendmsg e malloc tr s (msg\<lparr>s_name := nm, s_namelen := n\<rparr>) p = swrap_sendmsg e malloc tr s msg p)"
proof -
  have "sendmsg_copy si (msg\<lparr>s_control := c, s_controllen := k\<rparr>) = sendmsg_copy si msg" for si
    by (simp add: sendmsg_copy_def unnamed_def Let_def)
  moreover have "sendmsg_copy si (msg\<lparr>s_name := nm, s_namelen := n\<rparr>) = sendmsg_copy si msg" if "connected si" for si
    using that by (simp add: sendmsg_copy_def unnamed_def Let_def)
  ultimately show ?thesis by (simp add: swrap_sendmsg_def Let_def)
qed

theorem sendmsg_drops_control_witness:
  "\<exists>p. library_run p \<and> swrap_sendmsg quiet (\<lambda>_. True) (\<lambda>_ _. Inr 1) 3 ((unnamed [[1]])\<lparr>s_name := Ip (loopback 2 7), s_namelen := 16\<rparr>) p
    = swrap_sendmsg quiet (\<lambda>_. True) (\<lambda>_ _. Inr 1) 3 (unnamed [[1]]) p"
proof -
  obtain p idx where p: "library_run p" "view (tab p) = [3 \<mapsto> idx]" "connected (swrap_get_socket_info idx (tab p))"
    using tcp_connected by blast
  then have "find_socket_info_index 3 (tab p) = idx" using entry_at(1) [OF p(1)] by simp
  with sendmsg_drops_control [where e = quiet and malloc = "\<lambda>_. True" and tr = "\<lambda>_ _. Inr 1" and s = 3 and msg = "unnamed [[1]]" and p = p] p show ?thesis by auto
qed

section \<open>Broadcasts\<close>

lemma remote_broadcast:
  assumes "sa_fam a = Inet" "sa_in a = 0xFFFFFFFF \<or> sa_in a = 0x7FFFFFFF" "sa_port a \<noteq> 0" "sotype si = Dgram"
  shows "\<exists>path b. fst (sockaddr_convert_to_un getenv dir ex False si a n) = Inr (path, b) \<and> b \<noteq> 0"
  using assms by (auto simp: sockaddr_convert_to_un_def convert_in_un_remote_def remote_target_def Let_def)

lemma set_same_info: "nat idx < nsock st \<Longrightarrow> set_info idx (swrap_get_socket_info idx st) st = st"
  by (simp add: set_info_def upd_container_def swrap_get_socket_info_def nsock_def)

lemma bcast_paths_set:
  "set (bcast_paths e a) = {path. l_stat e path \<and> (\<exists>i \<le> MAX_WRAPPED_INTERFACES.
     path = sun_path (dir_of e) (socket_format (CHR ''U'') i (unat (sa_port a))))}"
proof -
  have "set [0..<MAX_WRAPPED_INTERFACES + 1] = {i. i \<le> MAX_WRAPPED_INTERFACES}" by auto
  then show ?thesis unfolding bcast_paths_def set_filter set_map by (auto simp: type_chars)
qed

lemma bcast_paths_distinct:
  assumes "dir_ok (dir_of e)"
  shows "distinct (bcast_paths e a)"
proof -
  have "inj_on (\<lambda>i. sun_path (dir_of e) (socket_format SOCKET_TYPE_CHAR_UDP i (unat (sa_port a)))) (set [0..<MAX_WRAPPED_INTERFACES + 1])"
  proof (rule inj_onI)
    fix i j
    assume "i \<in> set [0..<MAX_WRAPPED_INTERFACES + 1]" "j \<in> set [0..<MAX_WRAPPED_INTERFACES + 1]"
    then have "format_ok (SOCKET_TYPE_CHAR_UDP, i, unat (sa_port a))" "format_ok (SOCKET_TYPE_CHAR_UDP, j, unat (sa_port a))"
      by (simp_all add: format_ok_def type_chars MAX_WRAPPED_INTERFACES_def port_small)
    then show "sun_path (dir_of e) (socket_format SOCKET_TYPE_CHAR_UDP i (unat (sa_port a)))
        = sun_path (dir_of e) (socket_format SOCKET_TYPE_CHAR_UDP j (unat (sa_port a))) \<Longrightarrow> i = j"
      using path.enc_eq [of "dir_of e" "(SOCKET_TYPE_CHAR_UDP, i, unat (sa_port a))" "(SOCKET_TYPE_CHAR_UDP, j, unat (sa_port a))"]
        assms by simp
  qed
  then show ?thesis unfolding bcast_paths_def by (intro distinct_filter) (simp only: distinct_map distinct_upt simp_thms)
qed

lemma sendto_broadcast:
  assumes "library_run p" "view (tab p) s = Some idx" "si = swrap_get_socket_info idx (tab p)"
    and "sotype si = Dgram" "bound si" "\<not> connected si"
    and "sa_fam a = Inet" "sa_in a = 0xFFFFFFFF \<or> sa_in a = 0x7FFFFFFF" "sa_port a \<noteq> 0"
  shows "swrap_sendto e malloc tr s buf (Some a) n p
    = ((Returns (Inr (length buf)), map (\<lambda>path. (Path path, [buf])) (bcast_paths e a)),
       p\<lparr>tab := dump_on (l_getenv e) (l_pcap e) idx a SWRAP_SENDTO (Some buf) (length buf) (tab p)\<rparr>)"
proof -
  note i = entry_at [OF assms(1,2)]
  have d: "\<not> defer_connect si" using run_entry [OF assms(1,2)] assms(3,6) by (simp add: entry_ok_def)
  obtain path b where b: "fst (sockaddr_convert_to_un (l_getenv e) (dir_of e) (l_stat e) False si a n) = Inr (path, b)" "b \<noteq> 0"
    using remote_broadcast [OF assms(7-9,4)] by blast
  have "swrap_sendmsg_before e malloc s idx \<lparr>s_name = Ip a, s_namelen = n, s_iov = [buf], s_control = None, s_controllen = 0\<rparr> p
    = (Ready (\<lparr>s_name = Path path, s_namelen = sockaddr_un_size, s_iov = [buf], s_control = None, s_controllen = 0\<rparr>, Some a, b), p)"
    using assms(3-6) b d set_same_info [OF i(3)]
    by (simp add: swrap_sendmsg_before_def dgram_target_def ensure_bound_def deferred_connect_def filter_control_def Let_def)
  then show ?thesis using i(1,2) b(2) by (simp add: swrap_sendto_def Let_def or_zero_def)
qed

text \<open>
  (C17) A broadcast on a bound datagram socket goes exactly to the UDP sockets that exist on the port asked for,
  on any interface from 0 to \<open>MAX_WRAPPED_INTERFACES\<close>: each gets one message with the whole buffer, and the
  call returns the length of the buffer whatever becomes of the messages.
\<close>

theorem broadcast_recipients:
  assumes "library_run p" "view (tab p) s = Some idx" "si = swrap_get_socket_info idx (tab p)"
    and "sotype si = Dgram" "bound si" "\<not> connected si" "dir_ok (dir_of e)"
    and "sa_fam a = Inet" "sa_in a = 0xFFFFFFFF \<or> sa_in a = 0x7FFFFFFF" "sa_port a \<noteq> 0"
    and "swrap_sendto e malloc tr s buf (Some a) n p = ((r, msgs), p')"
  shows "r = Returns (Inr (length buf)) \<and> distinct msgs
    \<and> set msgs = {(Path path, [buf]) | path. l_stat e path \<and> (\<exists>i \<le> MAX_WRAPPED_INTERFACES.
        path = sun_path (dir_of e) (socket_format (CHR ''U'') i (unat (sa_port a))))}
    \<and> (\<forall>tr'. swrap_sendto e malloc tr' s buf (Some a) n p = ((r, msgs), p'))"
proof -
  note b = sendto_broadcast [OF assms(1-6,8-10), where e = e and buf = buf and n = n and malloc = malloc]
  have m: "r = Returns (Inr (length buf))" "msgs = map (\<lambda>path. (Path path, [buf])) (bcast_paths e a)"
    using assms(11) b by auto
  have "distinct msgs"
    using bcast_paths_distinct [OF assms(7), of a] by (simp add: m distinct_map inj_on_def)
  moreover have "set msgs = {(Path path, [buf]) | path. l_stat e path \<and> (\<exists>i \<le> MAX_WRAPPED_INTERFACES.
        path = sun_path (dir_of e) (socket_format (CHR ''U'') i (unat (sa_port a))))}"
    using bcast_paths_set [of e a] by (auto simp: m)
  ultimately show ?thesis using m(1) assms(11) b by simp
qed

lemma read_back_short:
  assumes "dir_ok dir" "1 \<le> iface" "iface \<le> MAX_WRAPPED_INTERFACES" "prt < 65536" "fam = Inet \<or> fam = Inet6"
    and "sotype si = Stream \<or> sotype si = Dgram" "st = Stream \<or> st = Dgram" "n \<noteq> 0" "room < socket_length fam"
  shows "sockaddr_convert_from_un si (sun_path dir (socket_format (type_letter fam st) iface prt)) n fam room = Inl EINVAL"
proof -
  have "iface < 256" using assms(3) by (simp add: MAX_WRAPPED_INTERFACES_def)
  then have "format_ok (type_letter fam st, iface, prt)"
    using assms(4) type_letter_slash by (simp add: format_ok_def)
  then have "scan_format (last_component (sun_path dir (socket_format (type_letter fam st) iface prt)))
      = Some (type_letter fam st, iface, prt)"
    using path.decode [of dir "(type_letter fam st, iface, prt)"] assms(1) by simp
  then show ?thesis
    using assms by (auto simp: sockaddr_convert_from_un_def convert_un_in_def type_letter_def type_chars)
qed

text \<open>
  (C16) The receiver of a datagram from an automatically bound socket learns the name of that socket if it gives
  enough room for an address of the family; with less room the call fails although the datagram was taken.
\<close>

theorem recvfrom_names_sender:
  assumes "swrap_auto_bind e fam (start, si) = (Inr u, start', sender)" "start_ok start" "dir_ok (dir_of e)" "len \<noteq> 0"
    and "library_run p" "view (tab p) s = Some idx" "rsi = swrap_get_socket_info idx (tab p)"
    and "family rsi = fam" "sotype rsi = Dgram" "bound rsi"
    and "rc [buf] = (Inr k, [data])" "alloc k = Some block"
  shows "fst (swrap_recvfrom e' alloc rc (un_addr sender, len) s buf (Some (zero_sockaddr, room)) p)
    = (if socket_length fam \<le> room then (Returns (Inr k), [data], Some (sa (myname sender), sa_socklen (myname sender)))
       else (Returns (Inl (l_errno e')), [data], Some (zero_sockaddr, room)))"
proof -
  let ?if = "socket_wrapper_default_iface (l_getenv e)"
  obtain prt where b: "prt \<le> 61023"
      "un_addr sender = sun_path (dir_of e) (socket_format (type_letter fam (sotype si)) ?if prt)"
      "myname sender = \<lparr>sa_socklen = socket_length fam, sa = own_addr fam ?if prt\<rparr>"
      "fam = Inet \<or> fam = Inet6" "sotype si = Stream \<or> sotype si = Dgram"
    using auto_bound [OF assms(1,2)] by blast
  note i = entry_at [OF assms(5,6)]
  have m: "memcpy_addr (socket_length fam) (own_addr fam ?if prt) zero_sockaddr = own_addr fam ?if prt"
    using own_addr_exact own_addr_fam [OF b(4)] by (intro memcpy_exact) simp_all
  have un: "sockaddr_convert_from_un rsi (un_addr sender) len fam room
      = (if socket_length fam \<le> room then Inr (Some (own_addr fam ?if prt), socket_length fam) else Inl EINVAL)"
    unfolding b(2) using b default_iface_range assms(3,4,9) by (auto intro!: read_back read_back_short)
  have before: "swrap_recvmsg_before e' s idx (plain_recv zero_sockaddr room [buf]) p = (Ready (plain_recv zero_sockaddr room [buf]), p)"
    using assms(7,9,10) by (simp add: swrap_recvmsg_before_def ensure_bound_def plain_recv_def)
  define msg where "msg = (plain_recv zero_sockaddr room [buf])\<lparr>r_iov := [data]\<rparr>"
  have conv: "convert_sender rsi (Some (un_addr sender, len)) msg
      = (if socket_length fam \<le> room then Some (msg\<lparr>r_name := own_addr fam ?if prt, r_namelen := socket_length fam\<rparr>) else None)"
    using un assms(8,9) by (simp add: convert_sender_def msg_def plain_recv_def m)
  have ctl: "r_controllen msg = 0" "r_iov msg = [data]" by (simp_all add: msg_def plain_recv_def)
  obtain st where after: "swrap_recvmsg_after e' alloc s idx (Some (un_addr sender, len)) (Inr k) msg (tab p)
    = ((socket_length fam \<le> room,
        if socket_length fam \<le> room then msg\<lparr>r_name := own_addr fam ?if prt, r_namelen := socket_length fam\<rparr> else msg), st)"
  proof (cases "socket_length fam \<le> room")
    case True
    then show ?thesis
      using conv ctl assms(7,12) that by (cases "data = []") (simp_all add: swrap_recvmsg_after_def drop_stale_def capture_len_def Let_def)
  next
    case False
    then show ?thesis using conv assms(7) that by (simp add: swrap_recvmsg_after_def drop_stale_def Let_def)
  qed
  have "r_iov (plain_recv zero_sockaddr room [buf]) = [buf]" "r_name msg = zero_sockaddr" by (simp_all add: plain_recv_def msg_def)
  then show ?thesis
    using i(1,2) before assms(11) after b(3)
    by (simp add: swrap_recvfrom_def msg_def [symmetric] recv_result_def saved_errno_def Let_def)
qed


theorem broadcast_recipients_witness:
  "\<exists>p p'. library_run p \<and> swrap_sendto (quiet\<lparr>l_stat := (\<lambda>x. x = sun_path ''d'' (socket_format (CHR ''U'') 9 53))\<rparr>)
      (\<lambda>_. True) (\<lambda>_ _. Inl EAGAIN) 3 [1] (Some (zero_sockaddr\<lparr>sa_fam := Inet, sa_in := 0x7FFFFFFF, sa_port := 53\<rparr>)) 16 p
    = ((Returns (Inr 1), [(Path (sun_path ''d'' (socket_format (CHR ''U'') 9 53)), [[1]])]), p')"
proof -
  obtain p idx where p: "library_run p" "view (tab p) = [3 \<mapsto> idx]" "bound (swrap_get_socket_info idx (tab p))"
    "sotype (swrap_get_socket_info idx (tab p)) = Dgram" "\<not> connected (swrap_get_socket_info idx (tab p))"
    using udp_bound by blast
  then have v: "view (tab p) 3 = Some idx" by simp
  define pth where "pth = sun_path ''d'' (socket_format (CHR ''U'') 9 53)"
  define e where "e = quiet\<lparr>l_stat := (\<lambda>x. x = pth)\<rparr>"
  let ?a = "zero_sockaddr\<lparr>sa_fam := Inet, sa_in := 0x7FFFFFFF, sa_port := 53\<rparr>"
  have "dir_of e = dir_of quiet" by (simp add: e_def dir_of_def)
  then have d: "dir_of e = ''d''" "l_stat e = (\<lambda>x. x = pth)" by simp_all (simp add: e_def)
  obtain r msgs p' where s: "swrap_sendto e (\<lambda>_. True) (\<lambda>_ _. Inl EAGAIN) 3 [1] (Some ?a) 16 p = ((r, msgs), p')"
    by (metis surj_pair)
  have "\<exists>i \<le> MAX_WRAPPED_INTERFACES. pth = sun_path ''d'' (socket_format (CHR ''U'') i 53)"
    by (rule exI [of _ 9]) (simp add: pth_def MAX_WRAPPED_INTERFACES_def)
  with broadcast_recipients [OF p(1) v refl p(4,3,5) _ _ _ _ s]
  have b: "r = Returns (Inr (length [1 :: u8]))" "distinct msgs" "set msgs = {(Path pth, [[1]])}"
    using d_ok by (auto simp: d)
  then have "msgs = [(Path pth, [[1]])]" by (cases msgs; cases "tl msgs") auto
  then show ?thesis using s p(1) b(1) unfolding e_def pth_def by auto
qed

theorem recvfrom_names_sender_witness:
  "\<exists>p. library_run p \<and> fst (swrap_recvfrom quiet (\<lambda>n. Some (replicate n 0)) (\<lambda>_. (Inr 1, [[7]]))
      (sun_path ''d'' (socket_format (CHR ''U'') 1 11234), 110) 3 [0] (Some (zero_sockaddr, 128)) p)
    = (Returns (Inr 1), [[7]], Some (own_addr Inet 1 11234, 16))"
proof -
  obtain p idx where p: "library_run p" "view (tab p) = [3 \<mapsto> idx]" "bound (swrap_get_socket_info idx (tab p))"
    "sotype (swrap_get_socket_info idx (tab p)) = Dgram" "family (swrap_get_socket_info idx (tab p)) = Inet"
    using udp_bound by blast
  then have v: "view (tab p) 3 = Some idx" by simp
  obtain sj where b: "swrap_auto_bind quiet Inet (None, inet_sock Dgram) = (Inr (), Some 11235, sj)"
      "un_addr sj = sun_path ''d'' (socket_format (CHR ''U'') 1 11234)" "myname sj = \<lparr>sa_socklen = 16, sa = own_addr Inet 1 11234\<rparr>"
    using auto_bind_quiet [of Dgram] by (auto simp: type_letter_def type_chars)
  have so: "start_ok None" by (simp add: start_ok_def)
  have "socket_length Inet \<le> 128" by (simp add: socket_length_def)
  with recvfrom_names_sender [where sender = sj and rc = "\<lambda>_. (Inr 1, [[7]])" and alloc = "\<lambda>n. Some (replicate n 0)"
      and len = 110 and buf = "[0]" and k = 1 and data = "[7]" and e' = quiet and room = 128, OF b(1) so _ _ p(1) v refl p(5,4,3)]
  show ?thesis using p(1) d_ok by (intro exI [of _ p]) (simp add: b(2,3) del: One_nat_def)
qed

end
