(* ===== verification/Swrap_Ctl.thy ===== *)
theory Swrap_Ctl
  imports Swrap_Run
begin

text \<open>Where control messages go in the receiver's buffer.\<close>

section \<open>Control messages\<close>

lemma length_write_at: "ofs + length bs \<le> length buf \<Longrightarrow> length (write_at ofs bs buf) = length buf"
  by (simp add: write_at_def)

lemma write_at_parts:
  assumes "ofs + length bs \<le> length buf"
  shows "take ofs (write_at ofs bs buf) = take ofs buf" "take (length bs) (drop ofs (write_at ofs bs buf)) = bs"
    "ofs + length bs \<le> k \<Longrightarrow> drop k (write_at ofs bs buf) = drop k buf"
  using assms by (simp_all add: write_at_def)

text \<open>Where a control message goes: nothing outside the room that is left, and all of it if there is room.\<close>

definition fits_into :: "recv_msg \<Rightarrow> recv_msg \<Rightarrow> bool" where
  "fits_into msg msg' \<longleftrightarrow> r_ofs msg' + r_controllen msg' = r_ofs msg + r_controllen msg
    \<and> (\<forall>buf. r_control msg = Some buf \<longrightarrow> r_ofs msg + r_controllen msg \<le> length buf \<longrightarrow>
        (\<exists>buf'. r_control msg' = Some buf' \<and> length buf' = length buf \<and> take (r_ofs msg) buf' = take (r_ofs msg) buf
          \<and> drop (r_ofs msg + r_controllen msg) buf' = drop (r_ofs msg + r_controllen msg) buf))"

lemma length_le64 [simp]: "length (le64 w) = 8"
  by (simp add: le64_def)

lemma add_cmsghdr_effect:
  assumes "msg' = swrap_msghdr_add_cmsghdr level ctype data msg"
  shows "fits_into msg msg'"
    "r_ctrunc msg' \<longleftrightarrow> r_ctrunc msg \<or> r_controllen msg < 16 + length data"
    "r_control msg = Some buf \<Longrightarrow> r_ofs msg + r_controllen msg \<le> length buf \<Longrightarrow> 16 + length data \<le> r_controllen msg \<Longrightarrow>
      take (16 + length data) (drop (r_ofs msg) (the (r_control msg')))
        = le64 (of_nat (16 + length data)) @ le32 (of_int level) @ le32 (of_int ctype) @ data"
proof -
  define n where "n = min (16 + length data) (r_controllen msg)"
  define cm where "cm = le64 (of_nat n) @ le32 (of_int level) @ le32 (of_int ctype) @ data"
  define sp where "sp = min (cmsg_space (length data)) (r_controllen msg)"
  have m: "r_control msg' = map_option (write_at (r_ofs msg) (take n cm)) (r_control msg)"
    "r_ofs msg' = r_ofs msg + sp" "r_controllen msg' = r_controllen msg - sp"
    "r_ctrunc msg' \<longleftrightarrow> r_ctrunc msg \<or> r_controllen msg < 16 + length data"
    unfolding assms(1) swrap_msghdr_add_cmsghdr_def Let_def cmsg_len_def sp_def n_def cm_def by auto
  have "length cm = 16 + length data" by (simp add: cm_def)
  then have l: "length (take n cm) = n" by (simp add: n_def)
  have n: "n \<le> r_controllen msg" by (simp add: n_def)
  show "fits_into msg msg'"
    unfolding fits_into_def
  proof (intro conjI allI impI)
    show "r_ofs msg' + r_controllen msg' = r_ofs msg + r_controllen msg" by (simp add: m sp_def)
    fix buf
    assume b: "r_control msg = Some buf" "r_ofs msg + r_controllen msg \<le> length buf"
    then have fit: "r_ofs msg + length (take n cm) \<le> length buf" using n l by simp
    have "r_ofs msg + length (take n cm) \<le> r_ofs msg + r_controllen msg" using n l by simp
    note parts = length_write_at [OF fit] write_at_parts(1) [OF fit] write_at_parts(3) [OF fit this]
    show "\<exists>buf'. r_control msg' = Some buf' \<and> length buf' = length buf \<and> take (r_ofs msg) buf' = take (r_ofs msg) buf
          \<and> drop (r_ofs msg + r_controllen msg) buf' = drop (r_ofs msg + r_controllen msg) buf"
      by (rule exI [of _ "write_at (r_ofs msg) (take n cm) buf"]) (simp only: m parts b option.map simp_thms)
  qed
  show "r_ctrunc msg' \<longleftrightarrow> r_ctrunc msg \<or> r_controllen msg < 16 + length data" by (rule m)
  assume b: "r_control msg = Some buf" "r_ofs msg + r_controllen msg \<le> length buf" "16 + length data \<le> r_controllen msg"
  then have "n = 16 + length data" by (simp add: n_def)
  then show "take (16 + length data) (drop (r_ofs msg) (the (r_control msg')))
        = le64 (of_nat (16 + length data)) @ le32 (of_int level) @ le32 (of_int ctype) @ data"
    using b write_at_parts(2) [of "r_ofs msg" "take n cm" buf] l by (simp add: m cm_def)
qed



end
