(* ===== verification/Swrap_Resv.thy ===== *)
theory Swrap_Resv
  imports Swrap_Conn
begin

text \<open>The search of bindresvport for a reserved port.\<close>

section \<open>Reserved ports\<close>

text \<open>The port after \<open>q\<close>, and the one tried in round \<open>i\<close> from \<open>q\<close> on.\<close>

definition next_port :: "nat \<Rightarrow> nat" where
  "next_port q = (if q > 1023 then 600 else q) + 1"

definition round_port :: "nat \<Rightarrow> nat \<Rightarrow> nat" where
  "round_port q i = (if q + i \<le> 1024 then q + i else q + i - 424)"

lemma next_round: "600 \<le> q \<Longrightarrow> q \<le> 1024 \<Longrightarrow> i < 424 \<Longrightarrow> (next_port ^^ i) q = round_port q i"
proof (induction i)
  case (Suc i)
  then have "(next_port ^^ Suc i) q = next_port (round_port q i)" by simp
  also have "\<dots> = round_port q (Suc i)" using Suc.prems by (auto simp: next_port_def round_port_def)
  finally show ?case .
qed (simp add: round_port_def)

lemma next_port_word:
  assumes "unat (port :: u16) \<le> 1024"
  shows "unat ((if port > SWRAP_ENDPORT then SWRAP_STARTPORT else port) + 1) = next_port (unat port)"
proof -
  have "port > SWRAP_ENDPORT \<longleftrightarrow> unat port > 1023" by (simp add: SWRAP_ENDPORT_def word_less_nat_alt)
  moreover have "unat (port + 1) = unat port + 1" using assms by (simp add: unat_word_ariths)
  ultimately show ?thesis by (simp add: next_port_def SWRAP_STARTPORT_def)
qed

lemma unwrapped_loop:
  assumes "find_socket_info_index sd (tab p) = - 1" "af = Inet \<or> af = Inet6"
    and "tried = (\<lambda>i. a\<lparr>sa_port := of_nat ((next_port ^^ i) (unat port)), sa_fam := af\<rparr>)"
    and "600 \<le> unat port" "unat port \<le> 1024"
    and "resv_loop e lb sd af n rc a (port, p) = ((r, a'), port', p')"
  shows "p' = p \<and> 600 \<le> unat port' \<and> unat port' \<le> 1024 \<and>
    (if \<forall>i < n. lb (tried i) = Inl EADDRINUSE
     then r = Returns (if n = 0 then rc else Inl EADDRINUSE) \<and> a' = (if n = 0 then a else tried (n - 1))
     else \<exists>i < n. (\<forall>j < i. lb (tried j) = Inl EADDRINUSE) \<and> lb (tried i) \<noteq> Inl EADDRINUSE
       \<and> r = Returns (lb (tried i)) \<and> a' = tried i)"
  using assms(3-6)
proof (induction n arbitrary: rc a port tried)
  case 0
  then show ?case by simp
next
  case (Suc n)
  define q where "q = (if port > SWRAP_ENDPORT then SWRAP_STARTPORT else port)"
  have q: "unat (q + 1) = next_port (unat port)" "600 \<le> unat q" "unat q \<le> 1024"
    using next_port_word [OF Suc.prems(3)] Suc.prems(2,3) by (auto simp: q_def SWRAP_STARTPORT_def)
  have nq: "600 \<le> next_port (unat port)" "next_port (unat port) \<le> 1024"
    using Suc.prems(2,3) by (auto simp: next_port_def)
  have t0: "tried 0 = a\<lparr>sa_port := port, sa_fam := af\<rparr>" by (simp add: Suc.prems(1))
  have b: "swrap_bind e sd x l p = ((ToLibc, None), p)" for x l by (simp add: swrap_bind_def assms(1))
  have step: "resv_loop e lb sd af (Suc n) rc a (port, p)
    = (if lb (tried 0) \<noteq> Inl EADDRINUSE then ((Returns (lb (tried 0)), tried 0), q, p)
       else resv_loop e lb sd af n (lb (tried 0)) (tried 0) (q + 1, p))"
    using assms(2) by (auto simp: b t0 q_def Let_def)
  show ?case
  proof (cases "lb (tried 0) = Inl EADDRINUSE")
    case False
    then show ?thesis using step Suc.prems(4) q by (auto intro!: exI [of _ 0])
  next
    case True
    have sh: "tried (Suc i) = (tried 0)\<lparr>sa_port := of_nat ((next_port ^^ i) (unat (q + 1))), sa_fam := af\<rparr>" for i
      by (simp add: Suc.prems(1) q(1) funpow_swap1)
    have ih: "p' = p \<and> 600 \<le> unat port' \<and> unat port' \<le> 1024 \<and>
      (if \<forall>i < n. lb (tried (Suc i)) = Inl EADDRINUSE
       then r = Returns (if n = 0 then lb (tried 0) else Inl EADDRINUSE) \<and> a' = (if n = 0 then tried 0 else tried (Suc (n - 1)))
       else \<exists>i < n. (\<forall>j < i. lb (tried (Suc j)) = Inl EADDRINUSE) \<and> lb (tried (Suc i)) \<noteq> Inl EADDRINUSE
         \<and> r = Returns (lb (tried (Suc i))) \<and> a' = tried (Suc i))"
      by (rule Suc.IH [where port = "q + 1" and a = "tried 0" and rc = "lb (tried 0)"])
        (use sh q nq step True Suc.prems(4) in auto)
    have all: "(\<forall>i < Suc k. lb (tried i) = Inl EADDRINUSE) \<longleftrightarrow> (\<forall>i < k. lb (tried (Suc i)) = Inl EADDRINUSE)" for k
      using True by (simp add: All_less_Suc2)
    show ?thesis
    proof (cases "\<forall>i < n. lb (tried (Suc i)) = Inl EADDRINUSE")
      case all_used: True
      then show ?thesis using ih True by (cases n) (simp_all add: all)
    next
      case False
      then obtain i where "i < n" "\<forall>j < i. lb (tried (Suc j)) = Inl EADDRINUSE" "lb (tried (Suc i)) \<noteq> Inl EADDRINUSE"
        "r = Returns (lb (tried (Suc i)))" "a' = tried (Suc i)"
        using ih unfolding if_not_P [OF False] by blast
      then have "\<exists>i < Suc n. (\<forall>j < i. lb (tried j) = Inl EADDRINUSE) \<and> lb (tried i) \<noteq> Inl EADDRINUSE
          \<and> r = Returns (lb (tried i)) \<and> a' = tried i"
        using all by (intro exI [of _ "Suc i"]) simp
      moreover have "\<not> (\<forall>i < Suc n. lb (tried i) = Inl EADDRINUSE)" using False all by blast
      ultimately show ?thesis using ih by (simp only: if_False simp_thms)
    qed
  qed
qed

text \<open>
  bindresvport on a socket that is not wrapped tries the ports from the one after the last call's on, upwards and
  from 1024 on to 601, each of the 424 once: it returns the first result of bind other than \<open>EADDRINUSE\<close> and leaves
  that port in the caller's address, and \<open>EADDRINUSE\<close> exactly if every port is in use. The port remembered
  stays between 600 and 1024.
\<close>

theorem reserved_ports:
  assumes "view (tab p) sd = None" "sa_fam a = Inet \<or> sa_fam a = Inet6" "port = 0 \<or> 600 \<le> unat port \<and> unat port \<le> 1024"
    and "first = (if port = 0 then nat (l_pid e mod 424) + 600 else unat port)"
    and "tried = (\<lambda>i. a\<lparr>sa_port := of_nat (if first + i \<le> 1024 then first + i else first + i - 424)\<rparr>)"
    and "swrap_bindresvport_sa e gs lb sd (Some a) (port, p) = ((r, a'), port', p')"
  shows "p' = p \<and> 600 \<le> unat port' \<and> unat port' \<le> 1024 \<and>
    (if \<forall>i < 424. lb (tried i) = Inl EADDRINUSE then r = Returns (Inl EADDRINUSE) \<and> a' = Some (tried 423)
     else \<exists>i < 424. (\<forall>j < i. lb (tried j) = Inl EADDRINUSE) \<and> lb (tried i) \<noteq> Inl EADDRINUSE
       \<and> r = Returns (lb (tried i)) \<and> a' = Some (tried i))"
proof -
  have f: "find_socket_info_index sd (tab p) = - 1" using assms(1) by (simp add: view_def split: if_splits)
  define q where "q = (if port = 0 then of_int (l_pid e mod int SWRAP_NPORTS) + SWRAP_STARTPORT else port)"
  have small: "0 \<le> l_pid e mod 424" "l_pid e mod 424 < 424" by simp_all
  then have "unat (of_int (l_pid e mod 424) + 600 :: u16) = nat (l_pid e mod 424) + 600"
    by (simp add: unat_word_ariths unsigned_of_int take_bit_int_eq_self)
  then have q: "unat q = first" "600 \<le> unat q" "unat q \<le> 1024" using assms(3,4) small
    by (auto simp: q_def SWRAP_NPORTS_def SWRAP_STARTPORT_def)
  define tr where "tr = (\<lambda>i. a\<lparr>sa_port := of_nat ((next_port ^^ i) (unat q)), sa_fam := sa_fam a\<rparr>)"
  have tr: "tr i = tried i" if "i < 424" for i
    using next_round [OF q(2,3) that] by (simp add: tr_def assms(5) round_port_def q(1))
  obtain r0 a0 where l: "resv_loop e lb sd (sa_fam a) 424 (Inl (l_errno e)) a (q, p) = ((r0, a0), port', p')"
      "r = r0" "a' = Some a0"
    using assms(6) unfolding swrap_bindresvport_sa_def prod.case Let_def q_def [symmetric]
    by (auto simp: SWRAP_NPORTS_def split: prod.splits)
  note u = unwrapped_loop [OF f assms(2) tr_def q(2,3) l(1)]
  have "(\<forall>i < 424. lb (tr i) = Inl EADDRINUSE) \<longleftrightarrow> (\<forall>i < 424. lb (tried i) = Inl EADDRINUSE)" using tr by simp
  then show ?thesis
  proof (cases "\<forall>i < 424. lb (tried i) = Inl EADDRINUSE")
    case True
    then show ?thesis using u tr l(2,3) by simp
  next
    case False
    then have n: "\<not> (\<forall>i < 424. lb (tr i) = Inl EADDRINUSE)" using tr by simp
    obtain i where "i < 424" "\<forall>j < i. lb (tr j) = Inl EADDRINUSE" "lb (tr i) \<noteq> Inl EADDRINUSE"
      "r0 = Returns (lb (tr i))" "a0 = tr i"
      using u unfolding if_not_P [OF n] by blast
    then have "\<exists>i < 424. (\<forall>j < i. lb (tried j) = Inl EADDRINUSE) \<and> lb (tried i) \<noteq> Inl EADDRINUSE
       \<and> r = Returns (lb (tried i)) \<and> a' = Some (tried i)"
      using tr l(2,3) by (intro exI [of _ i]) auto
    then show ?thesis using u False by (simp only: if_False simp_thms)
  qed
qed

theorem reserved_ports_witness:
  "\<exists>p port' p'. library_run p \<and> swrap_bindresvport_sa quiet (Inl EINVAL)
      (\<lambda>a. if sa_port a = 1023 then Inl EADDRINUSE else Inr ()) 7 (Some (loopback 1 0)) (1023, p)
    = ((Returns (Inr ()), Some (loopback 1 1024)), port', p')"
proof -
  obtain p where p: "library_run p" "view (tab p) = Map.empty" using library_start by blast
  let ?lb = "\<lambda>a. if sa_port a = 1023 then Inl EADDRINUSE else Inr ()"
  obtain r a' port' p' where s: "swrap_bindresvport_sa quiet (Inl EINVAL) ?lb 7 (Some (loopback 1 0)) (1023, p) = ((r, a'), port', p')"
    by (metis surj_pair)
  have v: "view (tab p) 7 = None" using p(2) by simp
  have f: "sa_fam (loopback 1 0) = Inet \<or> sa_fam (loopback 1 0) = Inet6" by (simp add: loopback_def)
  define tried where "tried = (\<lambda>i :: nat. (loopback 1 0)\<lparr>sa_port := of_nat (if 1023 + i \<le> 1024 then 1023 + i else 1023 + i - 424)\<rparr>)"
  have t: "tried 1 = loopback 1 1024" "?lb (tried 0) = Inl EADDRINUSE" "?lb (tried 1) = Inr ()"
    by (simp_all add: tried_def loopback_def)
  have n: "\<not> (\<forall>i < 424. ?lb (tried i) = Inl EADDRINUSE)" 
  proof
    assume "\<forall>i < 424. ?lb (tried i) = Inl EADDRINUSE"
    from this [rule_format, of 1] show False using t(3) by simp
  qed
  have "1023 = 0 \<or> 600 \<le> unat (1023 :: u16) \<and> unat (1023 :: u16) \<le> 1024" by simp
  moreover have "(1023 :: nat) = (if (1023 :: u16) = 0 then nat (l_pid quiet mod 424) + 600 else unat (1023 :: u16))" by simp
  ultimately have "if \<forall>i < 424. ?lb (tried i) = Inl EADDRINUSE then r = Returns (Inl EADDRINUSE) \<and> a' = Some (tried 423)
     else \<exists>i < 424. (\<forall>j < i. ?lb (tried j) = Inl EADDRINUSE) \<and> ?lb (tried i) \<noteq> Inl EADDRINUSE
       \<and> r = Returns (?lb (tried i)) \<and> a' = Some (tried i)"
    using reserved_ports [OF v f _ _ tried_def s] by blast
  then obtain i where
    i: "\<forall>j < i. ?lb (tried j) = Inl EADDRINUSE" "?lb (tried i) \<noteq> Inl EADDRINUSE" "r = Returns (?lb (tried i))" "a' = Some (tried i)"
    unfolding if_not_P [OF n] by blast
  have "\<not> 1 < i" using i(1) t(3) by (metis Inr_not_Inl)
  moreover have "i \<noteq> 0" using i(2) t(2) by metis
  ultimately have "i = 1" by simp
  then have "r = Returns (Inr ())" "a' = Some (loopback 1 1024)" using i(3,4) t(1,3) by simp_all
  then show ?thesis using s p(1) by blast
qed

end
