(* ===== verification/Swrap_Lock.thy ===== *)
theory Swrap_Lock
  imports Main "HOL-Library.Product_Lexorder"
begin

text \<open>
  The mutexes of socket_wrapper.c: for every function of the library the code that takes and gives
  back mutexes, with a choice where the function branches and a loop where it loops, and a check
  that such code takes mutexes in a fixed order only. The index of an entry that a function finds is
  an argument; the calls of other functions are written out as their code.
\<close>

section \<open>Mutexes and their order\<close>

text \<open>The global mutexes, and the one of each entry.\<close>

datatype mutex = Sockets | Socket_reset | First_free | Entry int | Autobind_start | Mtu_update | Pcap_dump | Symbol_binding

fun mutex_key :: "mutex \<Rightarrow> nat \<times> int" where
  "mutex_key Sockets = (0, 0)"
| "mutex_key Socket_reset = (1, 0)"
| "mutex_key First_free = (2, 0)"
| "mutex_key (Entry i) = (3, i)"
| "mutex_key Autobind_start = (4, 0)"
| "mutex_key Mtu_update = (5, 0)"
| "mutex_key Pcap_dump = (6, 0)"
| "mutex_key Symbol_binding = (7, 0)"

lemma mutex_key_inj: "mutex_key a = mutex_key b \<Longrightarrow> a = b"
  by (cases a; cases b) auto

instantiation mutex :: linorder
begin

definition less_eq_mutex :: "mutex \<Rightarrow> mutex \<Rightarrow> bool" where
  "less_eq_mutex a b \<longleftrightarrow> mutex_key a \<le> mutex_key b"

definition less_mutex :: "mutex \<Rightarrow> mutex \<Rightarrow> bool" where
  "less_mutex a b \<longleftrightarrow> mutex_key a < mutex_key b"

instance
  by intro_classes (auto simp: less_eq_mutex_def less_mutex_def less_le_not_le intro: mutex_key_inj antisym)

end

text \<open>The results of the three calls that make a mutex; 0 is success.\<close>

record mutex_calls =
  attr_init :: int
  attr_settype :: int
  mutex_init :: int

definition socket_wrapper_init_mutex :: "mutex_calls \<Rightarrow> int" where
  "socket_wrapper_init_mutex c =
     (if attr_init c \<noteq> 0 then attr_init c else if attr_settype c \<noteq> 0 then attr_settype c else mutex_init c)"

text \<open>One after the other; at the first failure the process exits (\<open>None\<close>).\<close>

fun init_mutexes :: "(mutex \<Rightarrow> mutex_calls) \<Rightarrow> mutex list \<Rightarrow> mutex list option" where
  "init_mutexes c [] = Some []"
| "init_mutexes c (m # ms) = (if socket_wrapper_init_mutex (c m) \<noteq> 0 then None else map_option ((#) m) (init_mutexes c ms))"

definition swrap_constructor :: "(mutex \<Rightarrow> mutex_calls) \<Rightarrow> mutex list option" where
  "swrap_constructor c = init_mutexes c [Sockets, Socket_reset, First_free]"

definition init_sockets_mutexes :: "(mutex \<Rightarrow> mutex_calls) \<Rightarrow> nat \<Rightarrow> mutex list option" where
  "init_sockets_mutexes c max_sockets =
     init_mutexes c (map (\<lambda>i. Entry (int i)) [0..<max_sockets] @ [Autobind_start, Pcap_dump, Mtu_update])"

lemma init_mutexes_all: "init_mutexes c ms = Some done_ms \<Longrightarrow> done_ms = ms \<and> (\<forall>m \<in> set ms. socket_wrapper_init_mutex (c m) = 0)"
  by (induction ms arbitrary: done_ms) (auto split: if_splits)

text \<open>
  When the constructor and the first use of the table are through, every mutex of the library has been made
  exactly once, but for the statically made one of symbol binding.
\<close>

lemma mutexes_made_once:
  assumes "swrap_constructor c = Some a" "init_sockets_mutexes c max_sockets = Some b"
  shows "distinct (a @ b) \<and> set (a @ b) = {m. m \<noteq> Symbol_binding \<and> (\<forall>i. m = Entry i \<longrightarrow> 0 \<le> i \<and> i < int max_sockets)}"
proof -
  have ab: "a @ b = [Sockets, Socket_reset, First_free] @ map (\<lambda>i. Entry (int i)) [0..<max_sockets] @ [Autobind_start, Pcap_dump, Mtu_update]"
    using init_mutexes_all [OF assms(1) [unfolded swrap_constructor_def]]
      init_mutexes_all [OF assms(2) [unfolded init_sockets_mutexes_def]] by simp
  have "m \<in> set (a @ b) \<longleftrightarrow> m \<noteq> Symbol_binding \<and> (\<forall>i. m = Entry i \<longrightarrow> 0 \<le> i \<and> i < int max_sockets)" for m
    unfolding ab by (cases m) (auto intro: image_eqI [of _ _ "nat i" for i])
  moreover have "distinct (a @ b)" unfolding ab by (auto simp: distinct_map inj_on_def)
  ultimately show ?thesis by blast
qed

section \<open>Code with mutexes\<close>

datatype code = Skip | Lock mutex | Unlock mutex | Then code code | Or code code | Loop code

definition steps :: "code list \<Rightarrow> code" where
  "steps cs = foldr Then cs Skip"

fun choice :: "code list \<Rightarrow> code" where
  "choice [] = Skip"
| "choice [c] = c"
| "choice (c # cs) = Or c (choice cs)"

definition maybe :: "code \<Rightarrow> code" where
  "maybe c = Or Skip c"

text \<open>What a run of the code does to the mutexes.\<close>

datatype lock_op = Acquire mutex | Release mutex

inductive runs :: "code \<Rightarrow> lock_op list \<Rightarrow> bool" where
  run_skip: "runs Skip []"
| run_lock: "runs (Lock m) [Acquire m]"
| run_unlock: "runs (Unlock m) [Release m]"
| run_then: "runs a s \<Longrightarrow> runs b t \<Longrightarrow> runs (Then a b) (s @ t)"
| run_left: "runs a s \<Longrightarrow> runs (Or a b) s"
| run_right: "runs b s \<Longrightarrow> runs (Or a b) s"
| run_end: "runs (Loop a) []"
| run_again: "runs a s \<Longrightarrow> runs (Loop a) t \<Longrightarrow> runs (Loop a) (s @ t)"

inductive_cases runs_then: "runs (Then a b) t"
inductive_cases runs_lock: "runs (Lock m) t"
inductive_cases runs_unlock: "runs (Unlock m) t"
inductive_cases runs_skip: "runs Skip t"
inductive_cases runs_or: "runs (Or a b) t"

text \<open>
  The mutexes held after a run, the last one taken first: \<open>None\<close> if a mutex is taken that is not
  greater than every one held, or one is given back that is not held. Such a mutex reports an error, as the
  library's mutexes are of the error-checking type.
\<close>

fun follow :: "mutex list \<Rightarrow> lock_op list \<Rightarrow> mutex list option" where
  "follow H [] = Some H"
| "follow H (Acquire m # ops) = (if \<forall>h \<in> set H. h < m then follow (m # H) ops else None)"
| "follow H (Release m # ops) = (if m \<in> set H then follow (remove1 m H) ops else None)"


lemma follow_append: "follow H (s @ t) = Option.bind (follow H s) (\<lambda>H. follow H t)"
  by (induction H s rule: follow.induct) auto

text \<open>The same for every run of the code at once.\<close>

fun check_locks :: "code \<Rightarrow> mutex list \<Rightarrow> mutex list option" where
  "check_locks Skip H = Some H"
| "check_locks (Lock m) H = (if \<forall>h \<in> set H. h < m then Some (m # H) else None)"
| "check_locks (Unlock m) H = (if m \<in> set H then Some (remove1 m H) else None)"
| "check_locks (Then a b) H = Option.bind (check_locks a H) (check_locks b)"
| "check_locks (Or a b) H = (if check_locks a H = check_locks b H then check_locks a H else None)"
| "check_locks (Loop a) H = (if check_locks a H = Some H then Some H else None)"

lemma check_sound: "runs c t \<Longrightarrow> check_locks c H = Some H' \<Longrightarrow> follow H t = Some H'"
proof (induction arbitrary: H H' rule: runs.induct)
  case (run_then a s b t)
  then show ?case by (auto simp: follow_append split: bind_splits)
next
  case (run_left a s b)
  from run_left.prems have "check_locks a H = Some H'" by (simp split: if_splits)
  then show ?case by (rule run_left.IH)
next
  case (run_right b s a)
  from run_right.prems have "check_locks b H = Some H'" by (simp split: if_splits)
  then show ?case by (rule run_right.IH)
next
  case (run_again a s t)
  then show ?case by (auto simp: follow_append split: if_splits)
qed (auto split: if_splits)

lemma check_steps [simp]:
  "check_locks (steps []) H = Some H"
  "check_locks (steps (c # cs)) H = Option.bind (check_locks c H) (check_locks (steps cs))"
  by (simp_all add: steps_def)

lemma check_maybe [simp]: "check_locks (maybe c) H = (if check_locks c H = Some H then Some H else None)"
  by (auto simp: maybe_def)

section \<open>The functions of the library\<close>

text \<open>
  A call of libc binds its symbol first, under a mutex if it looks unbound; libc itself takes
  none of these mutexes.
\<close>

definition libc_call :: code where
  "libc_call = maybe (steps [Lock Symbol_binding, Unlock Symbol_binding])"

definition swrap_bind_symbol_all_locks :: code where
  "swrap_bind_symbol_all_locks = Loop libc_call"

definition socket_wrapper_mtu_locks :: code where
  "socket_wrapper_mtu_locks = steps [Lock Mtu_update, Unlock Mtu_update]"

definition socket_wrapper_init_sockets_locks :: code where
  "socket_wrapper_init_sockets_locks = steps [Lock Sockets,
     choice [Unlock Sockets, steps [Lock First_free, Unlock First_free, Unlock Sockets]]]"

definition swrap_add_socket_info_locks :: "int \<Rightarrow> code" where
  "swrap_add_socket_info_locks i = maybe (steps [Lock First_free,
     maybe (steps [Lock (Entry i), Unlock (Entry i)]), Unlock First_free])"

definition swrap_remove_stale_locks :: "int \<Rightarrow> code" where
  "swrap_remove_stale_locks i = steps [Lock Socket_reset,
     choice [Unlock Socket_reset,
       steps [Lock First_free, Lock (Entry i), Unlock (Entry i), Unlock First_free, Unlock Socket_reset]]]"

text \<open>
  The file is opened once; \<open>write\<close> is the library's own and takes no mutex for a descriptor that is
  not wrapped, as the file's is as long as no stale entry has its number.
\<close>

definition swrap_pcap_dump_packet_locks :: code where
  "swrap_pcap_dump_packet_locks = steps [Lock Pcap_dump,
     maybe (steps [maybe (steps [libc_call, maybe libc_call]), maybe libc_call]),
     Unlock Pcap_dump]"

definition swrap_auto_bind_locks :: code where
  "swrap_auto_bind_locks = steps [Lock Autobind_start, maybe libc_call, Unlock Autobind_start]"

definition swrap_close_locks :: "int \<Rightarrow> code" where
  "swrap_close_locks i = steps [Lock Socket_reset,
     choice [steps [Unlock Socket_reset, libc_call],
       steps [Lock First_free, Lock (Entry i), libc_call,
         maybe (steps [swrap_pcap_dump_packet_locks, swrap_pcap_dump_packet_locks, swrap_pcap_dump_packet_locks]),
         Unlock (Entry i), Unlock First_free, Unlock Socket_reset]]]"

text \<open>\<open>k\<close>, here and below, is the entry that a removed descriptor number leads to.\<close>

definition swrap_socket_locks :: "int \<Rightarrow> int \<Rightarrow> code" where
  "swrap_socket_locks i k = maybe (steps [socket_wrapper_init_sockets_locks,
     maybe (steps [libc_call, maybe (steps [swrap_remove_stale_locks k, swrap_add_socket_info_locks i])])])"

definition swrap_accept_locks :: "int \<Rightarrow> int \<Rightarrow> int \<Rightarrow> int \<Rightarrow> code" where
  "swrap_accept_locks i j k c = choice [libc_call,
     steps [Lock (Entry i), Unlock (Entry i)],
     steps [Lock (Entry i), Unlock (Entry i), libc_call, maybe (swrap_remove_stale_locks k)],
     steps [Lock (Entry i), Unlock (Entry i), libc_call, Lock (Entry i),
       choice [steps [Unlock (Entry i), swrap_close_locks c],
         steps [Unlock (Entry i), libc_call,
           choice [swrap_close_locks c,
             steps [swrap_add_socket_info_locks j,
               choice [swrap_close_locks c,
                 maybe (steps [Lock (Entry j), swrap_pcap_dump_packet_locks, swrap_pcap_dump_packet_locks,
                   swrap_pcap_dump_packet_locks, Unlock (Entry j)])]]]]]]]"

definition swrap_connect_locks :: "int \<Rightarrow> code" where
  "swrap_connect_locks i = choice [libc_call,
     steps [Lock (Entry i), maybe swrap_auto_bind_locks,
       maybe (steps [maybe (steps [swrap_pcap_dump_packet_locks, libc_call]),
         maybe swrap_pcap_dump_packet_locks, swrap_pcap_dump_packet_locks]),
       Unlock (Entry i)]]"

definition swrap_bind_locks :: "int \<Rightarrow> code" where
  "swrap_bind_locks i = choice [libc_call, steps [Lock (Entry i), maybe libc_call, Unlock (Entry i)]]"

definition swrap_listen_locks :: "int \<Rightarrow> code" where
  "swrap_listen_locks i = choice [libc_call,
     steps [Lock (Entry i), maybe swrap_auto_bind_locks, maybe libc_call, Unlock (Entry i)]]"

text \<open>\<open>getpeername\<close> and \<open>getsockname\<close>.\<close>

definition swrap_name_locks :: "int \<Rightarrow> code" where
  "swrap_name_locks i = choice [libc_call, steps [Lock (Entry i), Unlock (Entry i)]]"

definition swrap_bindresvport_sa_locks :: "int \<Rightarrow> code" where
  "swrap_bindresvport_sa_locks i = steps [maybe (swrap_name_locks i), Loop (swrap_bind_locks i)]"

definition swrap_getsockopt_locks :: "int \<Rightarrow> code" where
  "swrap_getsockopt_locks i = choice [libc_call, steps [Lock (Entry i), maybe libc_call, Unlock (Entry i)]]"

definition swrap_setsockopt_locks :: "int \<Rightarrow> code" where
  "swrap_setsockopt_locks i = choice [libc_call, steps [Lock (Entry i), Unlock (Entry i)]]"

definition swrap_vioctl_locks :: "int \<Rightarrow> code" where
  "swrap_vioctl_locks i = choice [libc_call,
     steps [Lock (Entry i), libc_call, maybe swrap_pcap_dump_packet_locks, Unlock (Entry i)]]"

text \<open>The three ways out of the steps before a transfer: streams, datagrams, a failed binding.\<close>

definition swrap_sendmsg_before_locks :: "int \<Rightarrow> int \<Rightarrow> code" where
  "swrap_sendmsg_before_locks i k = steps [Lock (Entry i),
     choice [steps [maybe socket_wrapper_mtu_locks, Unlock (Entry i)],
       steps [maybe swrap_auto_bind_locks, maybe libc_call, Unlock (Entry i)],
       steps [swrap_auto_bind_locks, Unlock (Entry i), maybe (swrap_remove_stale_locks k)]]]"

definition swrap_sendmsg_after_locks :: "int \<Rightarrow> int \<Rightarrow> code" where
  "swrap_sendmsg_after_locks i k = steps [maybe (swrap_remove_stale_locks k),
     maybe (steps [Lock (Entry i),
       maybe (steps [swrap_pcap_dump_packet_locks, maybe swrap_pcap_dump_packet_locks]), Unlock (Entry i)])]"

definition swrap_recvmsg_before_locks :: "int \<Rightarrow> int \<Rightarrow> code" where
  "swrap_recvmsg_before_locks i k = steps [Lock (Entry i),
     choice [steps [maybe socket_wrapper_mtu_locks, Unlock (Entry i)],
       steps [maybe swrap_auto_bind_locks, Unlock (Entry i)],
       steps [swrap_auto_bind_locks, Unlock (Entry i), maybe (swrap_remove_stale_locks k)]]]"

definition swrap_recvmsg_after_locks :: "int \<Rightarrow> int \<Rightarrow> code" where
  "swrap_recvmsg_after_locks i k = steps [maybe (swrap_remove_stale_locks k), Lock (Entry i),
     choice [Unlock (Entry i), steps [maybe swrap_pcap_dump_packet_locks, Unlock (Entry i)]]]"

definition broadcast_locks :: "int \<Rightarrow> code" where
  "broadcast_locks i = steps [Loop libc_call, Lock (Entry i), swrap_pcap_dump_packet_locks, Unlock (Entry i)]"

definition swrap_sendto_locks :: "int \<Rightarrow> int \<Rightarrow> code" where
  "swrap_sendto_locks i k = choice [libc_call,
     steps [swrap_sendmsg_before_locks i k,
       choice [Skip, broadcast_locks i,
         steps [Lock (Entry i), libc_call, Unlock (Entry i), swrap_sendmsg_after_locks i k]]]]"

text \<open>\<open>write\<close>, \<open>send\<close>, \<open>writev\<close>.\<close>

definition swrap_send_locks :: "int \<Rightarrow> int \<Rightarrow> code" where
  "swrap_send_locks i k = choice [libc_call,
     steps [swrap_sendmsg_before_locks i k,
       choice [Skip, libc_call, steps [libc_call, swrap_sendmsg_after_locks i k]]]]"

definition swrap_sendmsg_locks :: "int \<Rightarrow> int \<Rightarrow> code" where
  "swrap_sendmsg_locks i k = choice [libc_call,
     steps [Lock (Entry i), Unlock (Entry i), swrap_sendmsg_before_locks i k,
       choice [Skip, broadcast_locks i, steps [libc_call, swrap_sendmsg_after_locks i k]]]]"

text \<open>\<open>recvfrom\<close>, \<open>recv\<close>, \<open>read\<close>, \<open>readv\<close>.\<close>

definition swrap_recv_locks :: "int \<Rightarrow> int \<Rightarrow> code" where
  "swrap_recv_locks i k = choice [libc_call,
     steps [swrap_recvmsg_before_locks i k,
       choice [Skip, libc_call, steps [libc_call, maybe (swrap_recvmsg_after_locks i k)]]]]"

definition swrap_recvmsg_locks :: "int \<Rightarrow> int \<Rightarrow> code" where
  "swrap_recvmsg_locks i k = choice [libc_call,
     steps [swrap_recvmsg_before_locks i k,
       maybe (steps [libc_call, swrap_recvmsg_after_locks i k, maybe (steps [Lock (Entry i), Unlock (Entry i)])])]]"

text \<open>\<open>dup\<close> and \<open>fcntl\<close>; \<open>dup2\<close> closes the entry \<open>j\<close> of the new descriptor.\<close>

definition swrap_dup_locks :: "int \<Rightarrow> int \<Rightarrow> code" where
  "swrap_dup_locks i k = choice [libc_call,
     steps [libc_call, maybe (steps [Lock (Entry i), Unlock (Entry i), swrap_remove_stale_locks k])]]"

definition swrap_dup2_locks :: "int \<Rightarrow> int \<Rightarrow> int \<Rightarrow> code" where
  "swrap_dup2_locks i j k = choice [libc_call, Skip,
     steps [maybe (swrap_close_locks j), libc_call,
       maybe (steps [Lock (Entry i), Unlock (Entry i), swrap_remove_stale_locks k])]]"

text \<open>The calls that return other descriptors: \<open>fopen\<close>, \<open>open\<close>, \<open>eventfd\<close>, \<open>signalfd\<close>, \<open>timerfd_create\<close> one,
  \<open>pipe\<close> and \<open>socketpair\<close> two.\<close>

definition other_fd_locks :: "int \<Rightarrow> int \<Rightarrow> code" where
  "other_fd_locks k l = steps [libc_call, maybe (steps [swrap_remove_stale_locks k, maybe (swrap_remove_stale_locks l)])]"

definition swrap_destructor_locks :: "int list \<Rightarrow> code" where
  "swrap_destructor_locks entries = steps (map swrap_close_locks entries)"

text \<open>The handlers of \<open>fork\<close>.\<close>

definition swrap_thread_prepare_locks :: code where
  "swrap_thread_prepare_locks = steps [swrap_bind_symbol_all_locks, Lock Symbol_binding]"

definition swrap_thread_parent_locks :: code where
  "swrap_thread_parent_locks = Unlock Symbol_binding"

definition swrap_thread_child_locks :: code where
  "swrap_thread_child_locks = Unlock Symbol_binding"

section \<open>Runs of given code\<close>

lemma run_steps: "runs c s \<Longrightarrow> runs (steps cs) t \<Longrightarrow> runs (steps (c # cs)) (s @ t)"
  by (simp add: steps_def run_then)

lemma walk:
  "runs (steps []) []"
  "runs (steps cs) t \<Longrightarrow> runs (steps (Lock m # cs)) (Acquire m # t)"
  "runs (steps cs) t \<Longrightarrow> runs (steps (Unlock m # cs)) (Release m # t)"
  "runs (steps cs) t \<Longrightarrow> runs (steps (maybe c # cs)) t"
  "runs (steps cs) t \<Longrightarrow> runs (steps (libc_call # cs)) t"
  "runs (steps cs) t \<Longrightarrow> runs (steps (Loop c # cs)) t"
  "runs b t \<Longrightarrow> runs (steps [choice [a, b]]) t"
proof -
  show nil: "runs (steps []) []" by (simp add: steps_def run_skip)
  show "runs (steps (Lock m # cs)) (Acquire m # t)" if "runs (steps cs) t"
    using run_steps [OF run_lock that, of m] by simp
  show "runs (steps (Unlock m # cs)) (Release m # t)" if "runs (steps cs) t"
    using run_steps [OF run_unlock that, of m] by simp
  show "runs (steps (Loop c # cs)) t" if "runs (steps cs) t"
    using run_steps [OF run_end that, of c] by simp
  show m: "runs (steps (maybe c # cs)) t" if "runs (steps cs) t" for c
    using run_steps [OF run_left [OF run_skip] that, of c] by (simp add: maybe_def)
  show "runs (steps (libc_call # cs)) t" if "runs (steps cs) t"
    unfolding libc_call_def using that by (rule m)
  show "runs (steps [choice [a, b]]) t" if "runs b t"
    using run_steps [OF run_right [OF that] nil, of a] by simp
qed

lemma runs_guarded: "runs (steps [Lock m, Unlock m]) [Acquire m, Release m]"
  by (intro walk)

lemma runs_libc_call: "runs libc_call []" "runs libc_call [Acquire Symbol_binding, Release Symbol_binding]"
  by (simp_all add: libc_call_def maybe_def run_left run_skip run_right runs_guarded)

end
