(* ===== verification/Swrap_Threads.thy ===== *)
theory Swrap_Threads
  imports Swrap_Lock
begin

text \<open>
  Threads that call the library at the same time: every function takes the mutexes in one order,
  no interleaving of calls gets stuck, and what \<open>fork\<close> does to that.
\<close>

section \<open>Every function takes mutexes in order\<close>

text \<open>The calls a thread may make, with whatever entries they meet.\<close>

inductive library_code :: "code \<Rightarrow> bool" where
  call_socket: "library_code (swrap_socket_locks i k)"
| call_accept: "library_code (swrap_accept_locks i j k c)"
| call_connect: "library_code (swrap_connect_locks i)"
| call_bind: "library_code (swrap_bind_locks i)"
| call_bindresvport: "library_code (swrap_bindresvport_sa_locks i)"
| call_listen: "library_code (swrap_listen_locks i)"
| call_name: "library_code (swrap_name_locks i)"
| call_getsockopt: "library_code (swrap_getsockopt_locks i)"
| call_setsockopt: "library_code (swrap_setsockopt_locks i)"
| call_ioctl: "library_code (swrap_vioctl_locks i)"
| call_sendto: "library_code (swrap_sendto_locks i k)"
| call_send: "library_code (swrap_send_locks i k)"
| call_sendmsg: "library_code (swrap_sendmsg_locks i k)"
| call_recv: "library_code (swrap_recv_locks i k)"
| call_recvmsg: "library_code (swrap_recvmsg_locks i k)"
| call_close: "library_code (swrap_close_locks i)"
| call_dup: "library_code (swrap_dup_locks i k)"
| call_dup2: "library_code (swrap_dup2_locks i j k)"
| call_other_fd: "library_code (other_fd_locks k l)"
| call_fork: "library_code (steps [swrap_thread_prepare_locks, swrap_thread_parent_locks])"
| call_destructor: "library_code (swrap_destructor_locks entries)"

named_theorems in_order \<open>code that leaves the mutexes as it finds them\<close>

lemmas mutex_order = less_mutex_def less_eq_mutex_def

lemma symbols_last: "\<forall>h \<in> set H. h < m \<Longrightarrow> m < Symbol_binding \<Longrightarrow> \<forall>h \<in> set (m # H). h < Symbol_binding"
  by (auto intro: less_trans)

lemma libc_in_order [in_order]: "\<forall>h \<in> set H. h < Symbol_binding \<Longrightarrow> check_locks libc_call H = Some H"
  by (simp add: libc_call_def)

lemma mtu_in_order [in_order]: "\<forall>h \<in> set H. h < Mtu_update \<Longrightarrow> check_locks socket_wrapper_mtu_locks H = Some H"
  by (simp add: socket_wrapper_mtu_locks_def)

lemma dump_in_order [in_order]: "\<forall>h \<in> set H. h < Pcap_dump \<Longrightarrow> check_locks swrap_pcap_dump_packet_locks H = Some H"
  using libc_in_order [OF symbols_last [of H Pcap_dump]]
  by (simp add: swrap_pcap_dump_packet_locks_def) (simp add: mutex_order)

lemma auto_bind_in_order [in_order]: "\<forall>h \<in> set H. h < Autobind_start \<Longrightarrow> check_locks swrap_auto_bind_locks H = Some H"
  using libc_in_order [OF symbols_last [of H Autobind_start]]
  by (simp add: swrap_auto_bind_locks_def) (simp add: mutex_order)

lemma table_in_order [in_order]:
  "check_locks socket_wrapper_init_sockets_locks [] = Some []"
  "check_locks (swrap_add_socket_info_locks i) [] = Some []"
  "check_locks (swrap_remove_stale_locks i) [] = Some []"
  by (simp_all add: socket_wrapper_init_sockets_locks_def swrap_add_socket_info_locks_def swrap_remove_stale_locks_def mutex_order)

lemma close_in_order [in_order]: "check_locks (swrap_close_locks i) [] = Some []"
  by (simp add: swrap_close_locks_def in_order mutex_order)

lemma before_in_order [in_order]:
  "check_locks (swrap_sendmsg_before_locks i k) [] = Some []"
  "check_locks (swrap_recvmsg_before_locks i k) [] = Some []"
  by (simp_all add: swrap_sendmsg_before_locks_def swrap_recvmsg_before_locks_def in_order mutex_order)

lemma after_in_order [in_order]:
  "check_locks (swrap_sendmsg_after_locks i k) [] = Some []"
  "check_locks (swrap_recvmsg_after_locks i k) [] = Some []"
  "check_locks (broadcast_locks i) [] = Some []"
  by (simp_all add: swrap_sendmsg_after_locks_def swrap_recvmsg_after_locks_def broadcast_locks_def in_order mutex_order)

lemma name_in_order [in_order]:
  "check_locks (swrap_name_locks i) [] = Some []" "check_locks (swrap_bind_locks i) [] = Some []"
  by (simp_all add: swrap_name_locks_def swrap_bind_locks_def in_order mutex_order)

lemma destructor_in_order [in_order]: "check_locks (swrap_destructor_locks entries) [] = Some []"
  unfolding swrap_destructor_locks_def by (induction entries) (simp_all add: in_order)

lemma library_in_order: "library_code c \<Longrightarrow> check_locks c [] = Some []"
proof (induction rule: library_code.induct)
  case (call_accept i j k c)
  show ?case by (simp add: swrap_accept_locks_def in_order mutex_order)
next
  case (call_fork)
  show ?case
    by (simp add: swrap_thread_prepare_locks_def swrap_thread_parent_locks_def swrap_bind_symbol_all_locks_def in_order)
qed (simp_all add: in_order mutex_order swrap_socket_locks_def swrap_connect_locks_def swrap_bindresvport_sa_locks_def
    swrap_listen_locks_def swrap_getsockopt_locks_def swrap_setsockopt_locks_def swrap_vioctl_locks_def swrap_sendto_locks_def
    swrap_send_locks_def swrap_sendmsg_locks_def swrap_recv_locks_def swrap_recvmsg_locks_def swrap_dup_locks_def
    swrap_dup2_locks_def other_fd_locks_def)

section \<open>Threads\<close>

text \<open>Any sequence of calls.\<close>

inductive program :: "lock_op list \<Rightarrow> bool" where
  program_end: "program []"
| program_call: "library_code c \<Longrightarrow> runs c s \<Longrightarrow> program t \<Longrightarrow> program (s @ t)"

lemma program_in_order: "program ops \<Longrightarrow> follow [] ops = Some []"
  by (induction rule: program.induct) (auto simp: follow_append dest: check_sound [OF _ library_in_order])

text \<open>The state: what each thread holds, and what it has still to do. A mutex is taken if no thread holds it.\<close>

type_synonym threads = "nat \<Rightarrow> mutex list \<times> lock_op list"

inductive thread_step :: "threads \<Rightarrow> threads \<Rightarrow> bool" where
  step_acquire: "T t = (H, Acquire m # ops) \<Longrightarrow> \<forall>u. m \<notin> set (fst (T u)) \<Longrightarrow> thread_step T (T(t := (m # H, ops)))"
| step_release: "T t = (H, Release m # ops) \<Longrightarrow> m \<in> set H \<Longrightarrow> thread_step T (T(t := (remove1 m H, ops)))"

inductive_cases thread_stepE: "thread_step T T'"

text \<open>\<open>n\<close> threads that hold nothing and run programs of some kind.\<close>

definition started :: "(lock_op list \<Rightarrow> bool) \<Rightarrow> nat \<Rightarrow> threads \<Rightarrow> bool" where
  "started prog n T \<longleftrightarrow> (\<forall>t. fst (T t) = [] \<and> prog (snd (T t))) \<and> (\<forall>t \<ge> n. snd (T t) = [])"

definition orderly :: "nat \<Rightarrow> threads \<Rightarrow> bool" where
  "orderly n T \<longleftrightarrow> (\<forall>t. follow (fst (T t)) (snd (T t)) = Some []) \<and> (\<forall>t. distinct (fst (T t)))
    \<and> (\<forall>t u. t \<noteq> u \<longrightarrow> set (fst (T t)) \<inter> set (fst (T u)) = {}) \<and> (\<forall>t \<ge> n. snd (T t) = [])"

lemma orderly_follow: "orderly n T \<Longrightarrow> T t = (H, ops) \<Longrightarrow> follow H ops = Some [] \<and> distinct H \<and> (ops \<noteq> [] \<longrightarrow> t < n)"
  by (fastforce simp: orderly_def not_less [symmetric] dest!: spec [of _ t])

lemma orderly_acquire:
  assumes "orderly n T" "T t = (H, Acquire m # ops)"
  shows "follow (m # H) ops = Some []" "\<forall>h \<in> set H. h < m" "distinct (m # H)" "t < n"
  using orderly_follow [OF assms] by (auto split: if_splits)

lemma orderly_release:
  assumes "orderly n T" "T t = (H, Release m # ops)"
  shows "follow (remove1 m H) ops = Some []" "m \<in> set H" "distinct H" "t < n"
  using orderly_follow [OF assms] by (auto split: if_splits)

lemma step_orderly:
  assumes "thread_step T T'" "orderly n T"
  shows "orderly n T'"
  using assms
proof (cases rule: thread_step.cases)
  case (step_acquire t H m ops)
  show ?thesis using orderly_acquire [OF assms(2) step_acquire(2)] assms(2) step_acquire unfolding orderly_def by (auto simp: fun_upd_apply) (metis disjoint_iff fst_conv)+
next
  case (step_release t H m ops)
  show ?thesis
    using orderly_release [OF assms(2) step_release(2)] assms(2) step_release(1,2) unfolding orderly_def
    by (auto simp: fun_upd_apply) (metis disjoint_iff fst_conv)+
qed

lemma steps_orderly: "thread_step\<^sup>*\<^sup>* T T' \<Longrightarrow> orderly n T \<Longrightarrow> orderly n T'"
  by (induction rule: rtranclp_induct) (auto intro: step_orderly)

text \<open>What a thread waits for is greater than all it holds, so that the waits cannot form a circle.\<close>

lemma progress:
  assumes "orderly n T" "snd (T t) \<noteq> []"
  shows "\<exists>T'. thread_step T T'"
proof (rule ccontr)
  assume stuck: "\<not> (\<exists>T'. thread_step T T')"
  have waits: "\<exists>m ops u. snd (T t) = Acquire m # ops \<and> m \<in> set (fst (T u))" if "snd (T t) \<noteq> []" for t
  proof -
    obtain a ops where "snd (T t) = a # ops" using \<open>snd (T t) \<noteq> []\<close> by (cases "snd (T t)") auto
    then obtain H where s: "T t = (H, a # ops)" by (metis prod.collapse)
    show ?thesis
    proof (cases a)
      case (Acquire m)
      have "\<exists>u. m \<in> set (fst (T u))" using stuck step_acquire [of T t H m ops] s Acquire by blast
      then show ?thesis using s Acquire by auto
    next
      case (Release m)
      then show ?thesis using stuck s step_release orderly_release(2) [OF assms(1)] by blast
    qed
  qed
  define wanted where "wanted = {m. \<exists>t ops. snd (T t) = Acquire m # ops}"
  have "wanted \<subseteq> (\<lambda>t. case snd (T t) of Acquire m # _ \<Rightarrow> m | _ \<Rightarrow> Sockets) ` {..< n}"
  proof
    fix m
    assume "m \<in> wanted"
    then obtain t ops where t: "snd (T t) = Acquire m # ops" by (auto simp: wanted_def)
    then have "t < n" using assms(1) by (force simp: orderly_def not_less [symmetric])
    then show "m \<in> (\<lambda>t. case snd (T t) of Acquire m # _ \<Rightarrow> m | _ \<Rightarrow> Sockets) ` {..< n}"
      using t by (intro image_eqI [of _ _ t]) simp_all
  qed
  then have fin: "finite wanted" using finite_surj by blast
  have ne: "wanted \<noteq> {}" using waits [OF assms(2)] by (auto simp: wanted_def)
  obtain t ops where t: "snd (T t) = Acquire (Max wanted) # ops" using Max_in [OF fin ne] by (auto simp: wanted_def)
  then obtain u where u: "Max wanted \<in> set (fst (T u))" using waits [of t] by auto
  then have "snd (T u) \<noteq> []" using orderly_follow [OF assms(1), of u "fst (T u)" "snd (T u)"] by auto
  then obtain m ops' where m: "snd (T u) = Acquire m # ops'" using waits by blast
  then have "Max wanted < m"
    using orderly_acquire(2) [OF assms(1), of u "fst (T u)"] u by (metis prod.collapse)
  moreover have "m \<le> Max wanted" using m fin by (intro Max_ge) (auto simp: wanted_def)
  ultimately show False by simp
qed

definition work_left :: "nat \<Rightarrow> threads \<Rightarrow> nat" where
  "work_left n T = (\<Sum>t < n. length (snd (T t)))"

lemma step_works:
  assumes "thread_step T T'" "orderly n T"
  shows "Suc (work_left n T') = work_left n T"
proof -
  obtain t where t: "Suc (length (snd (T' t))) = length (snd (T t))" "\<And>u. u \<noteq> t \<Longrightarrow> T' u = T u"
    using assms(1)
  proof (cases rule: thread_step.cases)
    case (step_acquire t H m ops)
    then show ?thesis by (intro that [of t]) simp_all
  next
    case (step_release t H m ops)
    then show ?thesis by (intro that [of t]) simp_all
  qed
  have "t < n" using assms(2) t(1) by (force simp: orderly_def not_less [symmetric])
  then have "work_left n S = length (snd (S t)) + (\<Sum>u \<in> {..< n} - {t}. length (snd (S u)))" for S
    unfolding work_left_def by (subst sum.remove [of _ t]) auto
  moreover have "(\<Sum>u \<in> {..< n} - {t}. length (snd (T' u))) = (\<Sum>u \<in> {..< n} - {t}. length (snd (T u)))"
    using t(2) by (intro sum.cong) auto
  ultimately show ?thesis using t(1) by simp
qed

lemma all_done:
  "orderly n T \<Longrightarrow> work_left n T = k \<Longrightarrow> \<exists>T'. thread_step\<^sup>*\<^sup>* T T' \<and> (\<forall>t. T' t = ([], []))"
proof (induction k arbitrary: T)
  case 0
  then have "snd (T t) = []" for t by (cases "t < n") (auto simp: work_left_def orderly_def)
  moreover have "follow (fst (T t)) (snd (T t)) = Some []" for t using 0(1) by (simp add: orderly_def)
  ultimately have "T t = ([], [])" for t by (metis follow.simps(1) option.inject prod.collapse)
  then show ?case by blast
next
  case (Suc k)
  then obtain t where "snd (T t) \<noteq> []" by (metis (mono_tags) list.size(3) nat.distinct(1) sum.neutral work_left_def)
  then obtain T1 where s: "thread_step T T1" using progress [OF Suc.prems(1)] by blast
  then obtain T' where "thread_step\<^sup>*\<^sup>* T1 T'" "\<forall>t. T' t = ([], [])"
    using Suc.IH step_orderly [OF s Suc.prems(1)] step_works [OF s Suc.prems(1)] Suc.prems(2) by auto
  then show ?case using s by (metis converse_rtranclp_into_rtranclp)
qed

section \<open>Programs that keep to the order\<close>

text \<open>What threads rely on of each other: whatever runs takes mutexes in order and gives all of them back.\<close>

locale disciplined =
  fixes prog :: "lock_op list \<Rightarrow> bool"
  assumes in_order: "prog ops \<Longrightarrow> follow [] ops = Some []"
begin

lemma started_orderly: "started prog n T \<Longrightarrow> orderly n T"
  by (simp add: started_def orderly_def in_order)

lemma reachable_orderly: "started prog n T \<Longrightarrow> thread_step\<^sup>*\<^sup>* T T' \<Longrightarrow> orderly n T'"
  using steps_orderly started_orderly by blast

lemma waits_upwards:
  assumes "started prog n T" "thread_step\<^sup>*\<^sup>* T T'" "snd (T' t) = Acquire m # ops"
  shows "\<forall>h \<in> set (fst (T' t)). h < m"
  using orderly_acquire(2) [OF reachable_orderly [OF assms(1,2)]] assms(3) by (metis prod.collapse)

lemma gives_back_own:
  assumes "started prog n T" "thread_step\<^sup>*\<^sup>* T T'" "snd (T' t) = Release m # ops"
  shows "m \<in> set (fst (T' t))"
  using orderly_release(2) [OF reachable_orderly [OF assms(1,2)]] assms(3) by (metis prod.collapse)

lemma goes_on: "started prog n T \<Longrightarrow> thread_step\<^sup>*\<^sup>* T T' \<Longrightarrow> snd (T' t) \<noteq> [] \<Longrightarrow> \<exists>T''. thread_step T' T''"
  using progress reachable_orderly by blast

lemma comes_to_end: "started prog n T \<Longrightarrow> thread_step\<^sup>*\<^sup>* T T' \<Longrightarrow> \<exists>T''. thread_step\<^sup>*\<^sup>* T' T'' \<and> (\<forall>t. T'' t = ([], []))"
  using all_done reachable_orderly by blast

lemma each_step_counts:
  "started prog n T \<Longrightarrow> thread_step\<^sup>*\<^sup>* T T' \<Longrightarrow> thread_step T' T'' \<Longrightarrow> Suc (work_left n T'') = work_left n T'"
  using step_works reachable_orderly by blast

end

interpretation library: disciplined program
  by unfold_locales (rule program_in_order)

section \<open>Runs of some calls\<close>

definition close_trace :: "int \<Rightarrow> lock_op list" where
  "close_trace i = [Acquire Socket_reset, Acquire First_free, Acquire (Entry i),
     Release (Entry i), Release First_free, Release Socket_reset]"

lemma runs_close: "runs (swrap_close_locks i) (close_trace i)"
  unfolding swrap_close_locks_def close_trace_def by (intro walk)

lemma runs_prepare: "runs swrap_thread_prepare_locks [Acquire Symbol_binding]"
  unfolding swrap_thread_prepare_locks_def swrap_bind_symbol_all_locks_def by (intro walk)

lemma runs_child: "runs swrap_thread_child_locks [Release Symbol_binding]"
  unfolding swrap_thread_child_locks_def by (rule run_unlock)

section \<open>Properties\<close>



text \<open>The child of a \<open>fork\<close> in thread \<open>t\<close>: no other thread lives on, but what they held stays locked.\<close>

definition child_of :: "nat \<Rightarrow> threads \<Rightarrow> threads" where
  "child_of t T = (\<lambda>u. if u = t then T t else (fst (T u), []))"

lemma child_stuck:
  assumes "thread_step\<^sup>*\<^sup>* (child_of t T) C" "t \<noteq> u" "m \<in> set (fst (T u))" "Acquire m \<in> set (snd (T t))"
  shows "Acquire m \<in> set (snd (C t)) \<and> (\<forall>v. v \<noteq> t \<longrightarrow> C v = (fst (T v), []))"
  using assms(1)
proof (induction rule: rtranclp_induct)
  case base
  then show ?case using assms(4) by (simp add: child_of_def)
next
  case (step C D)
  from step.hyps(2) show ?case
  proof (cases rule: thread_step.cases)
    case (step_acquire v H k ops)
    have v: "v = t" by (rule ccontr) (use step.IH step_acquire(2) in simp)
    have "C u = (fst (T u), [])" using step.IH assms(2) by simp
    then have "k \<noteq> m" using step_acquire(3) assms(3) by (metis fst_conv)
    then show ?thesis using step_acquire(1,2) step.IH by (simp add: v)
  next
    case (step_release v H k ops)
    have v: "v = t" by (rule ccontr) (use step.IH step_release(2) in simp)
    then show ?thesis using step_release(1,2) step.IH by (simp add: v)
  qed
qed

text \<open>
  (C24) The handlers of fork do not keep the child from a deadlock, though they are there for it: they
  take the mutex of symbol binding only. While one thread closes a descriptor another may pass the handlers and
  fork; the child then holds no mutex after its handler, yet no run of it comes to the end of a close.
\<close>

theorem fork_child_blocks:
  "\<exists>prepare child call other T.
     runs swrap_thread_prepare_locks prepare \<and> runs swrap_thread_child_locks child
     \<and> runs (swrap_close_locks 3) call \<and> runs (swrap_close_locks 5) other
     \<and> thread_step\<^sup>*\<^sup>* ((\<lambda>_. ([], []))(0 := ([], prepare @ child @ call), 1 := ([], other))) T
     \<and> snd (T 0) = child @ call
     \<and> (\<exists>C. thread_step\<^sup>*\<^sup>* (child_of 0 T) C \<and> fst (C 0) = [] \<and> snd (C 0) = call)
     \<and> \<not> (\<exists>C. thread_step\<^sup>*\<^sup>* (child_of 0 T) C \<and> snd (C 0) = [])"
proof -
  let ?rest = "[Release Symbol_binding] @ close_trace 3"
  define T0 :: threads where "T0 = (\<lambda>_. ([], []))(0 := ([], [Acquire Symbol_binding] @ ?rest), 1 := ([], close_trace 5))"
  define T1 where "T1 = T0(1 := ([Socket_reset], tl (close_trace 5)))"
  define T where "T = T1(0 := ([Symbol_binding], ?rest))"
  have "thread_step T0 T1" unfolding T1_def by (rule step_acquire) (auto simp: T0_def close_trace_def)
  moreover have "thread_step T1 T"
    unfolding T_def by (rule step_acquire) (auto simp: T1_def T0_def)
  ultimately have steps: "thread_step\<^sup>*\<^sup>* T0 T" by (meson converse_rtranclp_into_rtranclp r_into_rtranclp)
  have "thread_step (child_of 0 T) ((child_of 0 T)(0 := (remove1 Symbol_binding [Symbol_binding], close_trace 3)))"
    by (rule step_release) (auto simp: child_of_def T_def)
  then have free: "\<exists>C. thread_step\<^sup>*\<^sup>* (child_of 0 T) C \<and> fst (C 0) = [] \<and> snd (C 0) = close_trace 3"
    by (intro exI conjI r_into_rtranclp) auto
  have "Socket_reset \<in> set (fst (T 1))" "Acquire Socket_reset \<in> set (snd (T 0))"
    by (simp_all add: T_def T1_def close_trace_def)
  then have "\<not> (\<exists>C. thread_step\<^sup>*\<^sup>* (child_of 0 T) C \<and> snd (C 0) = [])"
    using child_stuck [of 0 T _ 1 Socket_reset] by fastforce
  then show ?thesis
    using runs_prepare runs_child runs_close steps free unfolding T0_def
    by (intro exI [of _ "[Acquire Symbol_binding]"] exI [of _ "[Release Symbol_binding]"] exI [of _ "close_trace 3"]
        exI [of _ "close_trace 5"] exI [of _ T]) (simp add: T_def)
qed

end
