(* ===== verification/Swrap_Race.thy ===== *)
theory Swrap_Race
  imports Swrap_Conn
begin

text \<open>
  A call that another thread overtakes: every call looks up the entry of its descriptor before it takes
  the mutex of the entry, and the reference count is not raised in between.
\<close>

lemma close_frees:
  assumes ok: "pool_ok st" and v: "view st s = Some idx" and only: "\<forall>g. g \<noteq> s \<longrightarrow> view st g \<noteq> Some idx"
  shows "first_free (snd (swrap_close getenv oses s rc st)) = idx"
proof -
  let ?st' = "snd (swrap_close getenv oses s rc st)"
  have f: "find_socket_info_index s st = idx" "idx \<noteq> - 1" using v by (auto simp: view_def split: if_splits)
  have i: "nat idx < nsock st" "0 \<le> idx" using view_live [OF ok v] by auto
  note d = close_drops [OF ok, of s getenv oses rc, unfolded f(1), OF f(2)]
  have "view ?st' = (view st)(s := None)" using close_laws [OF ok] by blast
  then have "\<nexists>g. view ?st' g = Some (int (nat idx))" using only i(2) by auto
  then have "refc ?st' (nat idx) = 0"
    using live_iff_view [of ?st' "nat idx"] d i(1) by (auto simp: drops_def)
  define st1 where "st1 = swrap_dec_refcount idx (reset_socket_info_index s st)"
  note rel = release_inv [OF ok f(1,2) st1_def]
  have "refc st (nat idx) = 1" using \<open>refc ?st' (nat idx) = 0\<close> d by (auto simp: drops_def)
  then have "\<not> swrap_get_refcount idx st1 > 0"
    using get_refcount_pos [OF rel(1)] rel(2) [of "nat idx"] i(1) rel(5) by simp
  then show ?thesis by (simp add: swrap_close_def Let_def f st1_def [symmetric])
qed

text \<open>The free list is a stack: the next socket gets the entry that was freed last.\<close>

lemma socket_takes_first:
  assumes ok: "pool_ok st" and dir: "socket_wrapper_dir (l_getenv e) \<noteq> None"
    and rt: "rt = code_type (ty AND NOT SOCK_CLOEXEC AND NOT SOCK_NONBLOCK)" and args: "socket_args fam rt prot"
    and c: "swrap_socket e alloc lw (Inr t) fam ty prot st = Some (Inr t, st')" and v: "view st t = None"
  shows "view st' = (view st)(t \<mapsto> first_free st)" "swrap_get_socket_info (first_free st) st' = new_socket_info fam rt prot"
    "pool_ok st'"
proof -
  have f: "find_socket_info_index t st = - 1" using v by (auto simp: view_def split: if_splits)
  have "swrap_remove_stale t st = st" by (simp add: swrap_remove_stale_def f)
  moreover have "fam \<notin> {AF_NETLINK, AF_PACKET, Unix}" using args by (auto simp: socket_args_def AF_NETLINK_def AF_PACKET_def)
  ultimately obtain idx where create: "swrap_create_socket (new_socket_info fam rt prot) t st = (Some idx, st')"
    using c args unfolding socket_wrapped [OF pool_ready [OF ok] dir rt]
    by (auto split: prod.splits option.splits)
  then have "idx = first_free st"
    by (auto simp: swrap_create_socket_def swrap_add_socket_info_def Let_def split: if_splits sum.splits)
  then show "view st' = (view st)(t \<mapsto> first_free st)" "swrap_get_socket_info (first_free st) st' = new_socket_info fam rt prot"
    "pool_ok st'"
    using create_view [OF ok v create] create_socket_spec [OF ok f, of "new_socket_info fam rt prot"] create by auto
qed

lemma bind_stores_name:
  assumes "bind_check (family si) a n = None" "n \<le> sockaddr_storage_size" "sa_port a \<noteq> 0"
  shows "myname (snd (bind_entry e a n si)) = \<lparr>sa_socklen = n, sa = memcpy_addr n a (sa (myname si))\<rparr>"
proof -
  have "myname (snd (sockaddr_convert_to_un (l_getenv e) (dir_of e) (l_stat e) True s a n)) = myname s" for s
    using assms(3) by (auto simp: sockaddr_convert_to_un_def convert_in_un_alloc_def store_bindname_def Let_def split: sum.splits)
  note kept = this
  define s1 where "s1 = si\<lparr>myname := \<lparr>sa_socklen = n, sa = memcpy_addr n a (sa (myname si))\<rparr>\<rparr>"
  obtain r s2 where r: "sockaddr_convert_to_un (l_getenv e) (dir_of e) (l_stat e) True s1 a n = (r, s2)" by fastforce
  have "myname (snd (bind_entry e a n si)) = myname s2"
    using assms(1,2) unfolding bind_entry_def s1_def [symmetric] r Let_def
    by (auto split: sum.splits)
  also have "\<dots> = myname s1" using kept [of s1] by (simp add: r)
  finally show ?thesis by (simp add: s1_def)
qed

lemma memcpy_family: "2 \<le> n \<Longrightarrow> memcpy_addr n a (zero_sockaddr\<lparr>sa_fam := f\<rparr>) = memcpy_addr n a zero_sockaddr"
  by (simp add: memcpy_addr_def addr_bytes_def drop_append)

text \<open>What \<open>swrap_dup\<close> does after libc's dup, with the entry it looked up before.\<close>

definition dup_rest :: "int \<Rightarrow> int \<Rightarrow> swrap \<Rightarrow> fault + int sysres \<times> swrap" where
  "dup_rest idx dup_fd st =
     (case set_socket_info_index dup_fd idx (swrap_remove_stale dup_fd (swrap_inc_refcount idx st)) of
        Inl f \<Rightarrow> Inl f
      | Inr st \<Rightarrow> Inr (Inr dup_fd, st))"

lemma swrap_dup_rest:
  "swrap_dup fd (Inr dup_fd) st =
     (let idx = find_socket_info_index fd st in if idx = - 1 then Inr (Inr dup_fd, st) else dup_rest idx dup_fd st)"
  by (simp add: swrap_dup_def dup_rest_def Let_def)

lemma not_found: "view st fd = None \<Longrightarrow> find_socket_info_index fd st = - 1"
  by (simp add: view_def split: if_splits)

lemma find_upd:
  "find_socket_info_index g (upd_container i f st) = find_socket_info_index g st"
  "find_socket_info_index g (st\<lparr>first_free := x\<rparr>) = find_socket_info_index g st"
  "0 \<le> d \<Longrightarrow> find_socket_info_index g (st\<lparr>fds_idx := (fds_idx st)(nat d := i)\<rparr>)
    = (if g = d \<and> ready st \<and> g < int SOCKET_FDS_MAX then i else find_socket_info_index g st)"
  by (auto simp: find_socket_info_index_def upd_container_def)

lemma dup_rest_absent:
  assumes "find_socket_info_index d st = - 1" "0 \<le> d" "d < int SOCKET_FDS_MAX"
  shows "dup_rest idx d st = Inr (Inr d, (swrap_inc_refcount idx st)\<lparr>fds_idx := (fds_idx st)(nat d := idx)\<rparr>)"
  using assms by (simp add: dup_rest_def swrap_remove_stale_def set_socket_info_index_def swrap_inc_refcount_def find_upd)
    (simp add: upd_container_def)

lemma create_any:
  assumes "first_free st = idx" "idx \<noteq> - 1" "nat idx < nsock st" "0 \<le> t" "t < int SOCKET_FDS_MAX" "ready st"
  shows "\<exists>st'. swrap_create_socket si t st = (Some idx, st') \<and> find_socket_info_index t st' = idx
    \<and> (\<forall>g. g \<noteq> t \<longrightarrow> find_socket_info_index g st' = find_socket_info_index g st) \<and> swrap_get_socket_info idx st' = si"
proof -
  define st1 where "st1 = swrap_inc_refcount idx (set_info idx si (st\<lparr>first_free := swrap_get_next_free idx st\<rparr>))"
  have "swrap_create_socket si t st = (Some idx, st1\<lparr>fds_idx := (fds_idx st1)(nat t := idx)\<rparr>)"
    using assms by (simp add: swrap_create_socket_def swrap_add_socket_info_def set_socket_info_index_def st1_def Let_def)
  moreover have "find_socket_info_index g st1 = find_socket_info_index g st" for g
    by (simp add: st1_def swrap_inc_refcount_def set_info_def find_upd)
  moreover have "ready st1 = ready st" by (simp add: st1_def swrap_inc_refcount_def set_info_def upd_container_def)
  moreover have "c_info (sockets st1 ! nat idx) = si"
    using assms(3) by (simp add: st1_def swrap_inc_refcount_def set_info_def upd_container_def nsock_def)
  ultimately show ?thesis using assms by (auto simp: find_upd swrap_get_socket_info_def)
qed

section \<open>Properties\<close>

text \<open>
  A lookup is not protected. If a thread has looked up the entry of a descriptor for bind, and before it takes
  the mutex another closes that descriptor and a third makes a new socket, then the new socket has this entry,
  and bind goes on with it: whatever libc's bind says to the closed descriptor, getsockname gives the address
  for the new socket, which nobody has bound.
\<close>

theorem overtaken_bind:
  assumes "library_run p" "view (tab p) s = Some idx" "\<forall>g. g \<noteq> s \<longrightarrow> view (tab p) g \<noteq> Some idx"
    and "socket_wrapper_dir (l_getenv e) \<noteq> None" "rt = code_type (ty AND NOT SOCK_CLOEXEC AND NOT SOCK_NONBLOCK)"
    and "socket_args fam rt prot" "view (tab p) t = None"
    and "swrap_socket e alloc lw (Inr t) fam ty prot (snd (swrap_close (l_getenv e) (l_pcap e) s rc (tab p))) = Some (Inr t, st)"
    and "exact_addr a" "sa_fam a = fam" "sa_port a \<noteq> 0"
    and "on_entry idx (\<lambda>(si, pc). let (r, si) = bind_entry e a (socket_length fam) si in (r, si, pc)) st = (r, st')"
  shows "find_socket_info_index s (tab p) = idx \<and> find_socket_info_index s st = - 1
    \<and> find_socket_info_index t st = idx \<and> swrap_get_socket_info idx st = new_socket_info fam rt prot
    \<and> swrap_getsockname t (zero_sockaddr, socket_length fam) st' = Returns (Inr (a, socket_length fam))"
proof -
  let ?st1 = "snd (swrap_close (l_getenv e) (l_pcap e) s rc (tab p))" and ?n = "socket_length fam"
  note ok = run_pool [OF assms(1)]
  have ok1: "pool_ok ?st1" and v1: "view ?st1 = (view (tab p))(s := None)" using close_laws [OF ok] by blast+
  have first: "first_free ?st1 = idx" by (rule close_frees [OF ok assms(2,3)])
  have "view ?st1 t = None" using v1 assms(7) by simp
  note new = socket_takes_first [OF ok1 assms(4-6,8) this, unfolded first]
  have fam: "fam = Inet \<or> fam = Inet6" using assms(6) by (simp add: socket_args_def)
  have n: "bind_check fam a ?n = None" "?n \<le> sockaddr_storage_size" "2 \<le> ?n" "?n \<noteq> 0"
    using fam assms(10) by (auto simp: bind_check_def socket_length_def sockaddr_storage_size_def)
  have t: "view st t = Some idx" using new(1) by simp
  have i: "nat idx < nsock st" using view_live [OF new(3) t] by simp
  have "view st s = None" using new(1) v1 assms(2,7) by (cases "s = t") auto
  moreover have m: "myname (swrap_get_socket_info idx st') = \<lparr>sa_socklen = ?n, sa = a\<rparr>"
  proof -
    have "swrap_get_socket_info idx st' = snd (bind_entry e a ?n (new_socket_info fam rt prot))"
      using assms(12) new(2) get_set_info [OF i] by (auto simp: on_entry_def Let_def split: prod.splits)
    moreover have "family (new_socket_info fam rt prot) = fam"
      "sa (myname (new_socket_info fam rt prot)) = zero_sockaddr\<lparr>sa_fam := fam\<rparr>"
      by (simp_all add: new_socket_info_def)
    ultimately show ?thesis
      using bind_stores_name [of "new_socket_info fam rt prot" a ?n e] n(1,2) assms(11) memcpy_family [OF n(3)]
        memcpy_exact [OF assms(9)] assms(10) by simp
  qed
  moreover have "view st' = view st" using assms(12) by (auto simp: on_entry_def Let_def split: prod.splits)
  moreover have f: "find_socket_info_index fd x = i" if "view x fd = Some i" for fd x i
    using that by (simp add: view_def split: if_splits)
  moreover have "find_socket_info_index s st = - 1" using \<open>view st s = None\<close> by (simp add: view_def split: if_splits)
  ultimately have st': "find_socket_info_index t st' = idx" "find_socket_info_index s st = - 1" using t by simp_all
  moreover have "idx \<noteq> - 1" using view_live [OF ok assms(2)] by auto
  ultimately show ?thesis
    using st' f [OF assms(2)] f [OF t] new(2) n(4) m memcpy_exact [OF assms(9)] assms(10)
    by (simp add: swrap_getsockname_def copy_name_def)
qed

theorem overtaken_bind_witness:
  "\<exists>p idx st st' r. library_run p \<and> view (tab p) 3 = Some idx
    \<and> swrap_socket quiet (True, True, True) (Inr 9) (Inr 4) Inet 1 0
        (snd (swrap_close (l_getenv quiet) (l_pcap quiet) 3 (Inr ()) (tab p))) = Some (Inr 4, st)
    \<and> on_entry idx (\<lambda>(si, pc). let (r, si) = bind_entry quiet (loopback 9 53) 16 si in (r, si, pc)) st = (r, st')
    \<and> swrap_getsockname 4 (zero_sockaddr, 16) st' = Returns (Inr (loopback 9 53, 16))"
proof -
  obtain p idx where p: "library_run p" "view (tab p) = [3 \<mapsto> idx]" "nsock (tab p) = 65535" using tcp_socket by blast
  note ok = run_pool [OF p(1)]
  let ?st1 = "snd (swrap_close (l_getenv quiet) (l_pcap quiet) 3 (Inr ()) (tab p))"
  have ok1: "pool_ok ?st1" and v1: "view ?st1 = Map.empty" using close_laws [OF ok] p(2) by auto
  have v3: "view (tab p) 3 = Some idx" "\<forall>g. g \<noteq> 3 \<longrightarrow> view (tab p) g \<noteq> Some idx" "view (tab p) 4 = None" using p(2) by auto
  have ty: "Stream = code_type (1 AND NOT SOCK_CLOEXEC AND NOT SOCK_NONBLOCK)" by code_simp
  have d: "socket_wrapper_dir (l_getenv quiet) \<noteq> None" by simp
  have args: "socket_args Inet Stream 0" by (simp add: socket_args_def)
  have f: "find_socket_info_index 4 ?st1 = - 1" using fun_cong [OF v1, of 4] by (simp add: view_def split: if_splits)
  then have rs: "swrap_remove_stale 4 ?st1 = ?st1" by (simp add: swrap_remove_stale_def)
  have "first_free ?st1 = idx" "idx \<noteq> - 1" using close_frees [OF ok v3(1,2)] view_live [OF ok v3(1)] by auto
  then obtain st where c: "swrap_create_socket (new_socket_info Inet Stream 0) 4 ?st1 = (Some idx, st)"
    by (auto simp: swrap_create_socket_def swrap_add_socket_info_def set_socket_info_index_def Let_def
        SOCKET_FDS_MAX_def SOCKET_WRAPPER_MAX_SOCKETS_LIMIT_def)
  have "Inet \<notin> {AF_NETLINK, AF_PACKET, Unix}" by (simp add: AF_NETLINK_def AF_PACKET_def)
  then have s: "swrap_socket quiet (True, True, True) (Inr 9) (Inr 4) Inet 1 0 ?st1 = Some (Inr 4, st)"
    unfolding socket_wrapped [OF pool_ready [OF ok1] d ty] using args by (simp add: rs c)
  obtain r st' where b: "on_entry idx (\<lambda>(si, pc). let (r, si) = bind_entry quiet (loopback 9 53) 16 si in (r, si, pc)) st = (r, st')"
    by fastforce
  have l: "exact_addr (loopback 9 53)" "sa_fam (loopback 9 53) = Inet" "sa_port (loopback 9 53) \<noteq> 0" "socket_length Inet = 16"
    by (simp add: loopback_def) (simp_all add: loopback_def socket_length_def)
  from overtaken_bind [OF p(1) v3(1,2) d ty args v3(3) s l(1-3), unfolded l(4), OF b] p(1) v3(1) s b
  show ?thesis by blast
qed

text \<open>
  (C22) Two sockets in one entry. If a thread duplicates the only descriptor of a socket and another closes that descriptor
  after libc has made the duplicate, but before the reference count is raised, then the entry goes to the free list and is in use:
  the next socket of any kind is entered there, both descriptors lead to it, and what was known of the old socket is lost.
\<close>

theorem overtaken_dup:
  assumes "library_run p" "view (tab p) fd = Some idx" "\<forall>g. g \<noteq> fd \<longrightarrow> view (tab p) g \<noteq> Some idx"
    and "socket_wrapper_dir (l_getenv e) \<noteq> None" "rt = code_type (ty AND NOT SOCK_CLOEXEC AND NOT SOCK_NONBLOCK)"
    and "socket_args fam rt prot"
    and "view (tab p) d = None" "0 \<le> d" "d < int SOCKET_FDS_MAX"
    and "t = fd \<or> view (tab p) t = None" "t \<noteq> d" "0 \<le> t" "t < int SOCKET_FDS_MAX"
    and "dup_rest idx d (snd (swrap_close (l_getenv e) (l_pcap e) fd rc (tab p))) = Inr (Inr d, st)"
    and "swrap_socket e alloc lw (Inr t) fam ty prot st = Some (r, st')"
  shows "r = Inr t \<and> find_socket_info_index t st' = idx \<and> find_socket_info_index d st' = idx
    \<and> swrap_get_socket_info idx st' = new_socket_info fam rt prot"
proof -
  let ?st1 = "snd (swrap_close (l_getenv e) (l_pcap e) fd rc (tab p))"
  note ok = run_pool [OF assms(1)]
  have ok1: "pool_ok ?st1" and v1: "view ?st1 = (view (tab p))(fd := None)" using close_laws [OF ok] by blast+
  have first: "first_free ?st1 = idx" by (rule close_frees [OF ok assms(2,3)])
  have idx: "idx \<noteq> - 1" "nat idx < nsock (tab p)" using view_live [OF ok assms(2)] by auto
  have n1: "nsock ?st1 = nsock (tab p)"
    using close_drops [OF ok, of fd "l_getenv e" "l_pcap e" rc] assms(2) by (auto simp: view_def drops_def split: if_splits)
  have "view ?st1 d = None" "view ?st1 t = None" using v1 assms(7,10) by auto
  note absent = not_found [OF this(1)] not_found [OF this(2)]
  have st: "st = (swrap_inc_refcount idx ?st1)\<lparr>fds_idx := (fds_idx ?st1)(nat d := idx)\<rparr>"
    using assms(14) dup_rest_absent [OF absent(1) assms(8,9)] by simp
  have r: "ready st" "first_free st = idx" "nsock st = nsock (tab p)"
    using pool_ready [OF ok1] first n1 by (simp_all add: st swrap_inc_refcount_def upd_container_def nsock_def)
  have inc: "fds_idx ?st1 = fds_idx (swrap_inc_refcount idx ?st1)" by (simp add: swrap_inc_refcount_def upd_container_def)
  have f: "find_socket_info_index t st = - 1" "find_socket_info_index d st = idx"
    using absent assms(8,9,11) pool_ready [OF ok1] unfolding st inc find_upd(3) [OF assms(8)]
    by (simp_all add: swrap_inc_refcount_def find_upd(1)) (simp add: upd_container_def)
  obtain st2 where c: "swrap_create_socket (new_socket_info fam rt prot) t st = (Some idx, st2)"
      "find_socket_info_index t st2 = idx" "\<forall>g. g \<noteq> t \<longrightarrow> find_socket_info_index g st2 = find_socket_info_index g st"
      "swrap_get_socket_info idx st2 = new_socket_info fam rt prot"
    using create_any [OF r(2) idx(1) _ assms(12,13) r(1)] idx(2) r(3) by metis
  have "swrap_remove_stale t st = st" by (simp add: swrap_remove_stale_def f(1))
  moreover have "fam \<notin> {AF_NETLINK, AF_PACKET, Unix}" using assms(6) by (auto simp: socket_args_def AF_NETLINK_def AF_PACKET_def)
  ultimately have "r = Inr t" "st' = st2"
    using assms(6,15) c(1) unfolding socket_wrapped [OF r(1) assms(4,5)] by auto
  then show ?thesis using c(2-4) f(2) assms(11) by auto
qed

theorem overtaken_dup_witness:
  "\<exists>p idx st st'. library_run p \<and> view (tab p) 3 = Some idx \<and> swrap_get_socket_info idx (tab p) = new_socket_info Inet Stream 0
    \<and> dup_rest idx 5 (snd (swrap_close (l_getenv quiet) (l_pcap quiet) 3 (Inr ()) (tab p))) = Inr (Inr 5, st)
    \<and> swrap_socket quiet (True, True, True) (Inr 9) (Inr 3) Inet 2 17 st = Some (Inr 3, st')
    \<and> find_socket_info_index 5 st' = idx \<and> swrap_get_socket_info idx st' = new_socket_info Inet Dgram 17"
proof -
  obtain p idx where p: "library_run p" "view (tab p) = [3 \<mapsto> idx]"
    "swrap_get_socket_info idx (tab p) = new_socket_info Inet Stream 0" using tcp_socket by blast
  note ok = run_pool [OF p(1)]
  let ?st1 = "snd (swrap_close (l_getenv quiet) (l_pcap quiet) 3 (Inr ()) (tab p))"
  have v1: "pool_ok ?st1" "view ?st1 = Map.empty" using close_laws [OF ok] p(2) by auto
  have v: "view (tab p) 3 = Some idx" "\<forall>g. g \<noteq> 3 \<longrightarrow> view (tab p) g \<noteq> Some idx" "view (tab p) 5 = None" using p(2) by auto
  have ty: "Dgram = code_type (2 AND NOT SOCK_CLOEXEC AND NOT SOCK_NONBLOCK)" by code_simp
  have d: "socket_wrapper_dir (l_getenv quiet) \<noteq> None" by simp
  have args: "socket_args Inet Dgram 17" by (simp add: socket_args_def)
  have n: "(0 :: int) \<le> 5" "(5 :: int) < int SOCKET_FDS_MAX" "(0 :: int) \<le> 3" "(3 :: int) < int SOCKET_FDS_MAX"
    by (simp_all add: SOCKET_FDS_MAX_def SOCKET_WRAPPER_MAX_SOCKETS_LIMIT_def)
  have "find_socket_info_index 5 ?st1 = - 1" using v1(2) by (intro not_found) simp
  then obtain st where st: "dup_rest idx 5 ?st1 = Inr (Inr 5, st)"
    "st = (swrap_inc_refcount idx ?st1)\<lparr>fds_idx := (fds_idx ?st1)(nat 5 := idx)\<rparr>" using dup_rest_absent n(1,2) by blast
  have rdy: "ready st" using pool_ready [OF v1(1)] by (simp add: st(2) swrap_inc_refcount_def upd_container_def)
  obtain x where "swrap_socket quiet (True, True, True) (Inr 9) (Inr 3) Inet 2 17 st = Some x"
    using socket_wrapped [OF rdy d ty, where alloc = "(True, True, True)"] by blast
  then obtain r st' where s: "swrap_socket quiet (True, True, True) (Inr 9) (Inr 3) Inet 2 17 st = Some (r, st')"
    by (cases x) simp
  have ne: "(3 :: int) = 3 \<or> view (tab p) 3 = None" "(3 :: int) \<noteq> 5" by simp_all
  note o = overtaken_dup [OF p(1) v(1,2) d ty args v(3) n(1,2) ne n(3,4) st(1) s]
  have "library_run p \<and> view (tab p) 3 = Some idx \<and> swrap_get_socket_info idx (tab p) = new_socket_info Inet Stream 0
    \<and> dup_rest idx 5 ?st1 = Inr (Inr 5, st)
    \<and> swrap_socket quiet (True, True, True) (Inr 9) (Inr 3) Inet 2 17 st = Some (Inr 3, st')
    \<and> find_socket_info_index 5 st' = idx \<and> swrap_get_socket_info idx st' = new_socket_info Inet Dgram 17"
    using o p(1,3) v(1) st(1) s by (intro conjI) simp_all
  then show ?thesis by (intro exI)
qed

end
