(* ===== verification/Swrap_Steps.thy ===== *)
theory Swrap_Steps
  imports Swrap_Conn
begin

text \<open>
  Threads that share the descriptor table. A call is no longer one step: it looks up an entry without
  a mutex, works on it in sections that hold the mutex of the entry, and between any two of these
  other threads go on; they may close the descriptor, and the entry may be given to another socket. A
  new descriptor enters the table in three or four steps. The relations follow the calls between their
  mutexes (\<open>Swrap_Lock\<close> has what each function does to these). The theorems say what holds whatever
  the interleaving, and that the calls of \<open>Swrap_Run\<close>, each in one step, are runs of this model.
\<close>

section \<open>Sections that hold the mutex of an entry\<close>

text \<open>The part of setsockopt behind the mutex, on the entry's data.\<close>

definition setsockopt_entry :: "int \<Rightarrow> int \<Rightarrow> int option \<Rightarrow> nat \<Rightarrow> socket_info \<Rightarrow> unit sysres outcome \<times> socket_info" where
  "setsockopt_entry level optname optval optlen si =
     (if level = IPPROTO_TCP \<and> optname = TCP_NODELAY then
        (case optval of None \<Rightarrow> (Returns (Inl EINVAL), si)
         | Some i \<Rightarrow> if optlen < 4 then (Returns (Inl EINVAL), si)
                     else if i \<noteq> 0 \<and> i \<noteq> 1 then (Returns (Inl EINVAL), si)
                     else (Returns (Inr ()), si\<lparr>tcp_nodelay := i\<rparr>))
      else case family si of
        Inet \<Rightarrow> (Returns (Inr ()),
          if level = IPPROTO_IP \<and> optname = IP_PKTINFO then si\<lparr>pktinfo := family_code Inet\<rparr> else si)
      | Inet6 \<Rightarrow> (Returns (Inr ()),
          if level = IPPROTO_IPV6 \<and> optname = IPV6_RECVPKTINFO then si\<lparr>pktinfo := family_code Inet6\<rparr> else si)
      | _ \<Rightarrow> (Returns (Inl ENOPROTOOPT), si))"

text \<open>
  What a thread may do to the entry \<open>idx\<close> whose mutex it holds: the whole of connect, bind, listen and
  setsockopt behind their lookup; what precedes a transfer, if the descriptor is a socket; the
  binding that shows it is none (the entry is dropped after the mutex is given back); and the packet
  dumps of ioctl, a broadcast, an accepted connection, and after a message was sent or received.
\<close>

inductive entry_section :: "int \<Rightarrow> proc \<Rightarrow> proc \<Rightarrow> bool" for idx where
  in_connect: "addr_ok a \<Longrightarrow> n \<le> sockaddr_storage_size \<Longrightarrow>
    entry_section idx p (snd (entry_at idx (connect_entry e a n) p))"
| in_listen: "entry_section idx p (snd (entry_at idx (listen_entry e ll) p))"
| in_bind: "addr_ok a \<Longrightarrow> n \<le> sockaddr_storage_size \<Longrightarrow>
    entry_section idx p (p\<lparr>tab := set_info idx (snd (bind_entry e a n (swrap_get_socket_info idx (tab p)))) (tab p)\<rparr>)"
| in_setsockopt: "entry_section idx p (p\<lparr>tab := set_info idx
      (snd (setsockopt_entry level optname optval optlen (swrap_get_socket_info idx (tab p)))) (tab p)\<rparr>)"
| in_send: "swrap_sendmsg_before e ma fd idx msg p = (b, p') \<Longrightarrow> b \<noteq> NotSocket \<Longrightarrow> entry_section idx p p'"
| in_recv: "swrap_recvmsg_before e fd idx rmsg p = (rb, p') \<Longrightarrow> rb \<noteq> NotSocket \<Longrightarrow> entry_section idx p p'"
| no_socket: "swrap_get_socket_info idx (tab p) = si \<Longrightarrow> \<not> bound si \<Longrightarrow>
    swrap_auto_bind e (family si) (autobind_start p, si) = (r, start, si') \<Longrightarrow>
    entry_section idx p (p\<lparr>autobind_start := start, tab := set_info idx si' (tab p)\<rparr>)"
| dumping: "entry_section idx p (p\<lparr>tab := dump_on getenv oses idx addr t buf n (tab p)\<rparr>)"
| accepted: "entry_section idx p (p\<lparr>tab := accept_dumps e idx peer (tab p)\<rparr>)"
| sent: "entry_section idx p (p\<lparr>tab := send_dumps e idx to ret data (tab p)\<rparr>)"
| received: "entry_section idx p (p\<lparr>tab := recv_dumps e idx fg sender ret data (tab p)\<rparr>)"

section \<open>Threads\<close>

text \<open>
  Where a thread is: outside the library; in a call that has found an entry; with a descriptor from libc
  for a new socket, before and after the stale entry of that number was removed; with a descriptor for
  an entry whose count was raised for it, before and after the removal of the stale entry.
\<close>

datatype phase =
    Outside
  | Using int
  | Made int socket_info
  | Clean int socket_info
  | Raised int int
  | Entering int int

primrec held :: "phase \<Rightarrow> int option" where
  "held Outside = None"
| "held (Using idx) = None"
| "held (Made fd si) = Some fd"
| "held (Clean fd si) = Some fd"
| "held (Raised fd idx) = Some fd"
| "held (Entering fd idx) = Some fd"

record users =
  sp :: proc
  at :: "nat \<Rightarrow> phase"

abbreviation table :: "users \<Rightarrow> swrap" where "table s \<equiv> tab (sp s)"

definition goes :: "nat \<Rightarrow> phase \<Rightarrow> swrap \<Rightarrow> users \<Rightarrow> users" where
  "goes t ph st s = s\<lparr>sp := (sp s)\<lparr>tab := st\<rparr>, at := (at s)(t := ph)\<rparr>"

text \<open>
  The descriptor that libc returns to one thread is not one that another has got and not entered yet; that would
  take a close of a descriptor that no call has returned.
\<close>

definition fresh :: "int \<Rightarrow> users \<Rightarrow> bool" where
  "fresh fd s \<longleftrightarrow> (\<forall>t. held (at s t) \<noteq> Some fd)"

text \<open>dup, and in the same way dup2 and fcntl. While the descriptor is duplicated its socket is not closed.\<close>

inductive dup_step :: "nat \<Rightarrow> users \<Rightarrow> users \<Rightarrow> bool" for t where
  dup_raises: "at s t = Using idx \<Longrightarrow> fresh d s \<Longrightarrow> 0 \<le> d \<Longrightarrow> d < int SOCKET_FDS_MAX \<Longrightarrow> refc (table s) (nat idx) \<noteq> 0 \<Longrightarrow>
    dup_step t s (goes t (Raised d idx) (swrap_inc_refcount idx (table s)) s)"
| dup_clears: "at s t = Raised d idx \<Longrightarrow> dup_step t s (goes t (Entering d idx) (swrap_remove_stale d (table s)) s)"
| dup_enters: "at s t = Entering d idx \<Longrightarrow> set_socket_info_index d idx (table s) = Inr st \<Longrightarrow>
    dup_step t s (goes t (Using idx) st s)"

text \<open>socket, after libc has made the descriptor.\<close>

inductive socket_step :: "nat \<Rightarrow> users \<Rightarrow> users \<Rightarrow> bool" for t where
  socket_made: "at s t = Outside \<Longrightarrow> fresh fd s \<Longrightarrow> socket_args fam rt prot \<Longrightarrow>
    socket_step t s (goes t (Made fd (new_socket_info fam rt prot)) (table s) s)"
| socket_clears: "at s t = Made fd si \<Longrightarrow> socket_step t s (goes t (Clean fd si) (swrap_remove_stale fd (table s)) s)"

text \<open>
  accept: the entry of the listening socket, read again once libc has returned, gives the new socket's data.
  There is no removal of a stale entry; \<open>Swrap_Conn\<close> shows what that leads to, here there is none.
\<close>

inductive accept_step :: "nat \<Rightarrow> users \<Rightarrow> users \<Rightarrow> bool" for t where
  accept_gets: "at s t = Using idx \<Longrightarrow> fresh fd s \<Longrightarrow> find_socket_info_index fd (table s) = - 1 \<Longrightarrow>
    parent = swrap_get_socket_info idx (table s) \<Longrightarrow>
    sockaddr_convert_from_un parent un un_len (family parent) room = Inr (a, n) \<Longrightarrow>
    child = child_info parent (or_zero a) n \<Longrightarrow>
    sockaddr_convert_from_un child my_un my_len (family child) sockaddr_storage_size = Inr (b, m) \<Longrightarrow>
    accept_step t s (goes t
      (Clean fd (child\<lparr>myname := \<lparr>sa_socklen = m, sa = memcpy_addr m (or_zero b) zero_sockaddr\<rparr>\<rparr>)) (table s) s)"

text \<open>\<open>swrap_create_socket\<close>, for both.\<close>

inductive create_step :: "nat \<Rightarrow> users \<Rightarrow> users \<Rightarrow> bool" for t where
  create_takes: "at s t = Clean fd si \<Longrightarrow> 0 \<le> fd \<Longrightarrow> fd < int SOCKET_FDS_MAX \<Longrightarrow>
    swrap_add_socket_info (Some si) (table s) = (Inr idx, st) \<Longrightarrow> create_step t s (goes t (Entering fd idx) st s)"
| create_fails: "at s t = Clean fd si \<Longrightarrow>
    fd < 0 \<or> int SOCKET_FDS_MAX \<le> fd \<or> first_free (table s) = - 1 \<Longrightarrow> create_step t s (goes t Outside (table s) s)"

text \<open>
  A step of thread \<open>t\<close>. close and the removal of a stale entry (which all the calls that open a
  descriptor do) hold the mutex against other removals from beginning to end and are one step each.
  The descriptor leaves the table a moment before they take the mutexes of the free list and the entry; what others
  do to the table in between commutes with that (\<open>reset_commutes\<close>), and if they look the
  descriptor up they do not find it and leave the table alone.
\<close>

inductive user_step :: "nat \<Rightarrow> users \<Rightarrow> users \<Rightarrow> bool" for t where
  finds: "at s t = Outside \<Longrightarrow> find_socket_info_index fd (table s) = idx \<Longrightarrow> idx \<noteq> - 1 \<Longrightarrow>
    user_step t s (goes t (Using idx) (table s) s)"
| works: "at s t = Using idx \<Longrightarrow> entry_section idx (sp s) p \<Longrightarrow> user_step t s (s\<lparr>sp := p\<rparr>)"
| leaves: "at s t = Using idx \<Longrightarrow> user_step t s (goes t Outside (table s) s)"
| closes: "held (at s t) = None \<Longrightarrow>
    user_step t s (s\<lparr>sp := (sp s)\<lparr>tab := snd (swrap_close getenv oses fd rc (table s))\<rparr>\<rparr>)"
| drops_stale: "held (at s t) = None \<Longrightarrow> user_step t s (s\<lparr>sp := (sp s)\<lparr>tab := swrap_remove_stale fd (table s)\<rparr>\<rparr>)"
| dups: "dup_step t s s' \<Longrightarrow> user_step t s s'"
| makes: "socket_step t s s' \<Longrightarrow> user_step t s s'"
| accepts: "accept_step t s s' \<Longrightarrow> user_step t s s'"
| creates: "create_step t s s' \<Longrightarrow> user_step t s s'"

inductive users_step :: "users \<Rightarrow> users \<Rightarrow> bool" where
  some_thread: "user_step t s s' \<Longrightarrow> users_step s s'"

inductive users_run :: "users \<Rightarrow> bool" where
  begins: "socket_wrapper_init_sockets getenv True True True swrap0 = Some st \<Longrightarrow>
    users_run \<lparr>sp = proc_start st, at = \<lambda>_. Outside\<rparr>"
| continues: "users_run s \<Longrightarrow> users_step s s' \<Longrightarrow> users_run s'"

lemma reset_commutes:
  "swrap_inc_refcount idx (reset_socket_info_index fd st) = reset_socket_info_index fd (swrap_inc_refcount idx st)"
  "set_info idx si (reset_socket_info_index fd st) = reset_socket_info_index fd (set_info idx si st)"
  "swrap_add_socket_info new (reset_socket_info_index fd st)
    = map_prod id (reset_socket_info_index fd) (swrap_add_socket_info new st)"
  "d \<noteq> fd \<Longrightarrow> 0 \<le> d \<Longrightarrow> 0 \<le> fd \<Longrightarrow> set_socket_info_index d idx (reset_socket_info_index fd st)
    = map_sum id (reset_socket_info_index fd) (set_socket_info_index d idx st)"
  by (auto simp: reset_socket_info_index_def set_socket_info_index_def swrap_inc_refcount_def set_info_def upd_container_def
      swrap_add_socket_info_def swrap_get_next_free_def Let_def fun_upd_twist nat_eq_iff2 split: option.split)

section \<open>What the sections keep\<close>

lemma set_own_info: "set_info idx (swrap_get_socket_info idx st) st = st"
proof -
  have "(sockets st)[nat idx := (sockets st ! nat idx)\<lparr>c_info := c_info (sockets st ! nat idx)\<rparr>] = sockets st"
    by (simp add: list_update_id)
  then show ?thesis by (simp add: set_info_def upd_container_def swrap_get_socket_info_def)
qed

lemma setsockopt_section:
  "swrap_setsockopt s level optname optval optlen st =
     (let idx = find_socket_info_index s st; (r, si) = setsockopt_entry level optname optval optlen (swrap_get_socket_info idx st)
      in if idx = - 1 \<or> level = SOL_SOCKET then (ToLibc, st) else (r, set_info idx si st))"
proof (cases "find_socket_info_index s st = - 1 \<or> level = SOL_SOCKET")
  case True
  then show ?thesis by (elim disjE) (simp_all add: swrap_setsockopt_def Let_def case_prod_beta)
next
  case False
  define idx si where "idx = find_socket_info_index s st" and "si = swrap_get_socket_info idx st"
  have same: "set_info idx si st = st" by (simp add: si_def set_own_info)
  show ?thesis
  proof (cases "level = IPPROTO_TCP \<and> optname = TCP_NODELAY")
    case True
    then show ?thesis
      using False same by (cases optval) (simp_all add: swrap_setsockopt_def setsockopt_entry_def Let_def case_prod_beta
        idx_def [symmetric] si_def [symmetric])
  next
    case no_delay: False
    show ?thesis
      unfolding swrap_setsockopt_def setsockopt_entry_def Let_def idx_def [symmetric] si_def [symmetric] if_not_P [OF no_delay]
      using False same by (cases "family si") (simp_all add: idx_def [symmetric])
  qed
qed

lemma setsockopt_entry_evolves: "evolves si (snd (setsockopt_entry level optname optval optlen si))"
  by (auto simp: setsockopt_entry_def evolves_def entry_ok_def split: option.split sa_family.split)

text \<open>What an entry's section does to the rest: the table and the free list stay.\<close>

definition same_links :: "swrap \<Rightarrow> swrap \<Rightarrow> bool" where
  "same_links st st' \<longleftrightarrow> fds_idx st' = fds_idx st \<and> ready st' = ready st \<and> refc st' = refc st"

lemma links_refl: "same_links st st"
  by (simp add: same_links_def)

lemma links_trans: "same_links a b \<Longrightarrow> same_links b c \<Longrightarrow> same_links a c"
  by (simp add: same_links_def)

lemma links_set: "same_links st (set_info idx si st)"
proof (cases "nat idx < nsock st")
  case True
  then show ?thesis using same_table_simps(1) [OF True, of si] by (simp add: same_links_def) (simp add: set_info_def pool_simps)
next
  case False
  then have "set_info idx si st = st" by (simp add: set_info_def upd_container_def nsock_def list_update_beyond not_less)
  then show ?thesis by (simp add: same_links_def)
qed

lemma links_pcap: "same_links st st' \<Longrightarrow> same_links st (st'\<lparr>pcap := pc\<rparr>)"
  by (simp add: same_links_def refc_def fun_eq_iff)

lemma links_dump: "same_links st (dump_on getenv oses idx a t buf n st)"
  by (simp add: dump_on_def links_pcap [OF links_set] split: prod.split)

lemma links_dump2: "same_links st st' \<Longrightarrow> same_links st (dump_on getenv oses idx a t buf n st')"
  by (rule links_trans [OF _ links_dump])

lemma links_entry: "same_links (tab p) (tab (snd (entry_at idx f p)))"
  by (simp add: entry_at_def on_entry_def links_pcap [OF links_set] split: prod.split)

lemma links_bound: "ensure_bound e fd idx p = (b, p') \<Longrightarrow> b \<noteq> NotSocket \<Longrightarrow> same_links (tab p) (tab p')"
  by (auto simp: ensure_bound_def Let_def links_refl links_set split: if_splits prod.splits sum.splits)

lemma links_send:
  assumes "swrap_sendmsg_before e ma fd idx msg p = (b, p')" "b \<noteq> NotSocket"
  shows "same_links (tab p) (tab p')"
proof (cases "sotype (swrap_get_socket_info idx (tab p))")
  case Stream
  then show ?thesis
    using assms by (auto simp: swrap_sendmsg_before_def Let_def use_mtu_def links_refl split: if_splits prod.splits)
next
  case Dgram
  obtain c p1 where c: "ensure_bound e fd idx p = (c, p1)" by fastforce
  show ?thesis
  proof (cases c)
    case (Ready u)
    then have "same_links (tab p) (tab p1)" using links_bound [OF c] by simp
    then show ?thesis
      using assms Dgram c Ready links_trans [OF _ links_set]
      by (auto simp: swrap_sendmsg_before_def Let_def links_refl split: sum.splits prod.splits)
  next
    case NotSocket
    then show ?thesis using assms Dgram c by (auto simp: swrap_sendmsg_before_def Let_def links_refl split: sum.splits)
  next
    case (Fails err)
    then show ?thesis
      using assms Dgram c links_bound [OF c] by (auto simp: swrap_sendmsg_before_def Let_def links_refl split: sum.splits)
  qed
next
  case (OtherType n)
  then show ?thesis using assms by (auto simp: swrap_sendmsg_before_def Let_def links_refl)
qed

lemma links_recv:
  assumes "swrap_recvmsg_before e fd idx msg p = (b, p')" "b \<noteq> NotSocket"
  shows "same_links (tab p) (tab p')"
proof -
  obtain c p1 where c: "ensure_bound e fd idx p = (c, p1)" by fastforce
  show ?thesis
    using assms c links_bound [OF c]
    by (auto simp: swrap_recvmsg_before_def Let_def use_mtu_def links_refl split: sock_type.splits if_splits before.splits prod.splits)
qed

lemma section_links: "entry_section idx p p' \<Longrightarrow> same_links (tab p) (tab p')"
proof (induction rule: entry_section.induct)
  case (in_send e ma fd msg p b p')
  then show ?case by (rule links_send)
next
  case (in_recv e fd rmsg p rb p')
  then show ?case by (rule links_recv)
qed (auto simp: links_entry links_set links_dump links_dump2 links_refl accept_dumps_def send_dumps_def recv_dumps_def Let_def
    split: option.split sum.split sock_type.split)

lemma section_keeps:
  assumes "entry_section idx p p'" and l: "live_at idx (tab p)"
  shows "pkeeps_at pend p p'"
  using assms
proof (induction rule: entry_section.induct)
  case (in_connect a n p e)
  then show ?case by (intro entry_at_keeps connect_entry_keeps)
next
  case (in_listen p e ll)
  then show ?case by (intro entry_at_keeps listen_entry_keeps)
next
  case (in_bind a n p e)
  then show ?case by (intro pkeeps_tab entry_keeps_set bind_entry_evolves)
next
  case (in_setsockopt p level optname optval optlen)
  then show ?case by (intro pkeeps_tab entry_keeps_set setsockopt_entry_evolves)
next
  case (in_send e ma fd msg p b p')
  then show ?case using sendmsg_before_keeps [of idx p pend e ma fd msg] by simp
next
  case (in_recv e fd rmsg p rb p')
  then show ?case using recvmsg_before_keeps [of idx p pend e fd rmsg] by simp
next
  case (no_socket p si e r start si')
  have "un_addr si = ''''" if "entry_ok si" using that no_socket.hyps(2) by (simp add: entry_ok_def)
  then have "evolves si si'" using auto_bind_keeps(1) [OF no_socket.hyps(3) _ no_socket.hyps(2)] unfolding evolves_def by blast
  then have "keeps_at pend (tab p) (set_info idx si' (tab p))" using entry_keeps_set [OF no_socket.prems] no_socket.hyps(1) by simp
  then show ?case using auto_bind_start [OF no_socket.hyps(3)] by (simp add: pkeeps_at_def proc_at_def keeps_at_def)
next
  case (dumping p getenv oses addr t buf n)
  show ?case by (rule pkeeps_tab, rule dump_keeps, rule live_in [OF dumping.prems])
next
  case (accepted p e peer)
  then show ?case by (intro pkeeps_tab accept_dumps_keep)
next
  case (sent p e to ret data)
  show ?case by (rule pkeeps_tab, rule keeps_pool, rule send_dumps_keep, rule live_in [OF sent.prems])
next
  case (received p e fg sender ret data)
  show ?case by (rule pkeeps_tab, rule keeps_pool, rule recv_dumps_keep, rule live_in [OF received.prems])
qed

section \<open>The invariant of the threads\<close>

text \<open>The descriptors whose reference is counted and that are not in the table yet.\<close>

primrec counted :: "phase \<Rightarrow> (int \<times> int) option" where
  "counted Outside = None"
| "counted (Using idx) = None"
| "counted (Made fd si) = None"
| "counted (Clean fd si) = None"
| "counted (Raised fd idx) = Some (fd, idx)"
| "counted (Entering fd idx) = Some (fd, idx)"

definition waiting :: "users \<Rightarrow> nat \<Rightarrow> nat set" where
  "waiting s i = {d. d < SOCKET_FDS_MAX \<and> (\<exists>t. counted (at s t) = Some (int d, int i))}"

definition pends :: "users \<Rightarrow> nat \<Rightarrow> nat" where
  "pends s i = card (waiting s i)"

definition known :: "swrap \<Rightarrow> int \<Rightarrow> bool" where
  "known st idx \<longleftrightarrow> 0 \<le> idx \<and> nat idx < nsock st \<and> entry_ok (info st (nat idx))"

primrec phase_ok :: "swrap \<Rightarrow> phase \<Rightarrow> bool" where
  "phase_ok st Outside \<longleftrightarrow> True"
| "phase_ok st (Using idx) \<longleftrightarrow> known st idx"
| "phase_ok st (Made fd si) \<longleftrightarrow> entry_ok si"
| "phase_ok st (Clean fd si) \<longleftrightarrow> entry_ok si \<and> find_socket_info_index fd st = - 1"
| "phase_ok st (Raised d idx) \<longleftrightarrow> known st idx \<and> 0 \<le> d \<and> d < int SOCKET_FDS_MAX"
| "phase_ok st (Entering d idx) \<longleftrightarrow> known st idx \<and> 0 \<le> d \<and> d < int SOCKET_FDS_MAX \<and> fds_idx st (nat d) = - 1"

definition users_ok :: "users \<Rightarrow> bool" where
  "users_ok s \<longleftrightarrow> proc_at (pends s) (sp s) \<and> (\<forall>t. phase_ok (table s) (at s t))
     \<and> (\<forall>t u d. held (at s t) = Some d \<longrightarrow> held (at s u) = Some d \<longrightarrow> t = u)"

lemma counted_held: "counted ph = Some (d, idx) \<Longrightarrow> held ph = Some d"
  by (cases ph) auto

lemma finite_waiting [simp]: "finite (waiting s i)"
  by (simp add: waiting_def)

lemma goes_simps [simp]:
  "table (goes t ph st s) = st" "at (goes t ph st s) = (at s)(t := ph)" "sp (goes t ph st s) = (sp s)\<lparr>tab := st\<rparr>"
  by (simp_all add: goes_def)

lemma waiting_same: "at s' = at s \<Longrightarrow> waiting s' = waiting s"
  by (simp add: waiting_def fun_eq_iff)

lemma waiting_goes: "counted ph = counted (at s t) \<Longrightarrow> waiting (goes t ph st s) = waiting s"
  by (force simp: waiting_def fun_eq_iff)

lemma ex_upd: "(\<exists>u. P ((f(t := y)) u)) \<longleftrightarrow> P y \<or> (\<exists>u. u \<noteq> t \<and> P (f u))"
  by (auto simp: fun_upd_def)

lemma ex_at: "(\<exists>u. P (f u)) \<longleftrightarrow> P (f t) \<or> (\<exists>u. u \<noteq> t \<and> P (f u))"
  by metis

lemma waiting_raise:
  assumes "counted (at s t) = None" "counted ph = Some (d, idx)" "0 \<le> d" "d < int SOCKET_FDS_MAX" "0 \<le> idx"
  shows "waiting (goes t ph st s) i = (if i = nat idx then insert (nat d) (waiting s i) else waiting s i)"
proof -
  have "(\<exists>u. counted (((at s)(t := ph)) u) = Some (int x, int i)) \<longleftrightarrow>
      int x = d \<and> int i = idx \<or> (\<exists>u. counted (at s u) = Some (int x, int i))" for x
    using ex_upd [of "\<lambda>a. counted a = Some (int x, int i)" "at s" t ph]
      ex_at [of "\<lambda>a. counted a = Some (int x, int i)" "at s" t] assms(1,2) by auto
  then have "waiting (goes t ph st s) i = {x. x < SOCKET_FDS_MAX
      \<and> (int x = d \<and> int i = idx \<or> (\<exists>u. counted (at s u) = Some (int x, int i)))}"
    by (simp only: waiting_def goes_simps)
  moreover have "int x = d \<longleftrightarrow> x = nat d" "int i = idx \<longleftrightarrow> i = nat idx" for x using assms(3,5) by auto
  moreover have "nat d < SOCKET_FDS_MAX" using assms(3,4) by (simp add: nat_less_iff)
  ultimately show ?thesis by (auto simp: waiting_def)
qed

lemma waiting_enter:
  assumes c: "counted (at s t) = Some (d, idx)" "counted ph = None" and r: "0 \<le> d" "d < int SOCKET_FDS_MAX" "0 \<le> idx"
    and one: "\<And>u. held (at s u) = Some d \<Longrightarrow> u = t"
  shows "waiting s i = (if i = nat idx then insert (nat d) (waiting (goes t ph st s) i) else waiting (goes t ph st s) i)"
    "nat d \<notin> waiting (goes t ph st s) i"
proof -
  have "(\<exists>u. counted (at s u) = Some (int x, int i)) \<longleftrightarrow>
      int x = d \<and> int i = idx \<or> (\<exists>u. counted (((at s)(t := ph)) u) = Some (int x, int i))" for x
    using ex_upd [of "\<lambda>a. counted a = Some (int x, int i)" "at s" t ph]
      ex_at [of "\<lambda>a. counted a = Some (int x, int i)" "at s" t] c by auto
  then have "waiting s i = {x. x < SOCKET_FDS_MAX
      \<and> (int x = d \<and> int i = idx \<or> (\<exists>u. counted (((at s)(t := ph)) u) = Some (int x, int i)))}"
    by (simp only: waiting_def)
  moreover have "int x = d \<longleftrightarrow> x = nat d" "int i = idx \<longleftrightarrow> i = nat idx" for x using r(1,3) by auto
  ultimately show "waiting s i = (if i = nat idx then insert (nat d) (waiting (goes t ph st s) i) else waiting (goes t ph st s) i)"
    using r(1,2) nat_less_iff [of d SOCKET_FDS_MAX] by (auto simp: waiting_def)
  have "counted (((at s)(t := ph)) u) \<noteq> Some (d, int i)" for u
    using one [of u] c(2) counted_held [of "at s u"] by auto
  then show "nat d \<notin> waiting (goes t ph st s) i" using r(1) by (simp add: waiting_def)
qed

text \<open>Steps that leave the links of the table alone or remove some.\<close>

definition shrinks :: "swrap \<Rightarrow> swrap \<Rightarrow> bool" where
  "shrinks st st' \<longleftrightarrow> (\<forall>fd. fds_idx st' fd = fds_idx st fd \<or> fds_idx st' fd = - 1)"

lemma phase_kept:
  assumes "phase_ok st ph" "shrinks st st'" "ready st" "nsock st' = nsock st" "infos_kept st st'"
  shows "phase_ok st' ph"
proof -
  have k: "known st' idx" if "known st idx" for idx using that assms(4,5) by (simp add: known_def infos_kept_def)
  have e: "fds_idx st' d = - 1" if "fds_idx st d = - 1" for d
    using that assms(2) by (metis shrinks_def)
  have f: "find_socket_info_index fd st' = - 1" if "find_socket_info_index fd st = - 1" for fd
    using that assms(3) e [of "nat fd"] by (simp add: find_socket_info_index_def split: if_splits)
  show ?thesis using assms(1) k f e by (cases ph) auto
qed

lemma shrinks_links: "same_links st st' \<Longrightarrow> shrinks st st'"
  by (simp add: same_links_def shrinks_def)

lemma shrinks_drop:
  assumes "if find_socket_info_index fd st = - 1 then st' = st else drops fd (find_socket_info_index fd st) st st'"
  shows "shrinks st st'"
  using assms by (auto simp: shrinks_def drops_def split: if_splits)

lemma shrinks_stale: "pool_inv {} pend st \<Longrightarrow> shrinks st (swrap_remove_stale fd st)"
  using remove_stale_drops [of pend st fd] by (intro shrinks_drop [of fd]) (auto simp: swrap_remove_stale_def)

lemma shrinks_close: "pool_inv {} pend st \<Longrightarrow> shrinks st (snd (swrap_close getenv oses fd rc st))"
  using close_drops [of pend st fd getenv oses rc] by (intro shrinks_drop [of fd]) (auto simp: swrap_close_def)

lemma pool_ready_at: "pool_inv out pend st \<Longrightarrow> ready st"
  by (simp add: pool_inv_def)

lemma users_pool: "users_ok s \<Longrightarrow> pool_inv {} (pends s) (table s)"
  by (simp add: users_ok_def proc_at_def tab_at_def)

lemma keeps_users:
  assumes ok: "users_ok s" and k: "pkeeps_at (pends s) (sp s) p" and sh: "shrinks (table s) (tab p)"
  shows "users_ok (s\<lparr>sp := p\<rparr>)"
proof -
  have "pends (s\<lparr>sp := p\<rparr>) = pends s" by (simp add: pends_def waiting_def fun_eq_iff)
  moreover have "phase_ok (tab p) ph" if "phase_ok (table s) ph" for ph
    using phase_kept [OF that sh pool_ready_at [OF users_pool [OF ok]]] ok k by (simp add: users_ok_def pkeeps_at_def)
  ultimately show ?thesis using ok k by (simp add: users_ok_def pkeeps_at_def)
qed

text \<open>A thread goes on to another phase.\<close>

lemma goes_users:
  assumes ok: "users_ok s" and p: "proc_at (pends (goes t ph st s)) ((sp s)\<lparr>tab := st\<rparr>)"
    and ph: "phase_ok st ph" and others: "\<And>u. u \<noteq> t \<Longrightarrow> phase_ok st (at s u)"
    and h: "held ph = None \<or> held ph = held (at s t) \<or> (\<exists>d. held ph = Some d \<and> fresh d s)"
  shows "users_ok (goes t ph st s)"
proof -
  have one: "u = v" if "held (at s u) = Some d" "held (at s v) = Some d" for u v d
    using ok that by (auto simp: users_ok_def)
  have "u = v" if hu: "held (((at s)(t := ph)) u) = Some d" and hv: "held (((at s)(t := ph)) v) = Some d" for u v d
  proof (cases "u = t \<longleftrightarrow> v = t")
    case True
    then show ?thesis using hu hv one by (cases "u = t") auto
  next
    case False
    then obtain w where w: "w \<noteq> t" "held (at s w) = Some d" "held ph = Some d" "u = t \<or> v = t"
      using hu hv by (cases "u = t") auto
    have "held (at s t) \<noteq> Some d" using one [of w d t] w(1,2) by blast
    moreover have "\<not> fresh d s" using w(2) by (auto simp: fresh_def)
    ultimately show ?thesis using h w(3) by auto
  qed
  moreover have "phase_ok st (((at s)(t := ph)) u)" for u using ph others by (cases "u = t") simp_all
  moreover have "tab ((sp s)\<lparr>tab := st\<rparr>) = st" by simp
  ultimately show ?thesis unfolding users_ok_def goes_simps using p by metis
qed

lemma moves_on:
  assumes ok: "users_ok s" and k: "keeps_at (pends s) (table s) st" and sh: "shrinks (table s) st"
    and c: "counted ph = counted (at s t)" and ph: "phase_ok st ph"
    and h: "held ph = None \<or> held ph = held (at s t) \<or> (\<exists>d. held ph = Some d \<and> fresh d s)"
  shows "users_ok (goes t ph st s)"
proof (rule goes_users [OF ok _ ph _ h])
  have p: "proc_at (pends s) (sp s)" using ok by (simp add: users_ok_def)
  have "pends (goes t ph st s) = pends s" by (simp add: pends_def waiting_goes [OF c] fun_eq_iff)
  then show "proc_at (pends (goes t ph st s)) ((sp s)\<lparr>tab := st\<rparr>)"
    using p pkeeps_tab [OF k] by (simp add: pkeeps_at_def)
  show "phase_ok st (at s u)" for u
    using ok k p pool_ready_at [OF users_pool [OF ok]]
    by (intro phase_kept [OF _ sh]) (auto simp: users_ok_def keeps_at_def proc_at_def)
qed

lemma known_found:
  assumes ok: "users_ok s" and f: "find_socket_info_index fd (table s) = idx" "idx \<noteq> - 1"
  shows "known (table s) idx" "refc (table s) (nat idx) \<noteq> 0"
proof -
  note i = find_index [OF users_pool [OF ok] f]
  have "card (owners (table s) (nat idx)) \<noteq> 0" using i(6) by auto
  then show r: "refc (table s) (nat idx) \<noteq> 0" using users_pool [OF ok] i(5) by (simp add: pool_inv_def)
  then show "known (table s) idx" using ok i by (simp add: known_def users_ok_def proc_at_def tab_at_def entries_ok_def)
qed

section \<open>Every step keeps it\<close>

lemma dup_raises_ok:
  assumes ok: "users_ok s" and t: "at s t = Using idx" and d: "fresh d s" "0 \<le> d" "d < int SOCKET_FDS_MAX"
    and used: "refc (table s) (nat idx) \<noteq> 0"
  shows "users_ok (goes t (Raised d idx) (swrap_inc_refcount idx (table s)) s)"
proof (rule goes_users [OF ok])
  let ?st = "swrap_inc_refcount idx (table s)" and ?s = "goes t (Raised d idx) (swrap_inc_refcount idx (table s)) s"
  have k: "known (table s) idx" using ok t by (metis phase_ok.simps(2) users_ok_def)
  then have i: "0 \<le> idx" "nat idx < nsock (table s)" by (simp_all add: known_def)
  note pool = users_pool [OF ok]
  note inc = inc_simps [OF i(2) refcount_room [OF pool i(2)]]
  have new: "nat d \<notin> waiting s j" for j using d(1,2) counted_held by (fastforce simp: waiting_def fresh_def)
  have "waiting ?s j = (if j = nat idx then insert (nat d) (waiting s j) else waiting s j)" for j
    using t d(2,3) i(1) by (intro waiting_raise) simp_all
  then have "pends ?s j = (if j = nat idx then pends s j + 1 else pends s j)" for j
    by (simp add: pends_def new)
  then have p: "pends ?s = (pends s)(nat idx := pends s (nat idx) + 1)" by (simp add: fun_eq_iff)
  have "waiting s (nat idx) \<subset> {..<SOCKET_FDS_MAX}"
  proof
    show "waiting s (nat idx) \<subseteq> {..<SOCKET_FDS_MAX}" by (auto simp: waiting_def)
    show "waiting s (nat idx) \<noteq> {..<SOCKET_FDS_MAX}"
      using new [of "nat idx"] d(2,3) nat_less_iff [of d SOCKET_FDS_MAX] by auto
  qed
  then have "pends s (nat idx) < card {..<SOCKET_FDS_MAX}" unfolding pends_def by (intro psubset_card_mono) simp_all
  then have inv: "pool_inv {} (pends ?s) ?st" using inc_inv [OF pool i(2)] used by (simp add: p)
  have e: "entries_ok ?st"
    using ok used by (auto simp: entries_ok_def inc info_simps users_ok_def proc_at_def tab_at_def)
  show "proc_at (pends ?s) ((sp s)\<lparr>tab := ?st\<rparr>)"
    using ok inv e by (simp add: users_ok_def proc_at_def tab_at_def)
  have kn: "known ?st x = known (table s) x" for x by (simp add: known_def info_simps inc)
  have "phase_ok ?st ph = phase_ok (table s) ph" for ph
    by (cases ph) (simp_all add: kn, simp_all add: swrap_inc_refcount_def upd_container_def find_socket_info_index_def)
  then show "phase_ok ?st (at s u)" for u using ok by (simp add: users_ok_def)
  show "phase_ok ?st (Raised d idx)" using k d by (simp add: kn)
  show "held (Raised d idx) = None \<or> held (Raised d idx) = held (at s t) \<or> (\<exists>e. held (Raised d idx) = Some e \<and> fresh e s)"
    using d(1) by simp
qed

lemma enters_ok:
  assumes ok: "users_ok s" and t: "at s t = Entering d idx" and set: "set_socket_info_index d idx (table s) = Inr st"
  shows "users_ok (goes t (Using idx) st s)"
proof (rule goes_users [OF ok])
  let ?s = "goes t (Using idx) st s"
  have k: "known (table s) idx" "0 \<le> d" "d < int SOCKET_FDS_MAX" "fds_idx (table s) (nat d) = - 1"
    using ok t by (metis phase_ok.simps(6) users_ok_def)+
  then have i: "0 \<le> idx" "nat idx < nsock (table s)" by (simp_all add: known_def)
  have st: "st = (table s)\<lparr>fds_idx := (fds_idx (table s))(nat d := idx)\<rparr>"
    using set by (auto simp: set_socket_info_index_def split: if_splits)
  have one: "u = t" if "held (at s u) = Some d" for u
    using ok t that by (metis held.simps(6) users_ok_def)
  have "pends s j = (if j = nat idx then pends ?s j + 1 else pends ?s j)" for j
    using waiting_enter [where s = s and t = t and d = d and idx = idx and ph = "Using idx" and i = j and st = st] k(2,3) i(1) one t
    by (cases "j = nat idx") (simp_all add: pends_def)
  then have p: "pends s = (pends ?s)(nat idx := pends ?s (nat idx) + 1)" by (simp add: fun_eq_iff)
  then have "pool_inv {} ((pends ?s)(nat idx := pends ?s (nat idx) + 1)) (table s)" using users_pool [OF ok] by simp
  from enter_inv [OF this i k(4) set] have inv: "pool_inv {} (pends ?s) st" .
  have same: "nsock st = nsock (table s)" "refc st = refc (table s)" "info st = info (table s)"
    by (simp_all add: st nsock_def refc_def info_def fun_eq_iff)
  have kn: "known st x = known (table s) x" for x by (simp add: known_def same)
  have links: "fds_idx st = (fds_idx (table s))(nat d := idx)" "ready st = ready (table s)" by (simp_all add: st)
  have "entries_ok st" using ok by (simp add: entries_ok_def same users_ok_def proc_at_def tab_at_def)
  then show "proc_at (pends ?s) ((sp s)\<lparr>tab := st\<rparr>)"
    using ok inv by (simp add: users_ok_def proc_at_def tab_at_def)
  show "phase_ok st (Using idx)" using k(1) by (simp add: kn)
  show "phase_ok st (at s u)" if u: "u \<noteq> t" for u
  proof -
    have "held (at s u) \<noteq> Some d" using one u by blast
    moreover have "phase_ok (table s) (at s u)" using ok by (simp add: users_ok_def)
    ultimately show ?thesis
      by (cases "at s u") (use k(2) in \<open>auto simp: kn links find_socket_info_index_def nat_eq_iff split: if_splits\<close>)
  qed
  show "held (Using idx) = None \<or> held (Using idx) = held (at s t) \<or> (\<exists>d. held (Using idx) = Some d \<and> fresh d s)"
    by simp
qed

lemma takes_ok:
  assumes ok: "users_ok s" and t: "at s t = Clean fd si" and fd: "0 \<le> fd" "fd < int SOCKET_FDS_MAX"
    and add: "swrap_add_socket_info (Some si) (table s) = (Inr idx, st)"
  shows "users_ok (goes t (Entering fd idx) st s)" "refc (table s) (nat idx) = 0" "0 \<le> idx" "nat idx < nsock (table s)"
proof -
  let ?s = "goes t (Entering fd idx) st s"
  have si: "entry_ok si" "find_socket_info_index fd (table s) = - 1"
    using ok t by (metis phase_ok.simps(4) users_ok_def)+
  note pool = users_pool [OF ok]
  have ff: "first_free (table s) \<noteq> - 1" "idx = first_free (table s)"
    using add by (auto simp: swrap_add_socket_info_def Let_def split: if_splits)
  note tk = take_inv [OF pool ff(1) refl, folded ff(2)]
  show r: "refc (table s) (nat idx) = 0" and i: "0 \<le> idx" "nat idx < nsock (table s)" using tk by blast+
  have a: "pool_inv {} ((pends s)(nat idx := 1)) st" "nsock st = nsock (table s)" "fds_idx st = fds_idx (table s)"
    "refc st = (refc (table s))(nat idx := 1)" "swrap_get_socket_info idx st = si"
    using add_inv [OF pool ff(1), of si, folded ff(2)] add by auto
  have "pends s (nat idx) = 0" using pool r i(2) by (auto simp: pool_inv_def)
  then have none: "waiting s (nat idx) = {}" by (simp add: pends_def)
  have w: "waiting ?s j = (if j = nat idx then insert (nat fd) (waiting s j) else waiting s j)" for j
    using t fd i(1) by (intro waiting_raise) simp_all
  have p: "pends ?s = (pends s)(nat idx := 1)" by (simp add: pends_def w none fun_eq_iff)
  have inf: "info st j = (if j = nat idx then si else info (table s) j)" for j
  proof (cases "j = nat idx")
    case True
    then show ?thesis using a(5) by (simp add: info_def swrap_get_socket_info_def)
  next
    case False
    then have "info (set_info idx si x) j = info x j" for x by (simp add: info_def set_info_def upd_container_def)
    then show ?thesis
      using False add by (auto simp: swrap_add_socket_info_def Let_def info_simps split: if_splits)
  qed
  have ready: "ready st" "ready (table s)" using a(1) pool by (simp_all add: pool_ready_at)
  show "users_ok ?s"
  proof (rule goes_users [OF ok])
    have "entries_ok st"
      using ok si(1) by (auto simp: entries_ok_def a(2,4) inf users_ok_def proc_at_def tab_at_def)
    then show "proc_at (pends ?s) ((sp s)\<lparr>tab := st\<rparr>)"
      using ok a(1) by (simp add: p users_ok_def proc_at_def tab_at_def)
    have k: "known st x" if "known (table s) x" for x using that si(1) by (simp add: known_def a(2) inf)
    show "phase_ok st (Entering fd idx)"
      using i fd si ready by (simp add: known_def a(2,3) inf find_socket_info_index_def)
    have "phase_ok st ph" if "phase_ok (table s) ph" for ph
      using that k ready by (cases ph) (auto simp: a(3) find_socket_info_index_def split: if_splits)
    then show "phase_ok st (at s u)" for u using ok by (simp add: users_ok_def)
    show "held (Entering fd idx) = None \<or> held (Entering fd idx) = held (at s t)
      \<or> (\<exists>d. held (Entering fd idx) = Some d \<and> fresh d s)" using t by simp
  qed
qed

lemma live_known: "known st idx \<Longrightarrow> live_at idx st"
  by (simp add: known_def live_at_def)

lemma stale_gone:
  assumes "pool_inv {} pend st"
  shows "find_socket_info_index fd (swrap_remove_stale fd st) = - 1"
    "0 \<le> fd \<Longrightarrow> fd < int SOCKET_FDS_MAX \<Longrightarrow> fds_idx (swrap_remove_stale fd st) (nat fd) = - 1"
proof -
  have e: "fds_idx (swrap_remove_stale fd st) (nat fd) = - 1" if "0 \<le> fd" "fd < int SOCKET_FDS_MAX"
  proof (cases "find_socket_info_index fd st = - 1")
    case True
    then show ?thesis
      using that pool_ready_at [OF assms] by (simp add: swrap_remove_stale_def) (simp add: find_socket_info_index_def)
  next
    case False
    then show ?thesis using remove_stale_drops [OF assms False] by (simp add: drops_def)
  qed
  then show "find_socket_info_index fd (swrap_remove_stale fd st) = - 1"
    by (simp add: find_socket_info_index_def)
  show "0 \<le> fd \<Longrightarrow> fd < int SOCKET_FDS_MAX \<Longrightarrow> fds_idx (swrap_remove_stale fd st) (nat fd) = - 1" by (rule e)
qed

lemma shrinks_refl [simp]: "shrinks st st"
  by (simp add: shrinks_def)

lemma phase_at: "users_ok s \<Longrightarrow> at s t = ph \<Longrightarrow> phase_ok (table s) ph"
  by (auto simp: users_ok_def)

lemma dup_step_ok: "dup_step t s s' \<Longrightarrow> users_ok s \<Longrightarrow> users_ok s'"
proof (induction rule: dup_step.induct)
  case (dup_raises s idx d)
  then show ?case by (intro dup_raises_ok)
next
  case (dup_clears s d idx)
  note pool = users_pool [OF dup_clears.prems]
  have ph: "phase_ok (table s) (Raised d idx)" using phase_at [OF dup_clears.prems dup_clears.hyps] .
  have k: "keeps_at (pends s) (table s) (swrap_remove_stale d (table s))" by (rule stale_keeps)
  have "phase_ok (swrap_remove_stale d (table s)) (Raised d idx)"
    by (rule phase_kept [OF ph shrinks_stale [OF pool] pool_ready_at [OF pool]])
      (use k dup_clears.prems in \<open>auto simp: keeps_at_def users_ok_def proc_at_def\<close>)
  then have "phase_ok (swrap_remove_stale d (table s)) (Entering d idx)" using stale_gone(2) [OF pool, of d] by simp
  then show ?case using dup_clears by (intro moves_on [OF _ k shrinks_stale [OF pool]]) simp_all
next
  case (dup_enters s d idx st)
  then show ?case by (intro enters_ok)
qed

lemma socket_step_ok: "socket_step t s s' \<Longrightarrow> users_ok s \<Longrightarrow> users_ok s'"
proof (induction rule: socket_step.induct)
  case (socket_made s fd fam rt prot)
  have "entry_ok (new_socket_info fam rt prot)"
    using socket_made.hyps(3) by (intro new_socket_ok) (auto simp: socket_args_def)
  then show ?case using socket_made by (intro moves_on) (simp_all add: keeping)
next
  case (socket_clears s fd si)
  note pool = users_pool [OF socket_clears.prems]
  have "entry_ok si" using phase_at [OF socket_clears.prems socket_clears.hyps] by simp
  then show ?case
    using socket_clears stale_gone(1) [OF pool, of fd] by (intro moves_on [OF _ stale_keeps shrinks_stale [OF pool]]) simp_all
qed

lemma accept_step_ok: "accept_step t s s' \<Longrightarrow> users_ok s \<Longrightarrow> users_ok s'"
proof (induction rule: accept_step.induct)
  case (accept_gets s idx fd parent un un_len room a n child my_un my_len b m)
  have "known (table s) idx" using phase_at [OF accept_gets.prems accept_gets.hyps(1)] by simp
  then have "entry_ok parent" by (simp add: known_def info_def accept_gets.hyps(4) swrap_get_socket_info_def)
  then have "entry_ok (child\<lparr>myname := \<lparr>sa_socklen = m, sa = memcpy_addr m (or_zero b) zero_sockaddr\<rparr>\<rparr>)"
    unfolding accept_gets.hyps(6)
    by (rule child_ok) (use converted_ok [OF accept_gets.hyps(5)] converted_ok [OF accept_gets.hyps(7)] in auto)
  then show ?case using accept_gets by (intro moves_on) (simp_all add: keeping)
qed

lemma create_step_ok: "create_step t s s' \<Longrightarrow> users_ok s \<Longrightarrow> users_ok s'"
proof (induction rule: create_step.induct)
  case (create_takes s fd si idx st)
  then show ?case by (intro takes_ok(1))
next
  case (create_fails s fd si)
  then show ?case by (intro moves_on) (simp_all add: keeping)
qed

lemma user_step_ok: "user_step t s s' \<Longrightarrow> users_ok s \<Longrightarrow> users_ok s'"
proof (induction rule: user_step.induct)
  case (finds s fd idx)
  then show ?case using known_found(1) [OF finds.prems finds.hyps(2,3)] by (intro moves_on) (simp_all add: keeping)
next
  case (works s idx p)
  have "known (table s) idx" using phase_at [OF works.prems works.hyps(1)] by simp
  then show ?case
    by (intro keeps_users [OF works.prems section_keeps [OF works.hyps(2) live_known] shrinks_links [OF section_links [OF works.hyps(2)]]])
next
  case (leaves s idx)
  then show ?case by (intro moves_on) (simp_all add: keeping)
next
  case (closes s getenv oses fd rc)
  then show ?case
    using shrinks_close [OF users_pool [OF closes.prems]] by (intro keeps_users pkeeps_tab close_keeps) simp_all
next
  case (drops_stale s fd)
  then show ?case
    using shrinks_stale [OF users_pool [OF drops_stale.prems]] by (intro keeps_users pkeeps_tab stale_keeps) simp_all
qed (auto intro: dup_step_ok socket_step_ok accept_step_ok create_step_ok)

lemma no_one_pends: "\<forall>t. counted (at s t) = None \<Longrightarrow> pends s = (\<lambda>_. 0)"
  by (simp add: pends_def waiting_def fun_eq_iff)

lemma users_run_ok: "users_run s \<Longrightarrow> users_ok s"
proof (induction rule: users_run.induct)
  case (begins getenv st)
  have "proc_ok (proc_start st)" using library_run_ok [OF run_start [OF begins]] .
  then show ?case by (simp add: users_ok_def no_one_pends)
next
  case (continues s s')
  then show ?case using user_step_ok by (auto elim: users_step.cases)
qed

lemma view_owners:
  assumes "pool_inv {} pend st"
  shows "{fd. view st fd = Some (int i)} = int ` owners st i"
proof -
  have "view st fd = Some (int i) \<longleftrightarrow> fd \<in> int ` owners st i" for fd
  proof (cases fd)
    case (nonneg n)
    have "fd \<in> int ` owners st i \<longleftrightarrow> n \<in> owners st i" using nonneg by (simp add: inj_image_mem_iff)
    then show ?thesis
      using nonneg pool_ready_at [OF assms] by (auto simp: view_def find_socket_info_index_def owners_def)
  next
    case (neg n)
    then show ?thesis by (auto simp: view_def find_socket_info_index_def)
  qed
  then show ?thesis by blast
qed

section \<open>The calls as steps of one thread\<close>

text \<open>States with one thread in a call, or none.\<close>

definition idle :: "proc \<Rightarrow> users" where
  "idle p = \<lparr>sp = p, at = \<lambda>_. Outside\<rparr>"

definition in_phase :: "phase \<Rightarrow> proc \<Rightarrow> users" where
  "in_phase ph p = \<lparr>sp = p, at = (\<lambda>_. Outside)(0 := ph)\<rparr>"

abbreviation becomes :: "users \<Rightarrow> users \<Rightarrow> bool" where "becomes \<equiv> users_step\<^sup>*\<^sup>*"

lemma in_phase_simps [simp]:
  "sp (idle p) = p" "at (idle p) t = Outside" "sp (in_phase ph p) = p" "at (in_phase ph p) 0 = ph"
  "goes 0 ph st (idle p) = in_phase ph (p\<lparr>tab := st\<rparr>)" "goes 0 ph' st (in_phase ph p) = in_phase ph' (p\<lparr>tab := st\<rparr>)"
  "in_phase Outside p = idle p" "(in_phase ph p)\<lparr>sp := q\<rparr> = in_phase ph q" "(idle p)\<lparr>sp := q\<rparr> = idle q"
  "fresh fd (idle p)" "fresh fd (in_phase (Using idx) p)"
  by (auto simp: idle_def in_phase_def goes_def fresh_def fun_eq_iff)

text \<open>What a thread does in a call on an entry, sections and the removal of stale entries.\<close>

inductive inside :: "int \<Rightarrow> proc \<Rightarrow> proc \<Rightarrow> bool" for idx where
  sec: "entry_section idx p p' \<Longrightarrow> inside idx p p'"
| stale: "inside idx p (p\<lparr>tab := swrap_remove_stale fd (tab p)\<rparr>)"
| close: "inside idx p (p\<lparr>tab := snd (swrap_close getenv oses fd rc (tab p))\<rparr>)"

lemma step: "user_step t s s' \<Longrightarrow> becomes s s'"
  by (intro r_into_rtranclp some_thread)

lemma inside_step: "inside idx p p' \<Longrightarrow> becomes (in_phase (Using idx) p) (in_phase (Using idx) p')"
proof (induction rule: inside.induct)
  case (sec p p')
  then show ?case using step [OF works [of "in_phase (Using idx) p" 0 idx p']] by simp
next
  case (stale p fd)
  show ?case using step [OF drops_stale [of "in_phase (Using idx) p" 0 fd]] by simp
next
  case (close p getenv oses fd rc)
  show ?case using step [OF closes [of "in_phase (Using idx) p" 0 getenv oses fd rc]] by simp
qed

lemma inside_steps: "(inside idx)\<^sup>*\<^sup>* p p' \<Longrightarrow> becomes (in_phase (Using idx) p) (in_phase (Using idx) p')"
  by (induction rule: rtranclp_induct) (auto intro: rtranclp_trans inside_step)

lemma enter_call:
  "find_socket_info_index fd (tab p) = idx \<Longrightarrow> idx \<noteq> - 1 \<Longrightarrow> becomes (idle p) (in_phase (Using idx) p)"
  using step [OF finds [of "idle p" 0 fd idx]] by simp

lemma leave_call: "becomes (in_phase (Using idx) p) (idle p)"
  using step [OF leaves [of "in_phase (Using idx) p" 0 idx]] by simp

lemma call_on_entry:
  assumes "find_socket_info_index fd (tab p) = idx" "idx \<noteq> - 1" "(inside idx)\<^sup>*\<^sup>* p p'"
  shows "becomes (idle p) (idle p')"
  using enter_call [OF assms(1,2)] inside_steps [OF assms(3)] leave_call by (meson rtranclp_trans)

lemma one_section:
  "find_socket_info_index fd (tab p) = idx \<Longrightarrow> idx \<noteq> - 1 \<Longrightarrow> entry_section idx p p' \<Longrightarrow> becomes (idle p) (idle p')"
  by (rule call_on_entry, assumption, assumption, rule r_into_rtranclp, rule sec)

lemma stale_call: "becomes (idle p) (idle (p\<lparr>tab := swrap_remove_stale fd (tab p)\<rparr>))"
  using step [OF drops_stale [of "idle p" 0 fd]] by simp

lemma close_call: "becomes (idle p) (idle (p\<lparr>tab := snd (swrap_close getenv oses fd rc (tab p))\<rparr>))"
  using step [OF closes [of "idle p" 0 getenv oses fd rc]] by simp

text \<open>Calls with one section.\<close>

lemma entry_call_steps:
  assumes "\<And>q. entry_section (find_socket_info_index s (tab p)) p (snd (entry_at (find_socket_info_index s (tab p)) f p))"
  shows "becomes (idle p) (idle (snd (entry_call s f p)))"
  using call_on_entry [of s p _ "snd (entry_at (find_socket_info_index s (tab p)) f p)"] assms
  by (cases "find_socket_info_index s (tab p) = - 1") (auto simp: entry_call_found Let_def intro: sec)

lemma bind_steps:
  assumes "addr_ok a" "n \<le> sockaddr_storage_size"
  shows "becomes (idle p) (idle (snd (swrap_bind e s a n p)))"
proof (cases "find_socket_info_index s (tab p) = - 1")
  case True
  then show ?thesis by (simp add: swrap_bind_def)
next
  case False
  define idx where "idx = find_socket_info_index s (tab p)"
  define si where "si = snd (bind_entry e a n (swrap_get_socket_info idx (tab p)))"
  have "(set_info idx si (tab p))\<lparr>pcap := pcap (tab p)\<rparr> = set_info idx si (tab p)"
    by (simp add: set_info_def upd_container_def)
  then have "snd (swrap_bind e s a n p) = p\<lparr>tab := set_info idx si (tab p)\<rparr>"
    using False by (simp add: swrap_bind_def on_entry_def Let_def case_prod_beta idx_def [symmetric] si_def)
  then show ?thesis
    using one_section [OF idx_def [symmetric] _ in_bind [OF assms]] False
    by (simp add: idx_def [symmetric] si_def)
qed

lemma setsockopt_steps: "becomes (idle p) (idle (p\<lparr>tab := snd (swrap_setsockopt s level optname optval optlen (tab p))\<rparr>))"
proof (cases "find_socket_info_index s (tab p) = - 1 \<or> level = SOL_SOCKET")
  case True
  then show ?thesis by (elim disjE) (simp_all add: setsockopt_section Let_def case_prod_beta)
next
  case False
  define idx where "idx = find_socket_info_index s (tab p)"
  from False show ?thesis
    using one_section [OF idx_def [symmetric] _ in_setsockopt]
    by (simp add: setsockopt_section Let_def case_prod_beta idx_def [symmetric])
qed

lemma ioctl_steps: "becomes (idle p) (idle (p\<lparr>tab := snd (swrap_vioctl e rc v s req (tab p))\<rparr>))"
proof (cases "find_socket_info_index s (tab p) = - 1")
  case True
  then show ?thesis by (simp add: swrap_vioctl_def)
next
  case False
  then show ?thesis
    using one_section [OF refl False dumping] by (simp add: swrap_vioctl_def Let_def)
qed

text \<open>Transfers: before, and after.\<close>

lemma bound_inside:
  assumes "ensure_bound e fd idx p = (NotSocket, p')"
  shows "(inside idx)\<^sup>*\<^sup>* p p'"
proof -
  define si where "si = swrap_get_socket_info idx (tab p)"
  obtain r start si' where b: "swrap_auto_bind e (family si) (autobind_start p, si) = (r, start, si')" by (metis prod_cases3)
  define p1 where "p1 = p\<lparr>autobind_start := start, tab := set_info idx si' (tab p)\<rparr>"
  have nb: "\<not> bound si" using assms by (auto simp: ensure_bound_def si_def split: if_splits)
  have "p' = p1\<lparr>tab := swrap_remove_stale fd (tab p1)\<rparr>"
    using assms nb b by (auto simp: ensure_bound_def si_def [symmetric] p1_def Let_def split: sum.splits if_splits)
  moreover have "inside idx p p1" unfolding p1_def by (rule sec, rule no_socket [OF si_def [symmetric] nb b])
  ultimately show ?thesis using stale [of idx p1 fd] by (meson rtranclp.rtrancl_refl rtranclp.rtrancl_into_rtrancl)
qed

lemma send_before_inside:
  assumes "swrap_sendmsg_before e ma fd idx msg p = (b, p')"
  shows "(inside idx)\<^sup>*\<^sup>* p p'"
proof (cases b)
  case NotSocket
  obtain c p1 where c: "ensure_bound e fd idx p = (c, p1)" by fastforce
  have "c = NotSocket \<and> p1 = p'"
  proof (cases "sotype (swrap_get_socket_info idx (tab p))")
    case Stream
    then show ?thesis using assms NotSocket by (auto simp: swrap_sendmsg_before_def Let_def split: if_splits prod.splits sum.splits)
  next
    case Dgram
    then show ?thesis using assms NotSocket c
      by (cases c) (simp_all add: swrap_sendmsg_before_def Let_def split: sum.splits prod.splits)
  next
    case (OtherType n)
    then show ?thesis using assms NotSocket by (simp add: swrap_sendmsg_before_def Let_def)
  qed
  then show ?thesis using bound_inside [of e fd idx p p1] c by simp
next
  case (Ready u)
  then show ?thesis by (intro r_into_rtranclp sec in_send [OF assms]) simp
next
  case (Fails err)
  then show ?thesis by (intro r_into_rtranclp sec in_send [OF assms]) simp
qed

lemma recv_before_inside:
  assumes "swrap_recvmsg_before e fd idx msg p = (b, p')"
  shows "(inside idx)\<^sup>*\<^sup>* p p'"
proof (cases b)
  case NotSocket
  obtain c p1 where c: "ensure_bound e fd idx p = (c, p1)" by fastforce
  have "c = NotSocket \<and> p1 = p'"
  proof (cases "sotype (swrap_get_socket_info idx (tab p))")
    case Stream
    then show ?thesis using assms NotSocket by (simp add: swrap_recvmsg_before_def Let_def split: if_splits prod.splits)
  next
    case Dgram
    then show ?thesis using assms NotSocket c
      by (cases c) (simp_all add: swrap_recvmsg_before_def Let_def split: if_splits)
  next
    case (OtherType n)
    then show ?thesis using assms NotSocket by (simp add: swrap_recvmsg_before_def Let_def)
  qed
  then show ?thesis using bound_inside [of e fd idx p p1] c by simp
next
  case (Ready u)
  then show ?thesis by (intro r_into_rtranclp sec in_recv [OF assms]) simp
next
  case (Fails err)
  then show ?thesis by (intro r_into_rtranclp sec in_recv [OF assms]) simp
qed

lemma drop_inside: "(inside idx)\<^sup>*\<^sup>* p (p\<lparr>tab := drop_stale fd ret (tab p)\<rparr>)"
proof (cases "ret = Inl ENOTSOCK")
  case True
  then show ?thesis using stale [of idx p fd] by (simp add: drop_stale_def r_into_rtranclp)
next
  case False
  then have "drop_stale fd ret (tab p) = tab p" by (simp add: drop_stale_def split: sum.split errno.split)
  then show ?thesis by simp
qed

text \<open>What follows a transfer: a stale entry may go, then one dump may be written.\<close>

lemma then_dump:
  assumes "\<And>q. inside idx q (q\<lparr>tab := dmp (tab q)\<rparr>)" "(inside idx)\<^sup>*\<^sup>* p q"
  shows "(inside idx)\<^sup>*\<^sup>* p (q\<lparr>tab := dmp (tab q)\<rparr>)"
  using assms(2) assms(1) by (rule rtranclp.rtrancl_into_rtrancl)

lemma send_after_inside: "(inside idx)\<^sup>*\<^sup>* p (p\<lparr>tab := snd (swrap_sendmsg_after e ma fd idx msg to ret (tab p))\<rparr>)"
  using drop_inside [of idx p fd ret]
    then_dump [OF sec [OF sent [where e = e and to = to and ret = ret and data = "gather (capture_len ret (s_iov msg)) (s_iov msg)"]]
      drop_inside [of idx p fd ret]]
  by (simp add: swrap_sendmsg_after_def Let_def)

lemma recv_after_state:
  obtains "snd (swrap_recvmsg_after e mb fd idx un ret msg st) = drop_stale fd ret st"
  | fg a b where "snd (swrap_recvmsg_after e mb fd idx un ret msg st) = recv_dumps e idx fg a ret b (drop_stale fd ret st)"
proof (cases "convert_sender (swrap_get_socket_info idx (drop_stale fd ret st)) un msg")
  case None
  with that(1) show ?thesis by (simp add: swrap_recvmsg_after_def Let_def)
next
  case (Some m)
  show ?thesis
  proof (cases "concat (r_iov m) = []")
    case True
    with Some have "snd (swrap_recvmsg_after e mb fd idx un ret msg st) = drop_stale fd ret st"
      by (simp add: swrap_recvmsg_after_def Let_def split: option.split)
    with that(1) show ?thesis .
  next
    case data: False
    show ?thesis
    proof (cases "mb (capture_len ret (r_iov m))")
      case None
      with Some data have "snd (swrap_recvmsg_after e mb fd idx un ret msg st) = drop_stale fd ret st"
        by (simp add: swrap_recvmsg_after_def Let_def del: concat_eq_Nil_conv)
      with that(1) show ?thesis .
    next
      case (Some blk)
      with \<open>_ = Some m\<close> data have "snd (swrap_recvmsg_after e mb fd idx un ret msg st)
          = recv_dumps e idx (un \<noteq> None) (r_name m) ret (write_at 0 (gather (capture_len ret (r_iov m)) (r_iov m)) blk)
              (drop_stale fd ret st)"
        by (simp add: swrap_recvmsg_after_def Let_def del: concat_eq_Nil_conv split: option.split)
      with that(2) show ?thesis .
    qed
  qed
qed

lemma recv_after_inside: "(inside idx)\<^sup>*\<^sup>* p (p\<lparr>tab := snd (swrap_recvmsg_after e mb fd idx un ret msg (tab p))\<rparr>)"
proof (cases rule: recv_after_state [of e mb fd idx un ret msg "tab p"])
  case 1
  then show ?thesis using drop_inside [of idx p fd ret] by simp
next
  case (2 fg a b)
  then show ?thesis
    using then_dump [OF sec [OF received [of idx _ e fg a ret b]] drop_inside [of idx p fd ret]] by simp
qed

text \<open>The transfers.\<close>

lemma call_steps:
  assumes "find_socket_info_index s (tab p) = - 1 \<Longrightarrow> p' = p"
    "find_socket_info_index s (tab p) \<noteq> - 1 \<Longrightarrow> (inside (find_socket_info_index s (tab p)))\<^sup>*\<^sup>* p p'"
  shows "becomes (idle p) (idle p')"
  using call_on_entry [OF refl] assms by (cases "find_socket_info_index s (tab p) = - 1") auto

lemma send_entry_inside:
  "(inside idx)\<^sup>*\<^sup>* p p' \<Longrightarrow> (inside idx)\<^sup>*\<^sup>* p (snd (send_entry e ma tr s idx msg to p'))"
  by (simp add: send_entry_def Let_def case_prod_beta) (rule rtranclp_trans [OF _ send_after_inside])

lemma recv_entry_inside:
  "(inside idx)\<^sup>*\<^sup>* p p' \<Longrightarrow> (inside idx)\<^sup>*\<^sup>* p (snd (recv_entry e mb rc s idx msg p'))"
  by (simp add: recv_entry_def Let_def case_prod_beta) (rule rtranclp_trans [OF _ recv_after_inside])

lemma unnamed_send_inside:
  "(inside idx)\<^sup>*\<^sup>* p (snd (case swrap_sendmsg_before e ma s idx msg p of
      (Ready (msg, _, _), p) \<Rightarrow> send_entry e ma tr s idx msg None p
    | (NotSocket, p) \<Rightarrow> ((r1, []), p)
    | (Fails err, p) \<Rightarrow> ((r2 err, []), p)))"
proof -
  obtain b p1 where b: "swrap_sendmsg_before e ma s idx msg p = (b, p1)" by fastforce
  show ?thesis
    using b send_before_inside [OF b] by (cases b) (simp_all add: case_prod_beta send_entry_inside)
qed

lemma simple_recv_inside:
  "(inside idx)\<^sup>*\<^sup>* p (snd (case swrap_recvmsg_before e s idx msg p of
      (Ready msg, p) \<Rightarrow> recv_entry e mb rc s idx msg p
    | (NotSocket, p) \<Rightarrow> (r1, p)
    | (Fails err, p) \<Rightarrow> (r2 err, p)))"
proof -
  obtain b p1 where b: "swrap_recvmsg_before e s idx msg p = (b, p1)" by fastforce
  show ?thesis using b recv_before_inside [OF b] by (cases b) (simp_all add: recv_entry_inside)
qed

lemma send_calls_steps:
  "becomes (idle p) (idle (snd (swrap_write e ma tr s buf p)))" "becomes (idle p) (idle (snd (swrap_send e ma tr s buf p)))"
  "becomes (idle p) (idle (snd (swrap_writev e ma tr lr s vec p)))"
  by (rule call_steps [of s]; simp add: swrap_write_def swrap_send_def swrap_writev_def Let_def unnamed_send_inside)+

lemma recv_calls_steps:
  "becomes (idle p) (idle (snd (swrap_recv e mb rc s buf p)))" "becomes (idle p) (idle (snd (swrap_read e mb rc s buf p)))"
  "becomes (idle p) (idle (snd (swrap_readv e mb rc s vec p)))"
  by (rule call_steps [of s]; simp add: swrap_recv_def swrap_read_def swrap_readv_def Let_def simple_recv_inside)+

lemma dump_inside: "(inside idx)\<^sup>*\<^sup>* p p' \<Longrightarrow> (inside idx)\<^sup>*\<^sup>* p (p'\<lparr>tab := dump_on g os idx a t bf m (tab p')\<rparr>)"
  by (rule then_dump [OF sec [OF dumping]])

lemma sendto_steps: "becomes (idle p) (idle (snd (swrap_sendto e ma tr s buf to tolen p)))"
proof (rule call_steps [of s])
  assume found: "find_socket_info_index s (tab p) \<noteq> - 1"
  define idx where "idx = find_socket_info_index s (tab p)"
  define msg where "msg = \<lparr>s_name = (case to of None \<Rightarrow> NoName | Some a \<Rightarrow> Ip a), s_namelen = tolen, s_iov = [buf],
                 s_control = None, s_controllen = 0\<rparr>"
  obtain b p1 where b: "swrap_sendmsg_before e ma s idx msg p = (b, p1)" by fastforce
  show "(inside (find_socket_info_index s (tab p)))\<^sup>*\<^sup>* p (snd (swrap_sendto e ma tr s buf to tolen p))"
    using found b send_before_inside [OF b]
    by (cases b) (simp_all add: swrap_sendto_def Let_def idx_def [symmetric] msg_def [symmetric] case_prod_beta
        send_entry_inside dump_inside)
qed (simp add: swrap_sendto_def)

lemma sendmsg_steps: "becomes (idle p) (idle (snd (swrap_sendmsg e ma tr s omsg p)))"
proof (rule call_steps [of s])
  assume found: "find_socket_info_index s (tab p) \<noteq> - 1"
  define idx where "idx = find_socket_info_index s (tab p)"
  define msg where "msg = sendmsg_copy (swrap_get_socket_info idx (tab p)) omsg"
  obtain b p1 where b: "swrap_sendmsg_before e ma s idx msg p = (b, p1)" by fastforce
  show "(inside (find_socket_info_index s (tab p)))\<^sup>*\<^sup>* p (snd (swrap_sendmsg e ma tr s omsg p))"
    using found b send_before_inside [OF b]
    by (cases b) (simp_all add: swrap_sendmsg_def Let_def idx_def [symmetric] msg_def [symmetric] case_prod_beta
        send_entry_inside dump_inside)
qed (simp add: swrap_sendmsg_def)

lemma recv_inside:
  "(inside idx)\<^sup>*\<^sup>* p p' \<Longrightarrow>
    (inside idx)\<^sup>*\<^sup>* p (p'\<lparr>tab := snd (swrap_recvmsg_after e mb s idx un ret m (tab p'))\<rparr>)"
  by (rule rtranclp_trans [OF _ recv_after_inside])

lemma recvfrom_steps: "becomes (idle p) (idle (snd (swrap_recvfrom e mb rc sender s buf from_out p)))"
proof (rule call_steps [of s])
  assume found: "find_socket_info_index s (tab p) \<noteq> - 1"
  define idx where "idx = find_socket_info_index s (tab p)"
  obtain a n where an: "(case from_out of None \<Rightarrow> (zero_sockaddr, sockaddr_storage_size) | Some x \<Rightarrow> x) = (a, n)" by fastforce
  obtain b p1 where b: "swrap_recvmsg_before e s idx (plain_recv a n [buf]) p = (b, p1)" by fastforce
  show "(inside (find_socket_info_index s (tab p)))\<^sup>*\<^sup>* p (snd (swrap_recvfrom e mb rc sender s buf from_out p))"
    using found b recv_before_inside [OF b]
    by (cases b) (simp_all add: swrap_recvfrom_def Let_def idx_def [symmetric] an case_prod_beta recv_inside split: sum.split)
qed (simp add: swrap_recvfrom_def Let_def split: prod.split)

lemma recvmsg_steps: "becomes (idle p) (idle (snd (swrap_recvmsg e mb rc sender s (oname, omsg) p)))"
proof (rule call_steps [of s])
  assume found: "find_socket_info_index s (tab p) \<noteq> - 1"
  define idx where "idx = find_socket_info_index s (tab p)"
  obtain b p1 where b: "swrap_recvmsg_before e s idx omsg p = (b, p1)" by fastforce
  show "(inside (find_socket_info_index s (tab p)))\<^sup>*\<^sup>* p (snd (swrap_recvmsg e mb rc sender s (oname, omsg) p))"
    using found b recv_before_inside [OF b]
    by (cases b) (simp_all add: swrap_recvmsg_def Let_def idx_def [symmetric] case_prod_beta recv_inside split: option.split)
qed (simp add: swrap_recvmsg_def Let_def)

text \<open>Descriptors that enter the table.\<close>

lemma share_steps:
  assumes "refc (tab p) (nat idx) \<noteq> 0" "share_entry idx d (tab p) = Inr st"
  shows "becomes (in_phase (Using idx) p) (idle (p\<lparr>tab := st\<rparr>))"
proof -
  define s1 where "s1 = swrap_inc_refcount idx (tab p)"
  define s2 where "s2 = swrap_remove_stale d s1"
  have set: "set_socket_info_index d idx s2 = Inr st" using assms(2) by (simp add: s1_def s2_def)
  then have d: "0 \<le> d" "d < int SOCKET_FDS_MAX" by (auto simp: set_socket_info_index_def split: if_splits)
  have "becomes (in_phase (Using idx) p) (in_phase (Raised d idx) (p\<lparr>tab := s1\<rparr>))"
    using step [OF dups [OF dup_raises [of "in_phase (Using idx) p" 0 idx d]]] assms(1) d by (simp add: s1_def)
  moreover have "becomes (in_phase (Raised d idx) (p\<lparr>tab := s1\<rparr>)) (in_phase (Entering d idx) (p\<lparr>tab := s2\<rparr>))"
    using step [OF dups [OF dup_clears [of "in_phase (Raised d idx) (p\<lparr>tab := s1\<rparr>)" 0]]] by (simp add: s2_def)
  moreover have "becomes (in_phase (Entering d idx) (p\<lparr>tab := s2\<rparr>)) (in_phase (Using idx) (p\<lparr>tab := st\<rparr>))"
    using step [OF dups [OF dup_enters [of "in_phase (Entering d idx) (p\<lparr>tab := s2\<rparr>)" 0 d idx st]]] set by simp
  ultimately show ?thesis using leave_call [of idx] by (meson rtranclp_trans)
qed

lemma share_call:
  assumes "pool_ok (tab p)" "find_socket_info_index fd (tab p) = idx" "idx \<noteq> - 1" "share_entry idx d (tab p) = Inr st"
  shows "becomes (idle p) (idle (p\<lparr>tab := st\<rparr>))"
  using enter_call [OF assms(2,3)] share_steps [OF found_live(2) [OF assms(2,3,1)] assms(4)] by (rule rtranclp_trans)

lemma create_steps:
  assumes "swrap_create_socket si fd (tab p) = (r, st)"
  shows "case r of None \<Rightarrow> becomes (in_phase (Clean fd si) p) (idle (p\<lparr>tab := st\<rparr>))
    | Some idx \<Rightarrow> becomes (in_phase (Clean fd si) p) (in_phase (Using idx) (p\<lparr>tab := st\<rparr>))"
proof (cases "fd < 0 \<or> int SOCKET_FDS_MAX \<le> fd \<or> first_free (tab p) = - 1")
  case True
  then have "r = None" "st = tab p" using assms by (auto simp: swrap_create_socket_def swrap_add_socket_info_def split: if_splits)
  then show ?thesis using step [OF creates [OF create_fails [of "in_phase (Clean fd si) p" 0 fd si]]] True by simp
next
  case False
  then obtain idx st1 where a: "swrap_add_socket_info (Some si) (tab p) = (Inr idx, st1)"
    by (simp add: swrap_add_socket_info_def Let_def)
  with False assms have r: "r = Some idx" "set_socket_info_index fd idx st1 = Inr st"
    by (auto simp: swrap_create_socket_def set_socket_info_index_def)
  have "becomes (in_phase (Clean fd si) p) (in_phase (Entering fd idx) (p\<lparr>tab := st1\<rparr>))"
    using step [OF creates [OF create_takes [of "in_phase (Clean fd si) p" 0 fd si idx st1]]] a False by simp
  moreover have "becomes (in_phase (Entering fd idx) (p\<lparr>tab := st1\<rparr>)) (in_phase (Using idx) (p\<lparr>tab := st\<rparr>))"
    using step [OF dups [OF dup_enters [of "in_phase (Entering fd idx) (p\<lparr>tab := st1\<rparr>)" 0 fd idx st]]] r(2) by simp
  ultimately show ?thesis by (simp add: r(1))
qed

lemma dup_steps: "pool_ok (tab p) \<Longrightarrow> swrap_dup fd res (tab p) = Inr (x, st) \<Longrightarrow> becomes (idle p) (idle (p\<lparr>tab := st\<rparr>))"
  using share_call [OF _ refl]
  by (auto simp: swrap_dup_def Let_def split: if_splits sum.splits)

lemma fcntl_steps: "pool_ok (tab p) \<Longrightarrow> swrap_vfcntl fd c res (tab p) = Inr (x, st) \<Longrightarrow> becomes (idle p) (idle (p\<lparr>tab := st\<rparr>))"
  using share_call [OF _ refl]
  by (auto simp: swrap_vfcntl_def Let_def split: if_splits sum.splits)

lemma dup2_steps:
  assumes ok: "pool_ok (tab p)" and r: "swrap_dup2 getenv oses fd newfd lc res (tab p) = Inr (x, st)"
  shows "becomes (idle p) (idle (p\<lparr>tab := st\<rparr>))"
proof (cases "find_socket_info_index fd (tab p) = - 1 \<or> fd = newfd")
  case True
  then show ?thesis using r by (auto simp: swrap_dup2_def Let_def split: if_splits)
next
  case False
  define s1 where "s1 = (if find_socket_info_index newfd (tab p) \<noteq> - 1
    then snd (swrap_close getenv oses newfd lc (tab p)) else tab p)"
  have s1: "pool_ok s1" "view s1 = (view (tab p))(newfd := None)"
    using close_laws [OF ok, of getenv oses newfd lc] ok by (auto simp: s1_def view_def fun_eq_iff)
  then have "view s1 fd = view (tab p) fd" using False by simp
  then have i: "find_socket_info_index fd s1 = find_socket_info_index fd (tab p)"
    using False by (auto simp: view_def split: if_splits)
  have closed: "becomes (idle p) (idle (p\<lparr>tab := s1\<rparr>))"
    using close_call [of p getenv oses newfd lc] by (simp add: s1_def)
  have share: "share_entry (find_socket_info_index fd (tab p)) d s1 = Inr s \<Longrightarrow> becomes (idle p) (idle (p\<lparr>tab := s\<rparr>))" for d s
    using share_call [of "p\<lparr>tab := s1\<rparr>" fd, OF _ refl] s1(1) False i rtranclp_trans [OF closed] by simp
  show ?thesis
    using r False closed share by (auto simp: swrap_dup2_def Let_def s1_def [symmetric] split: sum.splits)
qed

lemma socket_steps:
  assumes ok: "pool_ok (tab p)" and s: "swrap_socket e alloc lw ls fam ty prot (tab p) = Some (r, st)"
  shows "becomes (idle p) (idle (p\<lparr>tab := st\<rparr>))"
proof (cases "st = tab p")
  case True
  then show ?thesis by simp
next
  case False
  obtain a b c where [simp]: "alloc = (a, b, c)" by (metis prod_cases3)
  have en: "socket_wrapper_enabled g a b c (tab p) \<in> {Some (False, tab p), Some (True, tab p)}" for g
    using pool_ready [OF ok] by (simp add: socket_wrapper_enabled_def socket_wrapper_init_sockets_def)
  define rt where "rt = code_type (ty AND NOT SOCK_CLOEXEC AND NOT SOCK_NONBLOCK)"
  from False obtain fd q where c: "swrap_create_socket (new_socket_info fam rt prot) fd (swrap_remove_stale fd (tab p)) = (q, st)"
    and args: "socket_args fam rt prot"
    using s en [of "l_getenv e"]
    by (auto simp: swrap_socket_def socket_args_def Let_def rt_def [symmetric] split: if_splits sum.splits prod.splits option.splits)
  let ?si = "new_socket_info fam rt prot" and ?p = "p\<lparr>tab := swrap_remove_stale fd (tab p)\<rparr>"
  have "becomes (idle p) (in_phase (Made fd ?si) p)"
    using step [OF makes [OF socket_made [of "idle p" 0 fd, OF _ _ args]]] by simp
  moreover have "becomes (in_phase (Made fd ?si) p) (in_phase (Clean fd ?si) ?p)"
    using step [OF makes [OF socket_clears [of "in_phase (Made fd ?si) p" 0 fd ?si]]] by simp
  moreover have "becomes (in_phase (Clean fd ?si) ?p) (idle (p\<lparr>tab := st\<rparr>))"
  proof (cases q)
    case None
    then show ?thesis using create_steps [of ?si fd ?p] c by simp
  next
    case (Some idx)
    then have "becomes (in_phase (Clean fd ?si) ?p) (in_phase (Using idx) (p\<lparr>tab := st\<rparr>))"
      using create_steps [of ?si fd ?p] c by simp
    then show ?thesis using leave_call by (rule rtranclp_trans)
  qed
  ultimately show ?thesis by (meson rtranclp_trans)
qed

lemma accept_dumps_inside: "(inside idx)\<^sup>*\<^sup>* p (p\<lparr>tab := accept_dumps e idx peer (tab p)\<rparr>)"
  by (rule r_into_rtranclp, rule sec, rule accepted)

lemma failed_call: "becomes (idle p) (idle (p\<lparr>tab := snd (accept_failed e lc fd err out (tab p))\<rparr>))"
  using close_call [of p "l_getenv e" "l_pcap e" fd lc] by (simp add: accept_failed_def case_prod_beta)

lemma accept_enter_steps:
  "becomes (in_phase (Clean fd child) p) (idle (p\<lparr>tab := snd (accept_enter e lc fd child out (tab p))\<rparr>))"
proof -
  obtain r st where c: "swrap_create_socket child fd (tab p) = (r, st)" by fastforce
  note steps = create_steps [OF c]
  show ?thesis
  proof (cases r)
    case None
    have "becomes (idle (p\<lparr>tab := st\<rparr>)) (idle (p\<lparr>tab := snd (accept_failed e lc fd err out st)\<rparr>))" for err
      using failed_call [of "p\<lparr>tab := st\<rparr>" e lc fd err out] by simp
    then show ?thesis using steps c None by (auto simp: accept_enter_def intro: rtranclp_trans)
  next
    case (Some idx)
    have "becomes (in_phase (Using idx) (p\<lparr>tab := st\<rparr>)) (idle (p\<lparr>tab := accept_dumps e idx (fst out) st\<rparr>))"
      using rtranclp_trans [OF inside_steps [OF accept_dumps_inside] leave_call, of idx "p\<lparr>tab := st\<rparr>" e "fst out"] by simp
    then show ?thesis using steps c Some by (simp add: accept_enter_def)
  qed
qed

lemma accept_steps:
  assumes free: "case la of Inl _ \<Rightarrow> True | Inr (fd, _) \<Rightarrow> view (tab p) fd = None"
  shows "becomes (idle p) (idle (p\<lparr>tab := snd (swrap_accept e la lg lc s out (tab p))\<rparr>))"
proof -
  define i where "i = find_socket_info_index s (tab p)"
  define si where "si = swrap_get_socket_info i (tab p)"
  show ?thesis
  proof (cases "i = - 1 \<or> socket_length (family si) = 0 \<or> isl la")
    case True
    then show ?thesis
      using stale_call [of p s] by (cases la) (auto simp: swrap_accept_def Let_def i_def [symmetric] si_def [symmetric])
  next
    case False
    then obtain fd un n where la: "la = Inr (fd, un, n)" by (cases la) auto
    have f: "find_socket_info_index fd (tab p) = - 1" using free by (simp add: la view_def split: if_splits)
    have eq: "swrap_accept e la lg lc s out (tab p) = accept_peer_name e lg lc si (fd, un, n) out (tab p)"
      using False by (simp add: swrap_accept_def Let_def i_def [symmetric] si_def [symmetric] la)
    have enter: "becomes (idle p) (in_phase (Using i) p)" using enter_call [OF i_def [symmetric]] False by simp
    have failed: "becomes (idle p) (idle (p\<lparr>tab := snd (accept_failed e lc fd err out (tab p))\<rparr>))" for err and out :: "sockaddr option \<times> nat option"
      by (rule failed_call)
    show ?thesis
    proof (cases "sockaddr_convert_from_un si un n (family si) (socket_length (family si))")
      case (Inl err)
      then show ?thesis using failed by (simp add: eq accept_peer_name_def)
    next
      case (Inr x)
      obtain a m where x: "x = (a, m)" by fastforce
      define child where "child = child_info si (or_zero a) m"
      have "becomes (idle p) (idle (p\<lparr>tab := snd (accept_own_name e lg lc fd child out (tab p))\<rparr>))" for out
      proof (cases "\<exists>my ml b k. lg = Inr (my, ml) \<and> sockaddr_convert_from_un child my ml (family child) sockaddr_storage_size = Inr (b, k)")
        case True
        then obtain my ml b k where lg: "lg = Inr (my, ml)"
          and b: "sockaddr_convert_from_un child my ml (family child) sockaddr_storage_size = Inr (b, k)" by blast
        let ?c = "child\<lparr>myname := \<lparr>sa_socklen = k, sa = memcpy_addr k (or_zero b) zero_sockaddr\<rparr>\<rparr>"
        have "becomes (in_phase (Using i) p) (in_phase (Clean fd ?c) p)"
          using step [OF accepts [OF accept_gets [of "in_phase (Using i) p" 0 i fd si un n _ a m child my ml b k]]]
            f Inr x child_def b by (simp add: si_def)
        then show ?thesis
          using rtranclp_trans [OF enter] accept_enter_steps [of fd ?c p e lc out]
          by (simp add: accept_own_name_def lg b) (meson rtranclp_trans)
      next
        case bad: False
        show ?thesis using bad failed by (auto simp: accept_own_name_def split: sum.split)
      qed
      then show ?thesis by (simp add: eq accept_peer_name_def Inr x child_def)
    qed
  qed
qed

lemma resv_loop_steps:
  assumes "addr_ok a"
  shows "becomes (idle p) (idle (snd (snd (resv_loop e lb sd af n rc a (port, p)))))"
  using assms
proof (induction n arbitrary: rc a port p)
  case (Suc n)
  define b where "b = a\<lparr>sa_port := port, sa_fam := af\<rparr>"
  have b: "addr_ok b" using Suc.prems by (simp add: b_def addr_ok_def)
  obtain r x p1 where s: "swrap_bind e sd b (socket_length af) p = ((r, x), p1)" by (metis prod.exhaust)
  have k: "becomes (idle p) (idle p1)" using bind_steps [OF b socket_length_storage, of p e sd af] s by simp
  note ih = rtranclp_trans [OF k Suc.IH [OF b]]
  show ?case
    using s k ih by (cases r) (auto simp: Let_def b_def [symmetric])
qed simp

lemma bindresvport_steps:
  assumes "case given of None \<Rightarrow> True | Some a \<Rightarrow> addr_ok a"
  shows "becomes (idle p) (idle (snd (snd (swrap_bindresvport_sa e lg lb sd given (port, p)))))"
  using assms
  by (auto simp: swrap_bindresvport_sa_def Let_def resv_loop_steps case_prod_beta split: option.split sum.split)

lemma connect_steps: "addr_ok a \<Longrightarrow> n \<le> sockaddr_storage_size \<Longrightarrow> becomes (idle p) (idle (snd (swrap_connect e s a n p)))"
  unfolding swrap_connect_def by (rule entry_call_steps) (rule in_connect)

lemma listen_steps: "becomes (idle p) (idle (snd (swrap_listen e ll s p)))"
  unfolding swrap_listen_def by (rule entry_call_steps) (rule in_listen)

text \<open>Calls that open a descriptor of another kind.\<close>

lemma open_steps:
  "becomes (idle p) (idle (p\<lparr>tab := snd (swrap_fopen f (tab p))\<rparr>))"
  "becomes (idle p) (idle (p\<lparr>tab := snd (swrap_fopen64 f (tab p))\<rparr>))"
  "becomes (idle p) (idle (p\<lparr>tab := snd (swrap_vopen res (tab p))\<rparr>))"
  "becomes (idle p) (idle (p\<lparr>tab := snd (swrap_vopen64 res (tab p))\<rparr>))"
  "becomes (idle p) (idle (p\<lparr>tab := snd (swrap_vopenat res (tab p))\<rparr>))"
  "becomes (idle p) (idle (p\<lparr>tab := snd (swrap_eventfd res (tab p))\<rparr>))"
  "becomes (idle p) (idle (p\<lparr>tab := snd (swrap_timerfd_create res (tab p))\<rparr>))"
  "becomes (idle p) (idle (p\<lparr>tab := snd (swrap_signalfd fd res (tab p))\<rparr>))"
  by (simp_all add: swrap_fopen_def swrap_fopen64_def swrap_vopen_def swrap_vopen64_def swrap_vopenat_def swrap_eventfd_def
      swrap_timerfd_create_def swrap_signalfd_def stale_call split: option.split sum.split)

lemma pair_steps:
  "becomes (idle p) (idle (p\<lparr>tab := snd (swrap_socketpair res2 (tab p))\<rparr>))"
  "becomes (idle p) (idle (p\<lparr>tab := snd (swrap_pipe res2 (tab p))\<rparr>))"
proof -
  have "becomes (idle p) (idle (p\<lparr>tab := swrap_remove_stale b (swrap_remove_stale a (tab p))\<rparr>))" for a b
    using rtranclp_trans [OF stale_call stale_call [of "p\<lparr>tab := swrap_remove_stale a (tab p)\<rparr>" b]] by simp
  then show "becomes (idle p) (idle (p\<lparr>tab := snd (swrap_socketpair res2 (tab p))\<rparr>))"
    "becomes (idle p) (idle (p\<lparr>tab := snd (swrap_pipe res2 (tab p))\<rparr>))"
    by (simp_all add: swrap_socketpair_def swrap_pipe_def split: sum.split)
qed

lemmas call_becomes = socket_steps accept_steps connect_steps bind_steps bindresvport_steps listen_steps setsockopt_steps
  ioctl_steps sendto_steps send_calls_steps sendmsg_steps recvfrom_steps recv_calls_steps recvmsg_steps close_call
  dup_steps dup2_steps fcntl_steps open_steps pair_steps

lemma lib_step_becomes: "lib_step p p' \<Longrightarrow> pool_ok (tab p) \<Longrightarrow> becomes (idle p) (idle p')"
  by (induction rule: lib_step.induct) (blast intro: call_becomes)+

lemma users_run_becomes: "becomes s s' \<Longrightarrow> users_run s \<Longrightarrow> users_run s'"
  by (induction rule: rtranclp_induct) (auto intro: continues)

lemma idle_run: "library_run p \<Longrightarrow> users_run (idle p)"
proof (induction rule: library_run.induct)
  case (run_start getenv st)
  then show ?case using begins by (simp add: idle_def)
next
  case (run_step p p')
  then show ?case using users_run_becomes lib_step_becomes run_pool by blast
qed

section \<open>Paths\<close>

lemma dup_files: "dup_step t s s' \<Longrightarrow> users_ok s \<Longrightarrow> files (table s') = files (table s)"
proof (induction rule: dup_step.induct)
  case (dup_raises s idx d)
  have k: "known (table s) idx" using phase_at [OF dup_raises.prems dup_raises.hyps(1)] by simp
  then have i: "nat idx < nsock (table s)" by (simp add: known_def)
  note inc = inc_simps [OF i refcount_room [OF users_pool [OF dup_raises.prems] i]]
  show ?case using dup_raises.hyps(5) by (simp, intro files_cong) (auto simp: inc)
next
  case (dup_clears s d idx)
  show ?case
  proof (cases "find_socket_info_index d (table s) = - 1")
    case True
    then show ?thesis by (simp add: swrap_remove_stale_def)
  next
    case False
    note pool = users_pool [OF dup_clears.prems]
    from drops_files [OF conjunct2 [OF remove_stale_drops [OF pool False]] find_index(5) [OF pool refl False]] show ?thesis by simp
  qed
next
  case (dup_enters s d idx st)
  then have "st = (table s)\<lparr>fds_idx := (fds_idx (table s))(nat d := idx)\<rparr>"
    by (auto simp: set_socket_info_index_def split: if_splits)
  then show ?case by (simp, intro files_cong) (simp_all add: nsock_def path_of_def refc_def fun_eq_iff)
qed

lemma create_files:
  assumes "create_step t s s'" "users_ok s"
  shows "files (table s) \<subseteq># files (table s')"
  using assms
proof (induction rule: create_step.induct)
  case (create_takes s fd si idx st)
  note pool = users_pool [OF create_takes.prems]
  have ff: "first_free (table s) \<noteq> - 1" "idx = first_free (table s)"
    using create_takes.hyps(4) by (auto simp: swrap_add_socket_info_def Let_def split: if_splits)
  note i = takes_ok(2-4) [OF create_takes.prems create_takes.hyps]
  have a: "nsock st = nsock (table s)" "unlinked st = unlinked (table s)"
    "path_of st = (path_of (table s))(nat idx := un_addr si)" "refc st = (refc (table s))(nat idx := 1)"
    using add_inv [OF pool ff(1), of si, folded ff(2)] create_takes.hyps(4) by auto
  let ?f = "\<lambda>j. if refc (table s) j \<noteq> 0 \<and> path_of (table s) j \<noteq> '''' then {#path_of (table s) j#} else {#}"
  let ?g = "\<lambda>j. if refc st j \<noteq> 0 \<and> path_of st j \<noteq> '''' then {#path_of st j#} else {#}"
  have "sum ?g {..<nsock (table s)} + ?f (nat idx) = sum ?f {..<nsock (table s)} + ?g (nat idx)"
    using i by (intro sum_change) (simp_all add: a)
  then have "sum ?g {..<nsock (table s)} = sum ?f {..<nsock (table s)} + ?g (nat idx)" using i by simp
  then show ?case by (simp add: files_def a(1,2))
next
  case (create_fails s fd si)
  show ?case by simp
qed

lemma user_step_files: "user_step t s s' \<Longrightarrow> users_ok s \<Longrightarrow> files (table s) \<subseteq># files (table s')"
proof (induction rule: user_step.induct)
  case (works s idx p)
  have k: "known (table s) idx" using phase_at [OF works.prems works.hyps(1)] by simp
  have "proc_at (pends s) (sp s)" using works.prems by (simp add: users_ok_def)
  then show ?case using section_keeps [OF works.hyps(2) live_known [OF k], of "pends s"] by (simp add: pkeeps_at_def)
next
  case (closes s getenv oses fd rc)
  have "tab_at (pends s) (table s)" using closes.prems by (simp add: users_ok_def proc_at_def)
  then show ?case using close_keeps [of "pends s" "table s" getenv oses fd rc] by (simp add: keeps_at_def)
next
  case (drops_stale s fd)
  have "tab_at (pends s) (table s)" using drops_stale.prems by (simp add: users_ok_def proc_at_def)
  then show ?case using stale_keeps [of "pends s" "table s" fd] by (simp add: keeps_at_def)
next
  case (dups s s')
  then show ?case using dup_files by simp
next
  case (makes s s')
  then show ?case
  proof (induction rule: socket_step.induct)
    case (socket_clears s fd si)
    have "tab_at (pends s) (table s)" using socket_clears.prems by (simp add: users_ok_def proc_at_def)
    then show ?case using stale_keeps [of "pends s" "table s" fd] by (simp add: keeps_at_def)
  qed simp
next
  case (accepts s s')
  then show ?case by (induction rule: accept_step.induct) simp
next
  case (creates s s')
  then show ?case using create_files by simp
qed simp_all

lemma users_steps_files:
  assumes "users_step\<^sup>*\<^sup>* s s'" "users_run s"
  shows "files (table s) \<subseteq># files (table s') \<and> users_run s'"
  using assms
proof (induction rule: rtranclp_induct)
  case (step y z)
  then have y: "users_run y" "files (table s) \<subseteq># files (table y)" by blast+
  obtain t where "user_step t y z" using step.hyps(2) by (auto elim: users_step.cases)
  then have "files (table y) \<subseteq># files (table z)" using user_step_files users_run_ok [OF y(1)] by blast
  then show ?case using y step.hyps(2) continues by (blast intro: subset_mset.order_trans)
qed simp

lemma users_count:
  assumes "users_run s" "i < nsock (table s)"
  shows "refc (table s) i = card {fd. view (table s) fd = Some (int i)} + card (waiting s i)"
proof -
  note pool = users_pool [OF users_run_ok [OF assms(1)]]
  have "card {fd. view (table s) fd = Some (int i)} = card (owners (table s) i)"
    unfolding view_owners [OF pool] by (rule card_image) simp
  then show ?thesis using pool assms(2) by (simp add: pool_inv_def pends_def)
qed

lemma no_owner: "users_run s \<Longrightarrow> refc (table s) (nat idx) = 0 \<Longrightarrow> view (table s) fd \<noteq> Some idx"
  using view_live(3) [OF users_pool [OF users_run_ok]] by blast

lemma nobody_waits:
  assumes "users_run s" "0 \<le> idx" "nat idx < nsock (table s)" "refc (table s) (nat idx) = 0"
  shows "counted (at s u) \<noteq> Some (d, idx)"
proof
  assume c: "counted (at s u) = Some (d, idx)"
  have "phase_ok (table s) (at s u)" using users_run_ok [OF assms(1)] by (simp add: users_ok_def)
  with c have d: "0 \<le> d" "d < int SOCKET_FDS_MAX" by (cases "at s u"; simp)+
  have "waiting s (nat idx) = {}" using users_count [OF assms(1,3)] assms(4) by simp
  moreover have "nat d \<in> waiting s (nat idx)" using c d assms(2) nat_less_iff [of d] by (auto simp: waiting_def)
  ultimately show False by blast
qed

lemma users_path:
  assumes "users_run s" "i < nsock (table s)" "refc (table s) i \<noteq> 0"
    and "(\<And>fd. view (table s) fd = Some (int i) \<Longrightarrow> P) " "(\<And>t d. at s t = Raised d (int i) \<or> at s t = Entering d (int i) \<Longrightarrow> P)"
  shows P
proof -
  have "{fd. view (table s) fd = Some (int i)} \<noteq> {} \<or> waiting s i \<noteq> {}"
    using users_count [OF assms(1,2)] assms(3) by (auto simp: card_eq_0_iff)
  then show P
  proof (elim disjE)
    assume "{fd. view (table s) fd = Some (int i)} \<noteq> {}"
    then show P using assms(4) by blast
  next
    assume "waiting s i \<noteq> {}"
    then obtain t d where "counted (at s t) = Some (d, int i)" by (auto simp: waiting_def)
    then show P using assms(5) [of t d] by (cases "at s t") simp_all
  qed
qed

section \<open>Properties\<close>


lemma raised_state:
  "\<exists>s idx. users_run s \<and> view (table s) = [3 \<mapsto> idx] \<and> at s = (\<lambda>_. Outside)(0 := Raised 5 idx)
    \<and> nat idx < nsock (table s) \<and> 0 \<le> idx"
proof -
  obtain p idx where p: "library_run p" "view (tab p) = [3 \<mapsto> idx]" using tcp_socket by blast
  note ok = run_pool [OF p(1)]
  have l: "0 \<le> idx" "nat idx < nsock (tab p)" "refc (tab p) (nat idx) \<noteq> 0" using view_live [OF ok, of 3 idx] p(2) by simp_all
  have f: "find_socket_info_index 3 (tab p) = idx" "idx \<noteq> - 1" using p(2) l(1) by (auto simp: view_def fun_eq_iff split: if_splits dest: spec [of _ 3])
  let ?st = "swrap_inc_refcount idx (tab p)"
  have "becomes (in_phase (Using idx) p) (in_phase (Raised 5 idx) (p\<lparr>tab := ?st\<rparr>))"
    using step [OF dups [OF dup_raises [of "in_phase (Using idx) p" 0 idx 5]]] l(3)
    by (simp add: SOCKET_FDS_MAX_def SOCKET_WRAPPER_MAX_SOCKETS_LIMIT_def)
  then have "becomes (idle p) (in_phase (Raised 5 idx) (p\<lparr>tab := ?st\<rparr>))" by (rule rtranclp_trans [OF enter_call [OF f]])
  then have "users_run (in_phase (Raised 5 idx) (p\<lparr>tab := ?st\<rparr>))" by (rule users_run_becomes [OF _ idle_run [OF p(1)]])
  moreover have "view ?st = view (tab p)"
    by (simp add: view_def find_socket_info_index_def swrap_inc_refcount_def upd_container_def fun_eq_iff)
  moreover have "nsock ?st = nsock (tab p)" by (simp add: swrap_inc_refcount_def upd_container_def nsock_def)
  ultimately show ?thesis
    using p(2) l by (intro exI [of _ "in_phase (Raised 5 idx) (p\<lparr>tab := ?st\<rparr>)"] exI [of _ idx]) (simp add: in_phase_def)
qed



lemma clean_state:
  "\<exists>s idx. users_run s \<and> view (table s) = [3 \<mapsto> idx] \<and> at s = (\<lambda>_. Outside)(0 := Clean 4 (new_socket_info Inet Dgram 17))
    \<and> first_free (table s) \<noteq> - 1"
proof -
  obtain p idx where p: "library_run p" "view (tab p) = [3 \<mapsto> idx]" "nsock (tab p) = 65535" using tcp_socket by blast
  note ok = run_pool [OF p(1)]
  let ?si = "new_socket_info Inet Dgram 17"
  have "view (tab p) 4 = None" by (simp add: p(2))
  then have "find_socket_info_index 4 (tab p) = - 1" by (simp add: view_def split: if_splits)
  then have c: "swrap_remove_stale 4 (tab p) = tab p" by (simp add: swrap_remove_stale_def)
  have "becomes (idle p) (in_phase (Made 4 ?si) p)"
    using step [OF makes [OF socket_made [of "idle p" 0 4 Inet Dgram 17]]] by (simp add: socket_args_def)
  moreover have "becomes (in_phase (Made 4 ?si) p) (in_phase (Clean 4 ?si) p)"
    using step [OF makes [OF socket_clears [of "in_phase (Made 4 ?si) p" 0 4 ?si]]] c by simp
  ultimately have r: "users_run (in_phase (Clean 4 ?si) p)"
    using users_run_becomes idle_run [OF p(1)] by (meson rtranclp_trans)
  have "\<exists>i < nsock (tab p). refc (tab p) i = 0"
  proof (rule ccontr)
    assume "\<not> ?thesis"
    then have "refc (tab p) 0 \<noteq> 0" "refc (tab p) 1 \<noteq> 0" using p(3) by auto
    then have "idx = 0" "idx = 1" using live_iff_view [OF ok, of 0] live_iff_view [OF ok, of 1] p(2,3) by (auto split: if_splits)
    then show False by simp
  qed
  then have "first_free (tab p) \<noteq> - 1" using full_pool [OF ok] by simp
  then show ?thesis using r p(2) by (intro exI [of _ "in_phase (Clean 4 ?si) p"] exI [of _ idx]) (simp add: in_phase_def)
qed


text \<open>
  (C10) Each call of the sequential model, done in one step there, is a sequence of steps of one thread
  here, so every state that calls one after another reach is a state of this model.
\<close>

theorem calls_are_thread_steps:
  assumes "library_run p"
  shows "users_run (idle p) \<and> (\<forall>p'. lib_step p p' \<longrightarrow> users_step\<^sup>*\<^sup>* (idle p) (idle p'))"
  using idle_run [OF assms] lib_step_becomes [OF _ run_pool [OF assms]] by blast

theorem calls_are_thread_steps_witness:
  "\<exists>p p' idx. library_run p \<and> view (tab p) = [3 \<mapsto> idx] \<and> users_step\<^sup>*\<^sup>* (idle p) (idle p') \<and> view (tab p') = Map.empty"
proof -
  obtain p idx where p: "library_run p" "view (tab p) = [3 \<mapsto> idx]" using tcp_socket by blast
  let ?p = "p\<lparr>tab := snd (swrap_close (l_getenv quiet) (l_pcap quiet) 3 (Inr ()) (tab p))\<rparr>"
  have "lib_step p ?p" by (rule step_close)
  then have "users_step\<^sup>*\<^sup>* (idle p) (idle ?p)" using calls_are_thread_steps [OF p(1)] by blast
  moreover have "view (tab ?p) = Map.empty" using close_laws [OF run_pool [OF p(1)]] p(2) by simp
  ultimately show ?thesis using p by blast
qed



end
