(* ===== verification/Swrap_Bind.thy ===== *)
theory Swrap_Bind
  imports Swrap_Lock C_Lib "HOL-Library.Sublist"
begin

text \<open>
  The messages of socket_wrapper.c, and how it finds the functions of libc it overrides: the search for the library, the
  binding of a symbol on its first use, the functions \<open>libc_*\<close> that forward a call, and the binding of
  all symbols before a fork. The dynamic linker is a parameter (\<open>linker\<close>), as is the name of libc that
  \<open>gnu/lib-names.h\<close> gives.
\<close>

section \<open>Messages\<close>

datatype swrap_dbglvl_e = SWRAP_LOG_ERROR | SWRAP_LOG_WARN | SWRAP_LOG_DEBUG | SWRAP_LOG_TRACE

definition log_number :: "swrap_dbglvl_e \<Rightarrow> u32" where
  "log_number l = (case l of SWRAP_LOG_ERROR \<Rightarrow> 0 | SWRAP_LOG_WARN \<Rightarrow> 1 | SWRAP_LOG_DEBUG \<Rightarrow> 2 | SWRAP_LOG_TRACE \<Rightarrow> 3)"

text \<open>
  What \<open>swrap_log\<close> writes to \<open>stderr\<close>, if anything. \<open>msg\<close> is what the format and its arguments expand to,
  cut off after 1023 characters. The level of the environment is a number without sign.
\<close>

definition swrap_log :: "(string \<Rightarrow> string option) \<Rightarrow> string option \<Rightarrow> nat \<Rightarrow> swrap_dbglvl_e \<Rightarrow> string \<Rightarrow> string \<Rightarrow> string option" where
  "swrap_log env progname pid dbglvl func msg =
     (let lvl = (case env ''SOCKET_WRAPPER_DEBUGLEVEL'' of None \<Rightarrow> 0 | Some d \<Rightarrow> word_of_int (atoi d));
          prefix = (case dbglvl of
             SWRAP_LOG_ERROR \<Rightarrow> ''SWRAP_ERROR'' | SWRAP_LOG_WARN \<Rightarrow> ''SWRAP_WARN''
           | SWRAP_LOG_DEBUG \<Rightarrow> ''SWRAP_DEBUG'' | SWRAP_LOG_TRACE \<Rightarrow> ''SWRAP_TRACE'')
      in if lvl < log_number dbglvl then None
         else Some (prefix @ ''['' @ (case progname of None \<Rightarrow> ''<unknown>'' | Some n \<Rightarrow> n) @ '' ('' @ print_dec pid @ '')] - ''
           @ func @ '': '' @ take 1023 msg @ [char_of (10::nat)]))"

text \<open>Errors are written whatever the environment says, and a negative level lets everything through.\<close>

lemma swrap_log_error: "swrap_log env progname pid SWRAP_LOG_ERROR func msg \<noteq> None"
  by (simp add: swrap_log_def log_number_def Let_def)

lemma swrap_log_negative:
  "env ''SOCKET_WRAPPER_DEBUGLEVEL'' = Some ''-1'' \<Longrightarrow> swrap_log env progname pid dbglvl func msg \<noteq> None"
proof -
  have "atoi ''-1'' = - 1" by code_simp
  moreover have "\<not> (- 1 :: u32) < log_number dbglvl" by (simp add: not_less)
  ultimately show "env ''SOCKET_WRAPPER_DEBUGLEVEL'' = Some ''-1'' \<Longrightarrow> ?thesis"
    by (simp add: swrap_log_def Let_def)
qed

section \<open>The dynamic linker\<close>

datatype handle = RTLD_NEXT | Handle nat

type_synonym func = nat

text \<open>\<open>dlopen\<close> with the flag \<open>RTLD_DEEPBIND\<close> or without; 0 is not among the results.\<close>

record linker =
  getenv :: "string \<Rightarrow> string option"
  dlopen :: "string \<Rightarrow> bool \<Rightarrow> nat option"
  dlsym :: "handle \<Rightarrow> string \<Rightarrow> func option"
  have_libsocket :: bool
  libc_so :: "string option"

datatype swrap_lib = SWRAP_LIBC | SWRAP_LIBNSL | SWRAP_LIBSOCKET

definition swrap_str_lib :: "swrap_lib \<Rightarrow> string" where
  "swrap_str_lib lib = (case lib of SWRAP_LIBC \<Rightarrow> ''libc'' | SWRAP_LIBNSL \<Rightarrow> ''libnsl'' | SWRAP_LIBSOCKET \<Rightarrow> ''libsocket'')"

datatype libc_symbol =
    Accept4 | Bind | Close | Connect | Dup | Dup2 | Fcntl | Fopen | Fopen64 | Eventfd | Getpeername
  | Getsockname | Getsockopt | Ioctl | Listen | Open | Open64 | Openat | Pipe | Read | Readv | Recv
  | Recvfrom | Recvmsg | Send | Sendmsg | Sendto | Setsockopt | Signalfd | Socket | Socketpair
  | Timerfd_create | Write | Writev

definition symbol_name :: "libc_symbol \<Rightarrow> string" where
  "symbol_name s = (case s of
      Accept4 \<Rightarrow> ''accept4'' | Bind \<Rightarrow> ''bind'' | Close \<Rightarrow> ''close'' | Connect \<Rightarrow> ''connect'' | Dup \<Rightarrow> ''dup''
    | Dup2 \<Rightarrow> ''dup2'' | Fcntl \<Rightarrow> ''fcntl'' | Fopen \<Rightarrow> ''fopen'' | Fopen64 \<Rightarrow> ''fopen64'' | Eventfd \<Rightarrow> ''eventfd''
    | Getpeername \<Rightarrow> ''getpeername'' | Getsockname \<Rightarrow> ''getsockname'' | Getsockopt \<Rightarrow> ''getsockopt''
    | Ioctl \<Rightarrow> ''ioctl'' | Listen \<Rightarrow> ''listen'' | Open \<Rightarrow> ''open'' | Open64 \<Rightarrow> ''open64'' | Openat \<Rightarrow> ''openat''
    | Pipe \<Rightarrow> ''pipe'' | Read \<Rightarrow> ''read'' | Readv \<Rightarrow> ''readv'' | Recv \<Rightarrow> ''recv'' | Recvfrom \<Rightarrow> ''recvfrom''
    | Recvmsg \<Rightarrow> ''recvmsg'' | Send \<Rightarrow> ''send'' | Sendmsg \<Rightarrow> ''sendmsg'' | Sendto \<Rightarrow> ''sendto''
    | Setsockopt \<Rightarrow> ''setsockopt'' | Signalfd \<Rightarrow> ''signalfd'' | Socket \<Rightarrow> ''socket'' | Socketpair \<Rightarrow> ''socketpair''
    | Timerfd_create \<Rightarrow> ''timerfd_create'' | Write \<Rightarrow> ''write'' | Writev \<Rightarrow> ''writev'')"

text \<open>The static variable \<open>swrap\<close>.\<close>

record bindings =
  libc_handle :: "handle option"
  socket_handle :: "handle option"
  symbols :: "libc_symbol \<Rightarrow> func option"

definition unbound :: bindings where
  "unbound = \<lparr>libc_handle = None, socket_handle = None, symbols = (\<lambda>_. None)\<rparr>"

section \<open>The library\<close>

definition deepbind :: "linker \<Rightarrow> bool" where
  "deepbind lk = (case getenv lk ''LD_PRELOAD'' of
      None \<Rightarrow> False
    | Some e \<Rightarrow> length e < 1024 \<and> \<not> sublist ''libasan.so'' e)"

text \<open>The names \<open>base.10\<close> down to \<open>base.0\<close>.\<close>

fun open_newest :: "(string \<Rightarrow> nat option) \<Rightarrow> string \<Rightarrow> nat \<Rightarrow> nat option" where
  "open_newest dl base i = (case dl (base @ print_dec i) of
      Some h \<Rightarrow> Some h
    | None \<Rightarrow> (case i of 0 \<Rightarrow> None | Suc j \<Rightarrow> open_newest dl base j))"

declare open_newest.simps [simp del]

definition open_libsocket :: "linker \<Rightarrow> handle option" where
  "open_libsocket lk = map_option Handle (open_newest (\<lambda>n. dlopen lk n (deepbind lk)) ''libsocket.so.'' 10)"

definition open_libc :: "linker \<Rightarrow> handle option" where
  "open_libc lk = map_option Handle (
     let dl = (\<lambda>n. dlopen lk n (deepbind lk)) in
     case Option.bind (libc_so lk) dl of
       Some h \<Rightarrow> Some h
     | None \<Rightarrow> open_newest dl ''libc.so.'' 10)"

text \<open>If the library asked for is not found both handles become \<open>RTLD_NEXT\<close>.\<close>

definition swrap_load_lib_handle :: "linker \<Rightarrow> swrap_lib \<Rightarrow> bindings \<Rightarrow> handle \<times> bindings" where
  "swrap_load_lib_handle lk lib st =
     (let (handle, st) =
        (if lib \<noteq> SWRAP_LIBC \<and> have_libsocket lk
         then (case socket_handle st of
                 Some h \<Rightarrow> (Some h, st)
               | None \<Rightarrow> (open_libsocket lk, st\<lparr>socket_handle := open_libsocket lk\<rparr>))
         else (case libc_handle st of
                 Some h \<Rightarrow> (Some h, st)
               | None \<Rightarrow> (open_libc lk, st\<lparr>libc_handle := open_libc lk\<rparr>)))
      in case handle of
           Some h \<Rightarrow> (h, st)
         | None \<Rightarrow> (RTLD_NEXT, st\<lparr>libc_handle := Some RTLD_NEXT, socket_handle := Some RTLD_NEXT\<rparr>))"

section \<open>Binding\<close>

text \<open>\<open>None\<close>: the symbol was not found, the process exits.\<close>

definition swrap_bind_symbol_from :: "linker \<Rightarrow> swrap_lib \<Rightarrow> string \<Rightarrow> bindings \<Rightarrow> (func \<times> bindings) option" where
  "swrap_bind_symbol_from lk lib fn_name st =
     (let (handle, st) = swrap_load_lib_handle lk lib st
      in map_option (\<lambda>func. (func, st)) (dlsym lk handle fn_name))"

text \<open>
  The macros \<open>swrap_bind_symbol_libc\<close> and \<open>swrap_bind_symbol_libsocket\<close> of a thread that no other
  interrupts, with what they do to the mutex.
\<close>

definition swrap_bind_symbol :: "linker \<Rightarrow> swrap_lib \<Rightarrow> libc_symbol \<Rightarrow> bindings \<Rightarrow> (bindings \<times> lock_op list) option" where
  "swrap_bind_symbol lk lib s st =
     (if symbols st s \<noteq> None then Some (st, [])
      else map_option (\<lambda>(func, st). (st\<lparr>symbols := (symbols st)(s \<mapsto> func)\<rparr>, [Acquire Symbol_binding, Release Symbol_binding]))
             (swrap_bind_symbol_from lk lib (symbol_name s) st))"

text \<open>The symbols in the order of \<open>swrap_bind_symbol_all\<close>.\<close>

definition bind_order :: "(swrap_lib \<times> libc_symbol) list" where
  "bind_order = [(SWRAP_LIBSOCKET, Accept4), (SWRAP_LIBSOCKET, Bind), (SWRAP_LIBC, Close), (SWRAP_LIBSOCKET, Connect),
     (SWRAP_LIBC, Dup), (SWRAP_LIBC, Dup2), (SWRAP_LIBC, Fcntl), (SWRAP_LIBC, Fopen), (SWRAP_LIBC, Fopen64),
     (SWRAP_LIBC, Eventfd), (SWRAP_LIBSOCKET, Getpeername), (SWRAP_LIBSOCKET, Getsockname),
     (SWRAP_LIBSOCKET, Getsockopt), (SWRAP_LIBC, Ioctl), (SWRAP_LIBSOCKET, Listen), (SWRAP_LIBC, Open),
     (SWRAP_LIBC, Open64), (SWRAP_LIBC, Openat), (SWRAP_LIBSOCKET, Pipe), (SWRAP_LIBC, Read),
     (SWRAP_LIBSOCKET, Readv), (SWRAP_LIBSOCKET, Recv), (SWRAP_LIBSOCKET, Recvfrom), (SWRAP_LIBSOCKET, Recvmsg),
     (SWRAP_LIBSOCKET, Send), (SWRAP_LIBSOCKET, Sendmsg), (SWRAP_LIBSOCKET, Sendto), (SWRAP_LIBSOCKET, Setsockopt),
     (SWRAP_LIBSOCKET, Signalfd), (SWRAP_LIBSOCKET, Socket), (SWRAP_LIBSOCKET, Socketpair),
     (SWRAP_LIBC, Timerfd_create), (SWRAP_LIBC, Write), (SWRAP_LIBSOCKET, Writev)]"

fun bind_symbols :: "linker \<Rightarrow> (swrap_lib \<times> libc_symbol) list \<Rightarrow> bindings \<Rightarrow> (bindings \<times> lock_op list) option" where
  "bind_symbols lk [] st = Some (st, [])"
| "bind_symbols lk ((lib, s) # rest) st = (case swrap_bind_symbol lk lib s st of
      None \<Rightarrow> None
    | Some (st, ops) \<Rightarrow> map_option (apsnd ((@) ops)) (bind_symbols lk rest st))"

definition swrap_bind_symbol_all :: "linker \<Rightarrow> bindings \<Rightarrow> (bindings \<times> lock_op list) option" where
  "swrap_bind_symbol_all lk st = bind_symbols lk bind_order st"

definition swrap_thread_prepare :: "linker \<Rightarrow> bindings \<Rightarrow> (bindings \<times> lock_op list) option" where
  "swrap_thread_prepare lk st = map_option (apsnd (\<lambda>ops. ops @ [Acquire Symbol_binding])) (swrap_bind_symbol_all lk st)"

section \<open>The forwarding functions\<close>

text \<open>
  What a call hands on: the function it ends in and the arguments; numbers, pointers and byte
  counts. \<open>None\<close> in place of the whole: the process exits.
\<close>

datatype carg = CInt int | CPtr nat | CSize nat

record forwarded =
  target :: "func option"
  arguments :: "carg list"
  bound :: bindings
  mutexes :: "lock_op list"

definition call_libc :: "swrap_lib \<Rightarrow> libc_symbol \<Rightarrow> carg list \<Rightarrow> linker \<Rightarrow> bindings \<Rightarrow> forwarded option" where
  "call_libc lib s args lk st = map_option
     (\<lambda>(st, ops). \<lparr>target = symbols st s, arguments = args, bound = st, mutexes = ops\<rparr>) (swrap_bind_symbol lk lib s st)"

type_synonym forwarder = "linker \<Rightarrow> bindings \<Rightarrow> forwarded option"

definition libc_accept4 :: "int \<Rightarrow> nat \<Rightarrow> nat \<Rightarrow> int \<Rightarrow> forwarder" where
  "libc_accept4 sockfd addr addrlen flags = call_libc SWRAP_LIBSOCKET Accept4 [CInt sockfd, CPtr addr, CPtr addrlen, CInt flags]"

definition libc_bind :: "int \<Rightarrow> nat \<Rightarrow> nat \<Rightarrow> forwarder" where
  "libc_bind sockfd addr addrlen = call_libc SWRAP_LIBSOCKET Bind [CInt sockfd, CPtr addr, CSize addrlen]"

definition libc_close :: "int \<Rightarrow> forwarder" where
  "libc_close fd = call_libc SWRAP_LIBC Close [CInt fd]"

definition libc_connect :: "int \<Rightarrow> nat \<Rightarrow> nat \<Rightarrow> forwarder" where
  "libc_connect sockfd addr addrlen = call_libc SWRAP_LIBSOCKET Connect [CInt sockfd, CPtr addr, CSize addrlen]"

definition libc_dup :: "int \<Rightarrow> forwarder" where
  "libc_dup fd = call_libc SWRAP_LIBC Dup [CInt fd]"

definition libc_dup2 :: "int \<Rightarrow> int \<Rightarrow> forwarder" where
  "libc_dup2 oldfd newfd = call_libc SWRAP_LIBC Dup2 [CInt oldfd, CInt newfd]"

definition libc_eventfd :: "int \<Rightarrow> int \<Rightarrow> forwarder" where
  "libc_eventfd nbytes flags = call_libc SWRAP_LIBC Eventfd [CInt nbytes, CInt flags]"

text \<open>\<open>va\<close> is the next variable argument.\<close>

definition libc_vfcntl :: "int \<Rightarrow> int \<Rightarrow> nat \<Rightarrow> forwarder" where
  "libc_vfcntl fd cmd va = call_libc SWRAP_LIBC Fcntl [CInt fd, CInt cmd, CPtr va]"

definition libc_getpeername :: "int \<Rightarrow> nat \<Rightarrow> nat \<Rightarrow> forwarder" where
  "libc_getpeername sockfd addr addrlen = call_libc SWRAP_LIBSOCKET Getpeername [CInt sockfd, CPtr addr, CPtr addrlen]"

definition libc_getsockname :: "int \<Rightarrow> nat \<Rightarrow> nat \<Rightarrow> forwarder" where
  "libc_getsockname sockfd addr addrlen = call_libc SWRAP_LIBSOCKET Getsockname [CInt sockfd, CPtr addr, CPtr addrlen]"

definition libc_getsockopt :: "int \<Rightarrow> int \<Rightarrow> int \<Rightarrow> nat \<Rightarrow> nat \<Rightarrow> forwarder" where
  "libc_getsockopt sockfd level optname optval optlen =
     call_libc SWRAP_LIBSOCKET Getsockopt [CInt sockfd, CInt level, CInt optname, CPtr optval, CPtr optlen]"

definition libc_vioctl :: "int \<Rightarrow> nat \<Rightarrow> nat \<Rightarrow> forwarder" where
  "libc_vioctl d request va = call_libc SWRAP_LIBC Ioctl [CInt d, CSize request, CPtr va]"

definition libc_listen :: "int \<Rightarrow> int \<Rightarrow> forwarder" where
  "libc_listen sockfd backlog = call_libc SWRAP_LIBSOCKET Listen [CInt sockfd, CInt backlog]"

definition libc_fopen :: "nat \<Rightarrow> nat \<Rightarrow> forwarder" where
  "libc_fopen name mode = call_libc SWRAP_LIBC Fopen [CPtr name, CPtr mode]"

definition libc_fopen64 :: "nat \<Rightarrow> nat \<Rightarrow> forwarder" where
  "libc_fopen64 name mode = call_libc SWRAP_LIBC Fopen64 [CPtr name, CPtr mode]"

text \<open>The mode is taken from the variable arguments only where there is one; \<open>mode_t\<close> has 32 bits without sign.\<close>

definition O_CREAT :: int where "O_CREAT = 0x40"

definition open_mode :: "int \<Rightarrow> int \<Rightarrow> int" where
  "open_mode flags va = (if flags AND O_CREAT \<noteq> 0 then va mod 2 ^ 32 else 0)"

definition libc_vopen :: "nat \<Rightarrow> int \<Rightarrow> int \<Rightarrow> forwarder" where
  "libc_vopen pathname flags va = call_libc SWRAP_LIBC Open [CPtr pathname, CInt flags, CInt (open_mode flags va)]"

definition libc_open :: "nat \<Rightarrow> int \<Rightarrow> int \<Rightarrow> forwarder" where
  "libc_open pathname flags va = libc_vopen pathname flags va"

definition libc_vopen64 :: "nat \<Rightarrow> int \<Rightarrow> int \<Rightarrow> forwarder" where
  "libc_vopen64 pathname flags va = call_libc SWRAP_LIBC Open64 [CPtr pathname, CInt flags, CInt (open_mode flags va)]"

definition libc_vopenat :: "int \<Rightarrow> nat \<Rightarrow> int \<Rightarrow> int \<Rightarrow> forwarder" where
  "libc_vopenat dirfd path flags va = call_libc SWRAP_LIBC Openat [CInt dirfd, CPtr path, CInt flags, CInt (open_mode flags va)]"

definition libc_pipe :: "nat \<Rightarrow> forwarder" where
  "libc_pipe pipefd = call_libc SWRAP_LIBSOCKET Pipe [CPtr pipefd]"

definition libc_read :: "int \<Rightarrow> nat \<Rightarrow> nat \<Rightarrow> forwarder" where
  "libc_read fd buf nbytes = call_libc SWRAP_LIBC Read [CInt fd, CPtr buf, CSize nbytes]"

definition libc_readv :: "int \<Rightarrow> nat \<Rightarrow> int \<Rightarrow> forwarder" where
  "libc_readv fd iov iovcnt = call_libc SWRAP_LIBSOCKET Readv [CInt fd, CPtr iov, CInt iovcnt]"

definition libc_recv :: "int \<Rightarrow> nat \<Rightarrow> nat \<Rightarrow> int \<Rightarrow> forwarder" where
  "libc_recv sockfd buf len flags = call_libc SWRAP_LIBSOCKET Recv [CInt sockfd, CPtr buf, CSize len, CInt flags]"

definition libc_recvfrom :: "int \<Rightarrow> nat \<Rightarrow> nat \<Rightarrow> int \<Rightarrow> nat \<Rightarrow> nat \<Rightarrow> forwarder" where
  "libc_recvfrom sockfd buf len flags src_addr addrlen =
     call_libc SWRAP_LIBSOCKET Recvfrom [CInt sockfd, CPtr buf, CSize len, CInt flags, CPtr src_addr, CPtr addrlen]"

definition libc_recvmsg :: "int \<Rightarrow> nat \<Rightarrow> int \<Rightarrow> forwarder" where
  "libc_recvmsg sockfd msg flags = call_libc SWRAP_LIBSOCKET Recvmsg [CInt sockfd, CPtr msg, CInt flags]"

definition libc_send :: "int \<Rightarrow> nat \<Rightarrow> nat \<Rightarrow> int \<Rightarrow> forwarder" where
  "libc_send sockfd buf len flags = call_libc SWRAP_LIBSOCKET Send [CInt sockfd, CPtr buf, CSize len, CInt flags]"

definition libc_sendmsg :: "int \<Rightarrow> nat \<Rightarrow> int \<Rightarrow> forwarder" where
  "libc_sendmsg sockfd msg flags = call_libc SWRAP_LIBSOCKET Sendmsg [CInt sockfd, CPtr msg, CInt flags]"

definition libc_sendto :: "int \<Rightarrow> nat \<Rightarrow> nat \<Rightarrow> int \<Rightarrow> nat \<Rightarrow> nat \<Rightarrow> forwarder" where
  "libc_sendto sockfd buf len flags dst_addr addrlen =
     call_libc SWRAP_LIBSOCKET Sendto [CInt sockfd, CPtr buf, CSize len, CInt flags, CPtr dst_addr, CSize addrlen]"

definition libc_setsockopt :: "int \<Rightarrow> int \<Rightarrow> int \<Rightarrow> nat \<Rightarrow> nat \<Rightarrow> forwarder" where
  "libc_setsockopt sockfd level optname optval optlen =
     call_libc SWRAP_LIBSOCKET Setsockopt [CInt sockfd, CInt level, CInt optname, CPtr optval, CSize optlen]"

definition libc_signalfd :: "int \<Rightarrow> nat \<Rightarrow> int \<Rightarrow> forwarder" where
  "libc_signalfd fd sigs flags = call_libc SWRAP_LIBSOCKET Signalfd [CInt fd, CPtr sigs, CInt flags]"

definition libc_socket :: "int \<Rightarrow> int \<Rightarrow> int \<Rightarrow> forwarder" where
  "libc_socket domain type protocol = call_libc SWRAP_LIBSOCKET Socket [CInt domain, CInt type, CInt protocol]"

definition libc_socketpair :: "int \<Rightarrow> int \<Rightarrow> int \<Rightarrow> nat \<Rightarrow> forwarder" where
  "libc_socketpair domain type protocol sv = call_libc SWRAP_LIBSOCKET Socketpair [CInt domain, CInt type, CInt protocol, CPtr sv]"

definition libc_timerfd_create :: "int \<Rightarrow> int \<Rightarrow> forwarder" where
  "libc_timerfd_create clockid flags = call_libc SWRAP_LIBC Timerfd_create [CInt clockid, CInt flags]"

definition libc_write :: "int \<Rightarrow> nat \<Rightarrow> nat \<Rightarrow> forwarder" where
  "libc_write fd buf nbytes = call_libc SWRAP_LIBC Write [CInt fd, CPtr buf, CSize nbytes]"

definition libc_writev :: "int \<Rightarrow> nat \<Rightarrow> int \<Rightarrow> forwarder" where
  "libc_writev fd iov iovcnt = call_libc SWRAP_LIBSOCKET Writev [CInt fd, CPtr iov, CInt iovcnt]"

section \<open>What is bound\<close>

text \<open>The library a symbol is looked up in, and its handle once it is settled.\<close>

definition symbol_lib :: "libc_symbol \<Rightarrow> swrap_lib" where
  "symbol_lib s = the (map_of (map prod.swap bind_order) s)"

definition library_handle :: "linker \<Rightarrow> swrap_lib \<Rightarrow> handle" where
  "library_handle lk lib = (case if lib \<noteq> SWRAP_LIBC \<and> have_libsocket lk then open_libsocket lk else open_libc lk of
      Some h \<Rightarrow> h
    | None \<Rightarrow> RTLD_NEXT)"

text \<open>Each forwarding function, with the symbol it is named after.\<close>

inductive forwarding :: "libc_symbol \<Rightarrow> forwarder \<Rightarrow> bool" where
  "forwarding Accept4 (libc_accept4 sockfd addr addrlen flags)"
| "forwarding Bind (libc_bind sockfd addr len)"
| "forwarding Close (libc_close fd)"
| "forwarding Connect (libc_connect sockfd addr len)"
| "forwarding Dup (libc_dup fd)"
| "forwarding Dup2 (libc_dup2 fd newfd)"
| "forwarding Eventfd (libc_eventfd n flags)"
| "forwarding Fcntl (libc_vfcntl fd cmd va)"
| "forwarding Getpeername (libc_getpeername sockfd addr addrlen)"
| "forwarding Getsockname (libc_getsockname sockfd addr addrlen)"
| "forwarding Getsockopt (libc_getsockopt sockfd level optname optval optlen)"
| "forwarding Ioctl (libc_vioctl fd request va)"
| "forwarding Listen (libc_listen sockfd backlog)"
| "forwarding Fopen (libc_fopen name mode)"
| "forwarding Fopen64 (libc_fopen64 name mode)"
| "forwarding Open (libc_vopen name flags mode_arg)"
| "forwarding Open (libc_open name flags mode_arg)"
| "forwarding Open64 (libc_vopen64 name flags mode_arg)"
| "forwarding Openat (libc_vopenat dirfd name flags mode_arg)"
| "forwarding Pipe (libc_pipe fds)"
| "forwarding Read (libc_read fd buf n)"
| "forwarding Readv (libc_readv fd iov iovcnt)"
| "forwarding Recv (libc_recv sockfd buf len flags)"
| "forwarding Recvfrom (libc_recvfrom sockfd buf len flags addr addrlen)"
| "forwarding Recvmsg (libc_recvmsg sockfd msg flags)"
| "forwarding Send (libc_send sockfd buf len flags)"
| "forwarding Sendmsg (libc_sendmsg sockfd msg flags)"
| "forwarding Sendto (libc_sendto sockfd buf len flags addr addrlen)"
| "forwarding Setsockopt (libc_setsockopt sockfd level optname optval optlen)"
| "forwarding Signalfd (libc_signalfd fd sigs flags)"
| "forwarding Socket (libc_socket domain type protocol)"
| "forwarding Socketpair (libc_socketpair domain type protocol fds)"
| "forwarding Timerfd_create (libc_timerfd_create clockid flags)"
| "forwarding Write (libc_write fd buf n)"
| "forwarding Writev (libc_writev fd iov iovcnt)"

lemmas forwarders =
  libc_accept4_def libc_bind_def libc_close_def libc_connect_def libc_dup_def libc_dup2_def libc_eventfd_def
  libc_vfcntl_def libc_getpeername_def libc_getsockname_def libc_getsockopt_def libc_vioctl_def libc_listen_def
  libc_fopen_def libc_fopen64_def libc_vopen_def libc_open_def libc_vopen64_def libc_vopenat_def libc_pipe_def
  libc_read_def libc_readv_def libc_recv_def libc_recvfrom_def libc_recvmsg_def libc_send_def libc_sendmsg_def
  libc_sendto_def libc_setsockopt_def libc_signalfd_def libc_socket_def libc_socketpair_def libc_timerfd_create_def
  libc_write_def libc_writev_def

lemma symbol_lib_in:
  "(lib, s) \<in> set bind_order \<Longrightarrow> symbol_lib s = lib"
  by (auto simp: bind_order_def symbol_lib_def)

lemma bind_order_complete: "(symbol_lib s, s) \<in> set bind_order"
  by (cases s) (simp_all add: bind_order_def symbol_lib_def)

text \<open>A forwarding function binds its symbol from the library that \<open>swrap_bind_symbol_all\<close> takes it from.\<close>

lemma forwarding_call: "forwarding s fw \<Longrightarrow> \<exists>args. fw = call_libc (symbol_lib s) s args"
  by (induction rule: forwarding.induct) (auto simp: forwarders symbol_lib_def bind_order_def)

lemma swrap_bind_symbol_bound:
  "swrap_bind_symbol lk lib s st = Some (st', ops) \<Longrightarrow> symbols st' s \<noteq> None"
  "swrap_bind_symbol lk lib s st = Some (st', ops) \<Longrightarrow> symbols st u = Some f \<Longrightarrow> symbols st' u = Some f"
proof -
  have load: "symbols (snd (swrap_load_lib_handle lk lib st)) = symbols st"
    by (auto simp: swrap_load_lib_handle_def Let_def split: option.splits)
  show "swrap_bind_symbol lk lib s st = Some (st', ops) \<Longrightarrow> symbols st' s \<noteq> None"
    by (auto simp: swrap_bind_symbol_def split: if_splits)
  show "swrap_bind_symbol lk lib s st = Some (st', ops) \<Longrightarrow> symbols st u = Some f \<Longrightarrow> symbols st' u = Some f"
    using load by (auto simp: swrap_bind_symbol_def swrap_bind_symbol_from_def split: if_splits prod.splits)
qed

lemma swrap_bind_symbol_runs: "swrap_bind_symbol lk lib s st = Some (st', ops) \<Longrightarrow> runs libc_call ops"
  by (auto simp: swrap_bind_symbol_def runs_libc_call split: if_splits)

lemma bind_symbols_runs: "bind_symbols lk bs st = Some (st', ops) \<Longrightarrow> runs (Loop libc_call) ops"
proof (induction bs arbitrary: st ops)
  case Nil
  then show ?case by (auto intro: run_end)
next
  case (Cons b bs)
  then show ?case by (cases b) (auto split: option.splits intro!: run_again dest: swrap_bind_symbol_runs)
qed

lemma bind_symbols_keeps:
  "bind_symbols lk bs st = Some (st', ops) \<Longrightarrow> symbols st u = Some f \<Longrightarrow> symbols st' u = Some f"
proof (induction bs arbitrary: st ops)
  case (Cons b bs)
  then show ?case by (cases b) (auto split: option.splits dest: swrap_bind_symbol_bound(2))
qed simp

lemma bind_symbols_bound:
  "bind_symbols lk bs st = Some (st', ops) \<Longrightarrow> (lib, s) \<in> set bs \<Longrightarrow> symbols st' s \<noteq> None"
proof (induction bs arbitrary: st ops)
  case (Cons b bs)
  obtain lib' s' where b: "b = (lib', s')" by (cases b)
  from Cons.prems obtain st1 ops1 ops2 where s: "swrap_bind_symbol lk lib' s' st = Some (st1, ops1)"
    "bind_symbols lk bs st1 = Some (st', ops2)" by (auto simp: b split: option.splits)
  show ?case
  proof (cases "(lib, s) \<in> set bs")
    case True
    then show ?thesis by (rule Cons.IH [OF s(2)])
  next
    case False
    then have "s' = s" using Cons.prems(2) by (simp add: b)
    then show ?thesis using swrap_bind_symbol_bound(1) [OF s(1)] bind_symbols_keeps [OF s(2)] by auto
  qed
qed simp

section \<open>Where the functions come from\<close>

text \<open>
  With a \<open>libsocket\<close> apart from libc the two searches must succeed: one that fails replaces the
  handle of the other, so that what is bound depends on the order of the calls.
\<close>

definition libraries_found :: "linker \<Rightarrow> bool" where
  "libraries_found lk \<longleftrightarrow> (have_libsocket lk \<longrightarrow> open_libsocket lk \<noteq> None \<and> open_libc lk \<noteq> None)"

definition handles_settled :: "linker \<Rightarrow> bindings \<Rightarrow> bool" where
  "handles_settled lk st \<longleftrightarrow> libc_handle st \<in> {None, Some (library_handle lk SWRAP_LIBC)}
    \<and> (have_libsocket lk \<longrightarrow> socket_handle st \<in> {None, Some (library_handle lk SWRAP_LIBSOCKET)})"

definition settled :: "linker \<Rightarrow> bindings \<Rightarrow> bool" where
  "settled lk st \<longleftrightarrow> handles_settled lk st
    \<and> (\<forall>s f. symbols st s = Some f \<longrightarrow> dlsym lk (library_handle lk (symbol_lib s)) (symbol_name s) = Some f)"

lemma settled_unbound: "settled lk unbound"
  by (simp add: settled_def handles_settled_def unbound_def)

lemma load_settled:
  assumes "libraries_found lk" "settled lk st" "swrap_load_lib_handle lk lib st = (h, st')"
  shows "h = library_handle lk lib \<and> settled lk st' \<and> symbols st' = symbols st"
proof -
  have "handles_settled lk st" using assms(2) by (simp add: settled_def)
  then have "h = library_handle lk lib \<and> handles_settled lk st' \<and> symbols st' = symbols st"
    using assms(1,3) unfolding swrap_load_lib_handle_def Let_def libraries_found_def handles_settled_def library_handle_def
    by (auto split: option.splits if_splits)
  then show ?thesis using assms(2) by (simp add: settled_def)
qed

lemma bind_from_settled:
  assumes "libraries_found lk" "settled lk st"
  shows "map_option fst (swrap_bind_symbol_from lk lib n st) = dlsym lk (library_handle lk lib) n"
    "swrap_bind_symbol_from lk lib n st = Some (f, st') \<Longrightarrow> settled lk st' \<and> symbols st' = symbols st"
  using load_settled [OF assms]
  by (auto simp: swrap_bind_symbol_from_def option.map_comp comp_def option.map_ident split: prod.splits)

lemma bind_settled:
  assumes "libraries_found lk" "settled lk st"
  shows "swrap_bind_symbol lk (symbol_lib s) s st = None \<longleftrightarrow> dlsym lk (library_handle lk (symbol_lib s)) (symbol_name s) = None"
    "swrap_bind_symbol lk (symbol_lib s) s st = Some (st', ops) \<Longrightarrow> settled lk st'"
proof -
  have found: "dlsym lk (library_handle lk (symbol_lib s)) (symbol_name s) = Some f" if "symbols st s = Some f" for f
    using assms(2) that by (simp add: settled_def)
  note from_simps = bind_from_settled(1) [OF assms, of "symbol_lib s" "symbol_name s"]
  show "swrap_bind_symbol lk (symbol_lib s) s st = None \<longleftrightarrow> dlsym lk (library_handle lk (symbol_lib s)) (symbol_name s) = None"
    using found from_simps by (cases "symbols st s") (auto simp: swrap_bind_symbol_def map_option_is_None [symmetric])
  show "settled lk st'" if b: "swrap_bind_symbol lk (symbol_lib s) s st = Some (st', ops)"
  proof (cases "symbols st s")
    case (Some f)
    then show ?thesis using b assms(2) by (simp add: swrap_bind_symbol_def)
  next
    case None
    then obtain f st1 where f: "swrap_bind_symbol_from lk (symbol_lib s) (symbol_name s) st = Some (f, st1)"
      "st' = st1\<lparr>symbols := (symbols st1)(s \<mapsto> f)\<rparr>" using b by (auto simp: swrap_bind_symbol_def)
    then show ?thesis using bind_from_settled(2) [OF assms f(1)] from_simps by (auto simp: settled_def handles_settled_def)
  qed
qed

lemma bind_symbols_settled:
  "libraries_found lk \<Longrightarrow> settled lk st \<Longrightarrow> set bs \<subseteq> set bind_order \<Longrightarrow> bind_symbols lk bs st = Some (st', ops) \<Longrightarrow> settled lk st'"
proof (induction bs arbitrary: st ops)
  case (Cons b bs)
  obtain lib s where b: "b = (lib, s)" by (cases b)
  have lib: "lib = symbol_lib s" using Cons.prems(3) symbol_lib_in [of lib s] by (simp add: b)
  obtain st1 ops1 ops2 where s: "swrap_bind_symbol lk (symbol_lib s) s st = Some (st1, ops1)"
    "bind_symbols lk bs st1 = Some (st', ops2)" using Cons.prems(4) by (auto simp: b lib split: option.splits)
  then show ?case using Cons.IH bind_settled(2) [OF Cons.prems(1,2) s(1)] Cons.prems(1,3) by auto
qed simp

text \<open>The states that calls of the library, and forks, lead to.\<close>

inductive bound_by :: "linker \<Rightarrow> bindings \<Rightarrow> bool" for lk where
  bound_start: "bound_by lk unbound"
| bound_call: "bound_by lk st \<Longrightarrow> forwarding s fw \<Longrightarrow> fw lk st = Some r \<Longrightarrow> bound_by lk (bound r)"
| bound_fork: "bound_by lk st \<Longrightarrow> swrap_thread_prepare lk st = Some (st', ops) \<Longrightarrow> bound_by lk st'"

lemma forwarding_settled:
  assumes "libraries_found lk" "settled lk st" "forwarding s fw" "fw lk st = Some r"
  shows "settled lk (bound r)" "target r = dlsym lk (library_handle lk (symbol_lib s)) (symbol_name s)" "target r \<noteq> None"
proof -
  obtain args where fw: "fw = call_libc (symbol_lib s) s args" using forwarding_call [OF assms(3)] by blast
  obtain st' ops where st': "swrap_bind_symbol lk (symbol_lib s) s st = Some (st', ops)" and r: "target r = symbols st' s" "bound r = st'"
    using assms(4) by (auto simp: fw call_libc_def)
  show settled: "settled lk (bound r)" using bind_settled(2) [OF assms(1,2) st'] by (simp add: r)
  show "target r \<noteq> None" using swrap_bind_symbol_bound(1) [OF st'] by (simp add: r)
  then show "target r = dlsym lk (library_handle lk (symbol_lib s)) (symbol_name s)"
    using settled by (auto simp: settled_def r)
qed

lemma bound_by_settled: "bound_by lk st \<Longrightarrow> libraries_found lk \<Longrightarrow> settled lk st"
proof (induction rule: bound_by.induct)
  case bound_start
  then show ?case by (simp add: settled_unbound)
next
  case (bound_call st s fw r)
  then show ?case using forwarding_settled(1) by blast
next
  case (bound_fork st st' ops)
  then obtain ops' where "bind_symbols lk bind_order st = Some (st', ops')"
    by (auto simp: swrap_thread_prepare_def swrap_bind_symbol_all_def)
  then show ?case using bind_symbols_settled bound_fork.IH bound_fork.prems by blast
qed

section \<open>Properties\<close>

text \<open>
  (C26) Binding on first use cannot be seen: whatever was called before, a forwarding function ends in the
  function that the linker gives for its own name in its library, with the arguments it would have handed on in a
  fresh process, and the process exits for a missing symbol exactly where it would have then.
\<close>

theorem forwarding_history_free:
  assumes "libraries_found lk" "bound_by lk st" "forwarding s fw"
  shows "map_option (\<lambda>r. (target r, arguments r)) (fw lk st) = map_option (\<lambda>r. (target r, arguments r)) (fw lk unbound)
    \<and> map_option target (fw lk st) = map_option Some (dlsym lk (library_handle lk (symbol_lib s)) (symbol_name s))"
proof -
  obtain args where fw: "fw = call_libc (symbol_lib s) s args" using forwarding_call [OF assms(3)] by blast
  have "map_option (\<lambda>r. (target r, arguments r)) (fw lk u)
    = map_option (\<lambda>f. (Some f, args)) (dlsym lk (library_handle lk (symbol_lib s)) (symbol_name s))"
    if u: "settled lk u" for u
  proof (cases "fw lk u")
    case None
    then show ?thesis using bind_settled(1) [OF assms(1) u, of s] by (auto simp: fw call_libc_def)
  next
    case (Some r)
    then have "arguments r = args" by (auto simp: fw call_libc_def)
    then show ?thesis using forwarding_settled(2,3) [OF assms(1) u assms(3) Some] Some by auto
  qed
  note same = this [OF bound_by_settled [OF assms(2,1)]] this [OF settled_unbound]
  have "map_option target (fw lk st) = map_option fst (map_option (\<lambda>r. (target r, arguments r)) (fw lk st))"
    by (simp add: option.map_comp comp_def)
  then show ?thesis unfolding same by (simp add: option.map_comp comp_def)
qed

definition glibc :: linker where
  "glibc = \<lparr>getenv = (\<lambda>_. None), dlopen = (\<lambda>n _. if n = ''libc.so.6'' then Some 7 else None),
     dlsym = (\<lambda>h n. if h = Handle 7 then Some (length n) else None), have_libsocket = False, libc_so = Some ''libc.so.6''\<rparr>"

lemma glibc_bind:
  "\<exists>st'. swrap_bind_symbol glibc lib s unbound = Some (st', [Acquire Symbol_binding, Release Symbol_binding])"
  by (auto simp: swrap_bind_symbol_def unbound_def swrap_bind_symbol_from_def swrap_load_lib_handle_def glibc_def open_libc_def)

theorem forwarding_history_free_witness:
  "\<exists>r. libc_dup 3 glibc unbound = Some r
    \<and> map_option (\<lambda>r. (target r, arguments r)) (libc_close 3 glibc (bound r))
      = map_option (\<lambda>r. (target r, arguments r)) (libc_close 3 glibc unbound)"
proof -
  obtain r where r: "libc_dup 3 glibc unbound = Some r"
    using glibc_bind [of SWRAP_LIBC Dup] by (auto simp: libc_dup_def call_libc_def)
  have "libraries_found glibc" by (simp add: libraries_found_def glibc_def)
  then show ?thesis
    using forwarding_history_free [OF _ bound_call [OF bound_start forwarding.intros(5) r] forwarding.intros(3)] r by blast
qed

text \<open>
  (C25) What the handler before a fork is there for: after it every symbol is bound, and as long as its mutex is
  held no forwarding function asks for it, so that a signal handler that calls the library does not wait for ever.
\<close>

theorem prepare_binds_all:
  assumes "swrap_thread_prepare lk st = Some (st', ops)" "forwarding s fw"
  shows "(\<forall>u. symbols st' u \<noteq> None) \<and> runs swrap_thread_prepare_locks ops
    \<and> (\<exists>r. fw lk st' = Some r \<and> mutexes r = [] \<and> bound r = st' \<and> target r \<noteq> None)"
proof -
  obtain ops' where all: "bind_symbols lk bind_order st = Some (st', ops')" and ops: "ops = ops' @ [Acquire Symbol_binding]"
    using assms(1) by (auto simp: swrap_thread_prepare_def swrap_bind_symbol_all_def)
  have bound: "symbols st' u \<noteq> None" for u using bind_symbols_bound [OF all bind_order_complete] .
  have "runs swrap_thread_prepare_locks (ops' @ [Acquire Symbol_binding])"
    unfolding swrap_thread_prepare_locks_def swrap_bind_symbol_all_locks_def
    by (intro run_steps bind_symbols_runs [OF all] walk)
  moreover obtain args where "fw = call_libc (symbol_lib s) s args" using forwarding_call [OF assms(2)] by blast
  ultimately show ?thesis using bound by (auto simp: ops call_libc_def swrap_bind_symbol_def)
qed

theorem prepare_binds_all_witness:
  "\<exists>st ops r. swrap_thread_prepare glibc unbound = Some (st, ops) \<and> libc_close 3 glibc st = Some r \<and> mutexes r = []"
proof -
  have "bind_symbols glibc bs st \<noteq> None" if "settled glibc st" "set bs \<subseteq> set bind_order" for bs st
    using that
  proof (induction bs arbitrary: st)
    case (Cons b bs)
    obtain lib s where b: "b = (lib, s)" by (cases b)
    have lib: "lib = symbol_lib s" using Cons.prems(2) symbol_lib_in [of lib s] by (simp add: b)
    have found: "libraries_found glibc" by (simp add: libraries_found_def glibc_def)
    have "dlsym glibc (library_handle glibc lib) (symbol_name s) \<noteq> None"
      by (simp add: library_handle_def open_libc_def glibc_def)
    then obtain st1 ops where "swrap_bind_symbol glibc (symbol_lib s) s st = Some (st1, ops)"
      using bind_settled(1) [OF found Cons.prems(1), of s] by (auto simp: lib)
    then show ?case using Cons.IH bind_settled(2) [OF found Cons.prems(1)] Cons.prems(2) by (auto simp: b lib)
  qed simp
  then obtain st ops where p: "swrap_thread_prepare glibc unbound = Some (st, ops)"
    using settled_unbound by (force simp: swrap_thread_prepare_def swrap_bind_symbol_all_def)
  then show ?thesis using prepare_binds_all [OF p forwarding.intros(3)] by blast
qed

section \<open>Threads that bind at the same time\<close>

text \<open>
  The macros step by step: the first look at the symbol is without the mutex. Where a thread is:
  outside, waiting for the mutex after it saw no function, holding it before the second look,
  holding it after that, and about to call. Loads and stores of the pointers take effect in some order.
\<close>

datatype place = Outside | Waiting libc_symbol | Checking libc_symbol | Leaving libc_symbol | Calling libc_symbol

record race =
  places :: "nat \<Rightarrow> place"
  owner :: "nat option"
  the_table :: bindings
  lookups :: "libc_symbol list"
  calls :: "(libc_symbol \<times> func option) list"

definition race_start :: race where
  "race_start = \<lparr>places = (\<lambda>_. Outside), owner = None, the_table = unbound, lookups = [], calls = []\<rparr>"

definition move :: "nat \<Rightarrow> place \<Rightarrow> race \<Rightarrow> race" where
  "move t p r = r\<lparr>places := (places r)(t := p)\<rparr>"

lemma move_simps [simp]:
  "places (move t p r) = (places r)(t := p)" "owner (move t p r) = owner r" "the_table (move t p r) = the_table r"
  "lookups (move t p r) = lookups r" "calls (move t p r) = calls r"
  by (simp_all add: move_def)

inductive race_step :: "linker \<Rightarrow> race \<Rightarrow> race \<Rightarrow> bool" for lk where
  sees_function: "places r t = Outside \<Longrightarrow> symbols (the_table r) s \<noteq> None \<Longrightarrow> race_step lk r (move t (Calling s) r)"
| sees_none: "places r t = Outside \<Longrightarrow> symbols (the_table r) s = None \<Longrightarrow> race_step lk r (move t (Waiting s) r)"
| locks: "places r t = Waiting s \<Longrightarrow> owner r = None \<Longrightarrow> race_step lk r (move t (Checking s) (r\<lparr>owner := Some t\<rparr>))"
| sees_other: "places r t = Checking s \<Longrightarrow> symbols (the_table r) s \<noteq> None \<Longrightarrow> race_step lk r (move t (Leaving s) r)"
| binds: "places r t = Checking s \<Longrightarrow> symbols (the_table r) s = None \<Longrightarrow>
    swrap_bind_symbol_from lk (symbol_lib s) (symbol_name s) (the_table r) = Some (f, st) \<Longrightarrow>
    race_step lk r (move t (Leaving s) (r\<lparr>the_table := st\<lparr>symbols := (symbols st)(s \<mapsto> f)\<rparr>, lookups := lookups r @ [s]\<rparr>))"
| unlocks: "places r t = Leaving s \<Longrightarrow> race_step lk r (move t (Calling s) (r\<lparr>owner := None\<rparr>))"
| invokes: "places r t = Calling s \<Longrightarrow>
    race_step lk r (move t Outside (r\<lparr>calls := calls r @ [(s, symbols (the_table r) s)]\<rparr>))"

fun inside :: "place \<Rightarrow> bool" where
  "inside (Checking _) = True"
| "inside (Leaving _) = True"
| "inside _ = False"

definition race_ok :: "linker \<Rightarrow> race \<Rightarrow> bool" where
  "race_ok lk r \<longleftrightarrow> settled lk (the_table r) \<and> (\<forall>t. inside (places r t) \<longleftrightarrow> owner r = Some t)
    \<and> (\<forall>t s. places r t \<in> {Leaving s, Calling s} \<longrightarrow> symbols (the_table r) s \<noteq> None)
    \<and> distinct (lookups r) \<and> set (lookups r) = dom (symbols (the_table r))
    \<and> (\<forall>(s, f) \<in> set (calls r). f \<noteq> None \<and> f = symbols (the_table r) s)"

lemma race_start_ok: "race_ok lk race_start"
  using settled_unbound by (simp add: race_ok_def race_start_def) (simp add: unbound_def)

lemma race_step_ok:
  assumes "race_step lk r r'" "libraries_found lk" "race_ok lk r"
  shows "race_ok lk r'"
proof -
  have own: "inside (places r t) \<longleftrightarrow> owner r = Some t" for t using assms(3) by (simp add: race_ok_def)
  have called: "b \<noteq> None \<and> b = symbols (the_table r) a" if "(a, b) \<in> set (calls r)" for a b
    using assms(3) that by (auto simp: race_ok_def)
  show ?thesis using assms(1)
  proof (cases rule: race_step.cases)
    case (sees_function t s)
    then show ?thesis using assms(3) own [of t] by (auto simp: race_ok_def split: if_splits)
  next
    case (sees_none t s)
    then show ?thesis using assms(3) own [of t] by (auto simp: race_ok_def split: if_splits)
  next
    case (locks t s)
    then show ?thesis using assms(3) own [of t] by (auto simp: race_ok_def split: if_splits)
  next
    case (sees_other t s)
    then show ?thesis using assms(3) own [of t] by (auto simp: race_ok_def split: if_splits)
  next
    case (binds t s f st)
    have st: "settled lk st" "symbols st = symbols (the_table r)"
      using bind_from_settled(2) [OF assms(2) _ binds(4)] assms(3) by (auto simp: race_ok_def)
    have "dlsym lk (library_handle lk (symbol_lib s)) (symbol_name s) = Some f"
      using bind_from_settled(1) [OF assms(2), of "the_table r" "symbol_lib s" "symbol_name s"] assms(3) binds(4)
      by (simp add: race_ok_def)
    then have "settled lk (st\<lparr>symbols := (symbols st)(s \<mapsto> f)\<rparr>)"
      using st(1) by (auto simp: settled_def handles_settled_def)
    moreover have "inside (places r t)" by (simp add: binds(2))
    ultimately show ?thesis using binds(1,2,3) assms(3) st(2) unfolding race_ok_def
      by (auto split: if_splits dest: called)
  next
    case (unlocks t s)
    then show ?thesis using assms(3) own [of t] by (auto simp: race_ok_def split: if_splits)
  next
    case (invokes t s)
    then show ?thesis using assms(3) own [of t] by (auto simp: race_ok_def split: if_splits)
  qed
qed

lemma race_ok_steps: "(race_step lk)\<^sup>*\<^sup>* r r' \<Longrightarrow> libraries_found lk \<Longrightarrow> race_ok lk r \<Longrightarrow> race_ok lk r'"
  by (induction rule: rtranclp_induct) (auto intro: race_step_ok)

text \<open>
  (C12) The look at the pointer without the mutex, a race on purpose, is harmless: however threads interleave, at
  most one is between the mutex calls, no symbol is ever looked up twice, and every call ends in the function that
  the linker gives for the name, never in the null pointer.
\<close>

theorem race_harmless:
  assumes "libraries_found lk" "(race_step lk)\<^sup>*\<^sup>* race_start r"
  shows "(\<forall>t u. inside (places r t) \<and> inside (places r u) \<longrightarrow> t = u)
    \<and> distinct (lookups r) \<and> set (lookups r) = dom (symbols (the_table r))
    \<and> (\<forall>(s, f) \<in> set (calls r). f \<noteq> None \<and> f = dlsym lk (library_handle lk (symbol_lib s)) (symbol_name s))"
proof -
  have ok: "race_ok lk r" using race_ok_steps [OF assms(2,1) race_start_ok] .
  have own: "inside (places r t) \<longleftrightarrow> owner r = Some t" for t using ok by (simp add: race_ok_def)
  have "t = u" if "inside (places r t) \<and> inside (places r u)" for t u
    using that unfolding own by auto
  moreover have "f \<noteq> None \<and> f = dlsym lk (library_handle lk (symbol_lib s)) (symbol_name s)" if "(s, f) \<in> set (calls r)" for s f
    using ok that by (auto simp: race_ok_def settled_def)
  ultimately show ?thesis using ok by (auto simp: race_ok_def)
qed

text \<open>Two threads see that \<open>close\<close> is not bound; the one that gets the mutex second finds it bound.\<close>

theorem race_harmless_witness:
  "\<exists>r. (race_step glibc)\<^sup>*\<^sup>* race_start r \<and> lookups r = [Close] \<and> (\<forall>t. inside (places r t) \<longleftrightarrow> t = 1)
    \<and> places r 0 = Calling Close \<and> distinct (lookups r)"
proof -
  define r1 where "r1 = move 0 (Waiting Close) race_start"
  define r2 where "r2 = move 1 (Waiting Close) r1"
  define r3 where "r3 = move 0 (Checking Close) (r2\<lparr>owner := Some 0\<rparr>)"
  define st where "st = snd (swrap_load_lib_handle glibc SWRAP_LIBC unbound)"
  define r4 where "r4 = move 0 (Leaving Close) (r3\<lparr>the_table := st\<lparr>symbols := (symbols st)(Close \<mapsto> 5)\<rparr>, lookups := lookups r3 @ [Close]\<rparr>)"
  define r5 where "r5 = move 0 (Calling Close) (r4\<lparr>owner := None\<rparr>)"
  define r6 where "r6 = move 1 (Checking Close) (r5\<lparr>owner := Some 1\<rparr>)"
  note defs = r1_def r2_def r3_def r4_def r5_def r6_def
  have "symbol_lib Close = SWRAP_LIBC" by (simp add: symbol_lib_def bind_order_def)
  then have found: "swrap_bind_symbol_from glibc (symbol_lib Close) (symbol_name Close) unbound = Some (5, st)"
    by (simp add: swrap_bind_symbol_from_def swrap_load_lib_handle_def glibc_def open_libc_def unbound_def st_def symbol_name_def)
  have start: "the_table race_start = unbound" "places race_start t = Outside" "owner race_start = None" "symbols unbound s = None" for t s
    by (simp_all add: race_start_def unbound_def)
  have "race_step glibc race_start r1" unfolding r1_def by (rule sees_none) (simp_all add: start)
  moreover have "race_step glibc r1 r2" unfolding r2_def by (rule sees_none) (simp_all add: start r1_def)
  moreover have "race_step glibc r2 r3" unfolding r3_def by (rule locks) (simp_all add: start r1_def r2_def)
  moreover have "race_step glibc r3 r4" unfolding r4_def
    by (rule binds) (simp_all add: start r1_def r2_def r3_def found)
  moreover have "race_step glibc r4 r5" unfolding r5_def by (rule unlocks) (simp add: r4_def)
  moreover have "race_step glibc r5 r6" unfolding r6_def by (rule locks) (simp_all add: defs start)
  ultimately have steps: "(race_step glibc)\<^sup>*\<^sup>* race_start r6" by (meson converse_rtranclp_into_rtranclp rtranclp.rtrancl_refl)
  have "libraries_found glibc" by (simp add: libraries_found_def glibc_def)
  from race_harmless [OF this steps] have "distinct (lookups r6)" by blast
  with steps show ?thesis by (intro exI [of _ r6]) (simp add: defs race_start_def)
qed

end
