(* ===== verification/Swrap_Start.thy ===== *)
theory Swrap_Start
  imports Main
begin

text \<open>
  The start of lwIP by \<open>lwip_init.c\<close>, which \<open>socket\<close> of socket_wrapper.c calls each time, and by
  \<open>main\<close> of \<open>http_server.c\<close> and \<open>ping.c\<close>: two threads that meet at a semaphore. The thread of the stack adds the
  interface, which runs the initialisation of the AF_XDP driver, and that calls \<open>socket\<close> itself.
  Where the wrapper is preloaded this call is the wrapper's, as the driver is in a shared library
  of its own (\<open>libipxdp.so\<close>) and preloaded symbols come first. lwIP is a parameter as far as
  it does what is asked of it; \<open>sys_sem_new\<close> may fail. The build has \<open>NO_SYS\<close> off and IPv4 on.
\<close>

section \<open>Configuration\<close>

type_synonym ip4 = "nat \<times> nat \<times> nat \<times> nat"

definition LWIP_PORT_INIT_IPADDR :: ip4 where "LWIP_PORT_INIT_IPADDR = (192, 168, 1, 200)"
definition LWIP_PORT_INIT_GW :: ip4 where "LWIP_PORT_INIT_GW = (192, 168, 1, 1)"
definition LWIP_PORT_INIT_NETMASK :: ip4 where "LWIP_PORT_INIT_NETMASK = (255, 255, 255, 0)"

section \<open>Calls of lwIP\<close>

text \<open>The one static \<open>netif\<close> of the file is what they are about.\<close>

datatype lwip_call =
    Tcpip_init
  | Netif_add ip4 ip4 ip4
  | Netif_set_default
  | Netif_set_up
  | Ping_init ip4
  | Http_server_netconn_init

text \<open>The driver's initialisation, in \<open>netif_add\<close>, calls the wrapper's \<open>socket\<close> where that is preloaded.\<close>

datatype setting = Linked | Preloaded | Http_server | Ping_client

text \<open>Where the caller of \<open>max_lwip_init\<close> (or \<open>main\<close>) is, and where the thread of the stack.\<close>

datatype caller = At_sem_new | At_tcpip_init | At_sem_wait | At_sem_free | Returned
datatype tcpip = Not_started | At_netif_add | In_driver | At_set_default | At_set_up | At_ping_init | At_sem_signal | Done

record start =
  caller :: caller
  tcpip :: tcpip
  sem :: nat

definition fresh_start :: start where
  "fresh_start = \<lparr>caller = At_sem_new, tcpip = Not_started, sem = 0\<rparr>"

text \<open>
  \<open>starts\<close>: the call of the application comes first, each further one is made by the driver in the thread
  of the stack that the one before it started. \<open>sockets\<close> counts the application's calls.
\<close>

record system =
  starts :: "start list"
  log :: "lwip_call list"
  sockets :: nat
  serving :: bool

definition system_start :: system where
  "system_start = \<lparr>starts = [fresh_start], log = [], sockets = 1, serving = False\<rparr>"

definition put :: "nat \<Rightarrow> start \<Rightarrow> system \<Rightarrow> system" where
  "put i x st = st\<lparr>starts := (starts st)[i := x]\<rparr>"

definition say :: "lwip_call \<Rightarrow> system \<Rightarrow> system" where
  "say c st = st\<lparr>log := log st @ [c]\<rparr>"

inductive caller_step :: "nat \<Rightarrow> system \<Rightarrow> system \<Rightarrow> bool" where
  sem_new: "i < length (starts st) \<Longrightarrow> starts st ! i = x \<Longrightarrow> caller x = At_sem_new \<Longrightarrow>
    caller_step i st (put i (x\<lparr>caller := At_tcpip_init, sem := 0\<rparr>) st)"
| tcpip_init: "i < length (starts st) \<Longrightarrow> starts st ! i = x \<Longrightarrow> caller x = At_tcpip_init \<Longrightarrow>
    caller_step i st (put i (x\<lparr>caller := At_sem_wait, tcpip := At_netif_add\<rparr>) (say Tcpip_init st))"
| sem_wait: "i < length (starts st) \<Longrightarrow> starts st ! i = x \<Longrightarrow> caller x = At_sem_wait \<Longrightarrow> 0 < sem x \<Longrightarrow>
    caller_step i st (put i (x\<lparr>caller := At_sem_free, sem := sem x - 1\<rparr>) st)"
| sem_free: "i < length (starts st) \<Longrightarrow> starts st ! i = x \<Longrightarrow> caller x = At_sem_free \<Longrightarrow>
    caller_step i st (put i (x\<lparr>caller := Returned\<rparr>) st)"

text \<open>\<open>test_init\<close> of the ping client starts its thread, with the gateway as the target, before it signals.\<close>

definition after_set_up :: "setting \<Rightarrow> tcpip" where
  "after_set_up setting = (if setting = Ping_client then At_ping_init else At_sem_signal)"

definition ping_init :: "ip4 \<Rightarrow> system \<Rightarrow> system" where
  "ping_init ping_addr st = say (Ping_init ping_addr) st"

text \<open>\<open>test_init\<close> and \<open>test_netif_init\<close>; the driver goes on when its own call of \<open>socket\<close> has come back.\<close>

inductive tcpip_step :: "setting \<Rightarrow> nat \<Rightarrow> system \<Rightarrow> system \<Rightarrow> bool" for setting where
  netif_add: "i < length (starts st) \<Longrightarrow> starts st ! i = x \<Longrightarrow> tcpip x = At_netif_add \<Longrightarrow> setting \<noteq> Preloaded \<Longrightarrow>
    tcpip_step setting i st (put i (x\<lparr>tcpip := At_set_default\<rparr>)
      (say (Netif_add LWIP_PORT_INIT_IPADDR LWIP_PORT_INIT_NETMASK LWIP_PORT_INIT_GW) st))"
| driver_socket: "i < length (starts st) \<Longrightarrow> starts st ! i = x \<Longrightarrow> tcpip x = At_netif_add \<Longrightarrow> setting = Preloaded \<Longrightarrow>
    tcpip_step setting i st (let st = put i (x\<lparr>tcpip := In_driver\<rparr>)
      (say (Netif_add LWIP_PORT_INIT_IPADDR LWIP_PORT_INIT_NETMASK LWIP_PORT_INIT_GW) st)
      in st\<lparr>starts := starts st @ [fresh_start]\<rparr>)"
| driver_back: "Suc i < length (starts st) \<Longrightarrow> starts st ! i = x \<Longrightarrow> tcpip x = In_driver \<Longrightarrow>
    caller (starts st ! Suc i) = Returned \<Longrightarrow> tcpip_step setting i st (put i (x\<lparr>tcpip := At_set_default\<rparr>) st)"
| set_default: "i < length (starts st) \<Longrightarrow> starts st ! i = x \<Longrightarrow> tcpip x = At_set_default \<Longrightarrow>
    tcpip_step setting i st (put i (x\<lparr>tcpip := At_set_up\<rparr>) (say Netif_set_default st))"
| set_up: "i < length (starts st) \<Longrightarrow> starts st ! i = x \<Longrightarrow> tcpip x = At_set_up \<Longrightarrow>
    tcpip_step setting i st (put i (x\<lparr>tcpip := after_set_up setting\<rparr>) (say Netif_set_up st))"
| start_ping: "i < length (starts st) \<Longrightarrow> starts st ! i = x \<Longrightarrow> tcpip x = At_ping_init \<Longrightarrow>
    tcpip_step setting i st (put i (x\<lparr>tcpip := At_sem_signal\<rparr>) (ping_init LWIP_PORT_INIT_GW st))"
| sem_signal: "i < length (starts st) \<Longrightarrow> starts st ! i = x \<Longrightarrow> tcpip x = At_sem_signal \<Longrightarrow>
    tcpip_step setting i st (put i (x\<lparr>tcpip := Done, sem := Suc (sem x)\<rparr>) st)"

inductive start_step :: "setting \<Rightarrow> system \<Rightarrow> system \<Rightarrow> bool" for setting where
  calls: "caller_step i st st' \<Longrightarrow> start_step setting st st'"
| stack: "tcpip_step setting i st st' \<Longrightarrow> start_step setting st st'"

definition returned :: "system \<Rightarrow> bool" where
  "returned st \<longleftrightarrow> caller (starts st ! 0) = Returned"

text \<open>The application's next \<open>socket\<close>. \<open>main\<close> of the server goes on once and then sleeps; that of ping only sleeps.\<close>

definition next_socket :: "system \<Rightarrow> system" where
  "next_socket st = st\<lparr>starts := [fresh_start], sockets := Suc (sockets st)\<rparr>"

definition serve_http :: "system \<Rightarrow> system" where
  "serve_http st = say Http_server_netconn_init (st\<lparr>serving := True\<rparr>)"

inductive program_step :: "setting \<Rightarrow> system \<Rightarrow> system \<Rightarrow> bool" for setting where
  starting: "start_step setting st st' \<Longrightarrow> program_step setting st st'"
| another: "returned st \<Longrightarrow> setting = Linked \<or> setting = Preloaded \<Longrightarrow> program_step setting st (next_socket st)"
| serve: "returned st \<Longrightarrow> setting = Http_server \<Longrightarrow> \<not> serving st \<Longrightarrow> program_step setting st (serve_http st)"

section \<open>A driver that calls libc\<close>

definition start_calls :: "setting \<Rightarrow> lwip_call list" where
  "start_calls setting = [Tcpip_init, Netif_add LWIP_PORT_INIT_IPADDR LWIP_PORT_INIT_NETMASK LWIP_PORT_INIT_GW, Netif_set_default, Netif_set_up]
     @ (if setting = Ping_client then [Ping_init LWIP_PORT_INIT_GW] else [])"

definition said :: "setting \<Rightarrow> tcpip \<Rightarrow> lwip_call list" where
  "said setting p = take (case p of Not_started \<Rightarrow> 0 | At_netif_add \<Rightarrow> 1 | In_driver \<Rightarrow> 2 | At_set_default \<Rightarrow> 2
     | At_set_up \<Rightarrow> 3 | At_ping_init \<Rightarrow> 4 | At_sem_signal \<Rightarrow> 5 | Done \<Rightarrow> 5) (start_calls setting)"

lemma said_done [simp]: "said setting Done = start_calls setting" "length (start_calls setting) \<le> 5"
  by (auto simp: said_def start_calls_def)

definition together :: "setting \<Rightarrow> start \<Rightarrow> bool" where
  "together setting x \<longleftrightarrow> (case caller x of
      At_sem_new \<Rightarrow> tcpip x = Not_started \<and> sem x = 0
    | At_tcpip_init \<Rightarrow> tcpip x = Not_started \<and> sem x = 0
    | At_sem_wait \<Rightarrow> tcpip x \<notin> {Not_started, In_driver} \<and> (tcpip x = At_ping_init \<longrightarrow> setting = Ping_client) \<and> sem x = (if tcpip x = Done then 1 else 0)
    | _ \<Rightarrow> tcpip x = Done)"

definition one_start :: "setting \<Rightarrow> system \<Rightarrow> start \<Rightarrow> bool" where
  "one_start setting st x \<longleftrightarrow> starts st = [x] \<and> together setting x \<and> 0 < sockets st \<and> (serving st \<longrightarrow> caller x = Returned \<and> setting = Http_server)
    \<and> log st = concat (replicate (sockets st - 1) (start_calls setting)) @ said setting (tcpip x) @ (if serving st then [Http_server_netconn_init] else [])"

text \<open>A bound on the steps a start has still to make.\<close>

definition work :: "start \<Rightarrow> nat" where
  "work x = (case caller x of At_sem_new \<Rightarrow> 4 | At_tcpip_init \<Rightarrow> 3 | At_sem_wait \<Rightarrow> 2 | At_sem_free \<Rightarrow> 1 | Returned \<Rightarrow> 0)
     + (case tcpip x of Not_started \<Rightarrow> 5 | At_netif_add \<Rightarrow> 5 | In_driver \<Rightarrow> 5 | At_set_default \<Rightarrow> 4 | At_set_up \<Rightarrow> 3
        | At_ping_init \<Rightarrow> 2 | At_sem_signal \<Rightarrow> 1 | Done \<Rightarrow> 0)"

lemmas start_defs = one_start_def together_def said_def work_def start_calls_def put_def say_def after_set_up_def ping_init_def

lemma start_step_one:
  assumes "start_step setting st st'" "setting \<noteq> Preloaded" "one_start setting st x"
  shows "\<exists>y. one_start setting st' y \<and> work y < work x"
  using assms(1)
proof (cases rule: start_step.cases)
  case (calls i)
  then show ?thesis using assms(3)
    by (cases rule: caller_step.cases) (auto simp: start_defs split: caller.splits tcpip.splits if_splits)
next
  case (stack i)
  then show ?thesis using assms(2,3)
    by (cases rule: tcpip_step.cases) (auto simp: start_defs split: caller.splits tcpip.splits if_splits)
qed

lemma program_step_one:
  assumes "program_step setting st st'" "setting \<noteq> Preloaded" "one_start setting st x"
  shows "\<exists>y. one_start setting st' y"
  using assms(1)
proof (cases rule: program_step.cases)
  case starting
  then show ?thesis using start_step_one assms(2,3) by blast
next
  case another
  then have "replicate (sockets st) (start_calls setting) = replicate (sockets st - 1) (start_calls setting) @ [(start_calls setting)]"
    using assms(3) by (cases "sockets st") (simp_all add: one_start_def replicate_append_same [symmetric])
  then show ?thesis using another assms(3)
    by (intro exI [of _ fresh_start]) (auto simp: next_socket_def one_start_def together_def said_def fresh_start_def returned_def)
next
  case serve
  then show ?thesis using assms(3)
    by (intro exI [of _ x]) (simp add: one_start_def returned_def say_def serve_http_def)
qed

lemma one_start_start: "one_start setting system_start fresh_start"
  by (simp add: one_start_def together_def said_def system_start_def fresh_start_def)

lemma program_steps_one:
  "(program_step setting)\<^sup>*\<^sup>* system_start st \<Longrightarrow> setting \<noteq> Preloaded \<Longrightarrow> \<exists>x. one_start setting st x"
  by (induction rule: rtranclp_induct) (auto intro: one_start_start dest: program_step_one)

lemma start_goes_on:
  assumes "one_start setting st x" "setting \<noteq> Preloaded" "\<not> returned st"
  shows "\<exists>st'. start_step setting st st'"
proof -
  have x: "0 < length (starts st)" "starts st ! 0 = x" "together setting x" "caller x \<noteq> Returned"
    using assms(1,3) by (auto simp: one_start_def returned_def)
  have stack: "\<exists>st'. tcpip_step setting 0 st st'" if "tcpip x \<notin> {Not_started, In_driver, Done}"
  proof (cases "tcpip x")
    case At_netif_add
    then show ?thesis using netif_add [OF x(1,2) _ assms(2)] by blast
  next
    case At_set_default
    then show ?thesis using set_default [OF x(1,2)] by blast
  next
    case At_set_up
    then show ?thesis using set_up [OF x(1,2)] by blast
  next
    case At_ping_init
    then show ?thesis using start_ping [OF x(1,2)] by blast
  next
    case At_sem_signal
    then show ?thesis using sem_signal [OF x(1,2)] by blast
  qed (use that in auto)
  show ?thesis
  proof (cases "caller x")
    case At_sem_new
    then show ?thesis using sem_new [OF x(1,2)] calls by blast
  next
    case At_tcpip_init
    then show ?thesis using tcpip_init [OF x(1,2)] calls by blast
  next
    case At_sem_wait
    show ?thesis
    proof (cases "tcpip x = Done")
      case True
      then have "0 < sem x" using At_sem_wait x(3) by (simp add: together_def)
      then show ?thesis using sem_wait [OF x(1,2) At_sem_wait] calls by blast
    next
      case False
      then show ?thesis using At_sem_wait x(3) stack start_step.stack by (fastforce simp: together_def)
    qed
  next
    case At_sem_free
    then show ?thesis using sem_free [OF x(1,2)] calls by blast
  qed (use x(4) in simp)
qed

lemma start_ends: "one_start setting st x \<Longrightarrow> setting \<noteq> Preloaded \<Longrightarrow> \<exists>st'. (start_step setting)\<^sup>*\<^sup>* st st' \<and> returned st'"
proof (induction "work x" arbitrary: st x rule: less_induct)
  case less
  show ?case
  proof (cases "returned st")
    case False
    then obtain st1 where s: "start_step setting st st1" using start_goes_on less.prems by blast
    then obtain y where y: "one_start setting st1 y" "work y < work x" using start_step_one less.prems by blast
    then obtain st2 where "(start_step setting)\<^sup>*\<^sup>* st1 st2" "returned st2" using less.hyps [of y st1] less.prems(2) by auto
    then show ?thesis using s by (meson converse_rtranclp_into_rtranclp)
  qed blast
qed

section \<open>A preloaded wrapper\<close>

definition waiting :: start where
  "waiting = \<lparr>caller = At_sem_wait, tcpip = In_driver, sem = 0\<rparr>"

definition newest :: "start set" where
  "newest = {fresh_start, fresh_start\<lparr>caller := At_tcpip_init\<rparr>, \<lparr>caller = At_sem_wait, tcpip = At_netif_add, sem = 0\<rparr>}"

lemma nested_step:
  assumes "start_step Preloaded st st'" "starts st = replicate n waiting @ [x]" "x \<in> newest"
  shows "\<exists>m y. starts st' = replicate m waiting @ [y] \<and> y \<in> newest \<and> n \<le> m"
proof -
  have i: "starts st ! i = waiting \<or> i = n \<and> starts st ! i = x" if "i < length (starts st)" for i
    using that assms(2) by (auto simp: nth_append less_Suc_eq)
  note defs = waiting_def newest_def fresh_start_def put_def say_def
  show ?thesis using assms(1)
  proof (cases rule: start_step.cases)
    case (calls i)
    then show ?thesis
    proof (cases rule: caller_step.cases)
      case (sem_new y)
      then have "i = n \<and> y = x" using i [of i] by (auto simp: waiting_def)
      then show ?thesis using sem_new assms(2,3)
        by (intro exI [of _ n] exI [of _ "fresh_start\<lparr>caller := At_tcpip_init\<rparr>"]) (auto simp: defs list_update_append)
    next
      case (tcpip_init y)
      then have "i = n \<and> y = x" using i [of i] by (auto simp: waiting_def)
      then show ?thesis using tcpip_init assms(2,3)
        by (intro exI [of _ n] exI [of _ "\<lparr>caller = At_sem_wait, tcpip = At_netif_add, sem = 0\<rparr>"])
          (auto simp: defs list_update_append)
    next
      case (sem_wait y)
      then show ?thesis using i [of i] assms(3) by (auto simp: defs)
    next
      case (sem_free y)
      then show ?thesis using i [of i] assms(3) by (auto simp: defs)
    qed
  next
    case (stack i)
    then show ?thesis
    proof (cases rule: tcpip_step.cases)
      case (driver_socket y)
      then have "i = n \<and> y = x" using i [of i] by (auto simp: waiting_def)
      then show ?thesis using driver_socket assms(2,3)
        by (intro exI [of _ "Suc n"] exI [of _ fresh_start])
          (auto simp: defs list_update_append replicate_append_same [symmetric])
    next
      case (driver_back y)
      then have "starts st ! Suc i = waiting \<or> starts st ! Suc i = x" using i by blast
      then show ?thesis using driver_back assms(3) by (auto simp: defs)
    qed (use i [of i] assms(3) in \<open>auto simp: defs\<close>)
  qed
qed

lemma nested_goes_on:
  assumes "starts st = replicate n waiting @ [x]" "x \<in> newest"
  shows "\<exists>st'. (start_step Preloaded)\<^sup>+\<^sup>+ st st' \<and> starts st' = replicate (Suc n) waiting @ [fresh_start]"
proof -
  let ?z1 = "fresh_start\<lparr>caller := At_tcpip_init\<rparr>" and ?z2 = "\<lparr>caller = At_sem_wait, tcpip = At_netif_add, sem = 0\<rparr>"
  note defs = waiting_def fresh_start_def put_def say_def list_update_append nth_append
  have new: "\<exists>u. start_step Preloaded st u \<and> starts u = replicate n waiting @ [?z1]"
    if "starts st = replicate n waiting @ [fresh_start]" for st
    using calls [OF sem_new [of n st fresh_start]] that by (force simp: defs)
  have init: "\<exists>u. start_step Preloaded st u \<and> starts u = replicate n waiting @ [?z2]"
    if "starts st = replicate n waiting @ [?z1]" for st
    using calls [OF tcpip_init [of n st ?z1]] that by (force simp: defs)
  have add: "\<exists>u. start_step Preloaded st u \<and> starts u = replicate (Suc n) waiting @ [fresh_start]"
    if "starts st = replicate n waiting @ [?z2]" for st
    using stack [OF driver_socket [of n st ?z2]] that
    by (force simp: defs replicate_append_same [symmetric])
  have 3: "\<exists>u. (start_step Preloaded)\<^sup>+\<^sup>+ st u \<and> starts u = replicate (Suc n) waiting @ [fresh_start]"
    if "starts st = replicate n waiting @ [?z2]" for st
    using add [OF that] by blast
  have 2: "\<exists>u. (start_step Preloaded)\<^sup>+\<^sup>+ st u \<and> starts u = replicate (Suc n) waiting @ [fresh_start]"
    if "starts st = replicate n waiting @ [?z1]" for st
    using init [OF that] 3 by (meson tranclp_into_tranclp2)
  have "\<exists>u. (start_step Preloaded)\<^sup>+\<^sup>+ st u \<and> starts u = replicate (Suc n) waiting @ [fresh_start]"
    if "starts st = replicate n waiting @ [fresh_start]" for st
    using new [OF that] 2 by (meson tranclp_into_tranclp2)
  then show ?thesis using 2 3 assms by (auto simp: newest_def)
qed

lemma not_returned:
  assumes "starts st = replicate n waiting @ [x]" "x \<in> newest"
  shows "\<not> returned st"
  using assms by (cases n) (auto simp: returned_def waiting_def newest_def fresh_start_def)

lemma program_steps_nested:
  "(program_step Preloaded)\<^sup>*\<^sup>* system_start st \<Longrightarrow> \<exists>n x. starts st = replicate n waiting @ [x] \<and> x \<in> newest"
proof (induction rule: rtranclp_induct)
  case base
  show ?case by (intro exI [of _ 0] exI [of _ fresh_start]) (simp add: system_start_def newest_def)
next
  case (step st st')
  then obtain n x where nx: "starts st = replicate n waiting @ [x]" "x \<in> newest" by blast
  from step.hyps(2) show ?case
  proof (cases rule: program_step.cases)
    case starting
    then show ?thesis using nested_step [OF _ nx] by blast
  qed (use not_returned [OF nx] in auto)
qed

section \<open>Properties\<close>



text \<open>
  (C11) Preloaded, as the wrapper is meant to be used, \<open>socket\<close> never comes back: the driver's own call is the
  wrapper's and starts lwIP again in a further thread, whose driver calls \<open>socket\<close> again, without end.
\<close>

theorem preloaded_never_starts:
  assumes "(program_step Preloaded)\<^sup>*\<^sup>* system_start st"
  shows "\<not> returned st \<and> (\<forall>x \<in> set (starts st). caller x \<noteq> Returned)
    \<and> (\<exists>st'. (start_step Preloaded)\<^sup>+\<^sup>+ st st' \<and> length (starts st') = Suc (length (starts st)))"
proof -
  obtain n x where nx: "starts st = replicate n waiting @ [x]" "x \<in> newest"
    using program_steps_nested [OF assms] by blast
  have "\<forall>x \<in> set (starts st). caller x \<noteq> Returned"
    using nx by (auto simp: waiting_def newest_def fresh_start_def)
  moreover obtain st' where "(start_step Preloaded)\<^sup>+\<^sup>+ st st'" "starts st' = replicate (Suc n) waiting @ [fresh_start]"
    using nested_goes_on [OF nx] by blast
  ultimately show ?thesis using not_returned [OF nx] nx(1) by auto
qed

theorem preloaded_never_starts_witness:
  "\<not> returned system_start \<and> (\<exists>st. (start_step Preloaded)\<^sup>+\<^sup>+ system_start st \<and> length (starts st) = 2)"
  using preloaded_never_starts [OF rtranclp.rtrancl_refl] by (simp add: system_start_def numeral_2_eq_2)

end
