(* ===== verification/Lwip_Main.thy ===== *)
theory Lwip_Main
  imports Swrap_Start
begin

text \<open>
  The start-up code of \<open>http_server.c\<close> and \<open>ping.c\<close> function by function, as the calls each makes in order, and
  that the step relation of \<open>Swrap_Start\<close> makes the same calls however its two threads interleave.
  The build has \<open>NO_SYS\<close> off and IPv4 on; whether lwIP has status and link callbacks is a
  parameter, as are the success of \<open>sys_sem_new\<close> and the text of an address.
\<close>

datatype main_op =
    Sys_sem_new
  | Sys_sem_wait
  | Sys_sem_free
  | Sys_sem_signal
  | Lwip lwip_call
  | Set_status_callback
  | Set_link_callback
  | Assertion_fails string
  | Sleeps

section \<open>http_server.c\<close>

definition http_init_default_netif :: "ip4 \<Rightarrow> ip4 \<Rightarrow> ip4 \<Rightarrow> main_op list" where
  "http_init_default_netif ipaddr netmask gw = [Lwip (Netif_add ipaddr netmask gw), Lwip Netif_set_default]"

definition http_test_netif_init :: "bool \<Rightarrow> bool \<Rightarrow> main_op list" where
  "http_test_netif_init status link =
     (let gw = LWIP_PORT_INIT_GW; ipaddr = LWIP_PORT_INIT_IPADDR; netmask = LWIP_PORT_INIT_NETMASK
      in http_init_default_netif ipaddr netmask gw
         @ (if status then [Set_status_callback] else []) @ (if link then [Set_link_callback] else [])
         @ [Lwip Netif_set_up])"

definition http_test_init :: "bool \<Rightarrow> bool \<Rightarrow> main_op list" where
  "http_test_init status link = http_test_netif_init status link @ [Sys_sem_signal]"

definition http_main :: "bool \<Rightarrow> main_op list" where
  "http_main sem_ok = Sys_sem_new #
     (if \<not> sem_ok then [Assertion_fails ''failed to create init_sem'']
      else [Lwip Tcpip_init, Sys_sem_wait, Sys_sem_free, Lwip Http_server_netconn_init, Sleeps])"

section \<open>ping.c\<close>

definition ping_init_default_netif :: "ip4 \<Rightarrow> ip4 \<Rightarrow> ip4 \<Rightarrow> main_op list" where
  "ping_init_default_netif ipaddr netmask gw = [Lwip (Netif_add ipaddr netmask gw), Lwip Netif_set_default]"

definition line_end :: string where "line_end = [char_of (10 :: nat)]"

text \<open>What the callbacks print.\<close>

definition status_callback :: "bool \<Rightarrow> string \<Rightarrow> string" where
  "status_callback is_up ip =
     (if is_up then ''status_callback==UP, local interface IP is '' @ ip @ line_end else ''status_callback==DOWN'' @ line_end)"

definition link_callback :: "bool \<Rightarrow> string" where
  "link_callback is_link_up = (if is_link_up then ''link_callback==UP'' @ line_end else ''link_callback==DOWN'' @ line_end)"

text \<open>The result has the gateway that the default interface now has.\<close>

definition ping_test_netif_init :: "bool \<Rightarrow> bool \<Rightarrow> main_op list \<times> ip4" where
  "ping_test_netif_init status link =
     (let gw = LWIP_PORT_INIT_GW; ipaddr = LWIP_PORT_INIT_IPADDR; netmask = LWIP_PORT_INIT_NETMASK
      in (ping_init_default_netif ipaddr netmask gw
         @ (if status then [Set_status_callback] else []) @ (if link then [Set_link_callback] else [])
         @ [Lwip Netif_set_up], gw))"

definition ping_test_init :: "bool \<Rightarrow> bool \<Rightarrow> main_op list" where
  "ping_test_init status link =
     (let (ops, gw) = ping_test_netif_init status link in ops @ [Lwip (Ping_init gw), Sys_sem_signal])"

definition ping_main :: "bool \<Rightarrow> main_op list" where
  "ping_main sem_ok = Sys_sem_new #
     (if \<not> sem_ok then [Assertion_fails ''failed to create init_sem'']
      else [Lwip Tcpip_init, Sys_sem_wait, Sys_sem_free, Sleeps])"

section \<open>Their runs\<close>

text \<open>
  The calls of lwIP that \<open>main\<close> and the thread of the stack make together: \<open>tcpip_init\<close> starts that thread, which
  runs \<open>test_init\<close>, and \<open>main\<close> makes no further call before it was signalled.
\<close>

definition lwip_calls :: "main_op list \<Rightarrow> main_op list \<Rightarrow> lwip_call list" where
  "lwip_calls stack main = concat (map (\<lambda>x. case x of
       Lwip Tcpip_init \<Rightarrow> Tcpip_init # concat (map (\<lambda>y. case y of Lwip c \<Rightarrow> [c] | _ \<Rightarrow> []) stack)
     | Lwip c \<Rightarrow> [c]
     | _ \<Rightarrow> []) main)"

lemma one_socket:
  "(program_step setting)\<^sup>*\<^sup>* system_start st \<Longrightarrow> setting \<noteq> Linked \<Longrightarrow> setting \<noteq> Preloaded \<Longrightarrow> sockets st = 1"
proof (induction rule: rtranclp_induct)
  case base
  show ?case by (simp add: system_start_def)
next
  case (step u v)
  from step.hyps(2) show ?case
  proof (cases rule: program_step.cases)
    case starting
    have "sockets v = sockets u" using starting
      by (cases rule: start_step.cases) (auto elim!: caller_step.cases tcpip_step.cases simp: put_def say_def ping_init_def Let_def)
    then show ?thesis using step by simp
  qed (use step in \<open>auto simp: serve_http_def say_def\<close>)
qed

lemma started_once:
  assumes "(program_step setting)\<^sup>*\<^sup>* system_start st" "setting \<noteq> Linked" "setting \<noteq> Preloaded" "returned st"
  shows "log st = start_calls setting @ (if serving st then [Http_server_netconn_init] else [])"
proof -
  obtain x where x: "one_start setting st x" using program_steps_one assms(1,3) by blast
  then have "tcpip x = Done" using assms(4) by (simp add: one_start_def returned_def together_def)
  then show ?thesis using x one_socket [OF assms(1-3)] by (simp add: one_start_def)
qed

text \<open>Whenever the server serves, the calls made are those of its code, in this order; the same for ping once it is started.\<close>

lemma server_calls:
  assumes "(program_step Http_server)\<^sup>*\<^sup>* system_start st" "serving st"
  shows "log st = lwip_calls (http_test_init status link) (http_main True)"
proof -
  obtain x where "one_start Http_server st x" using program_steps_one assms(1) by blast
  then have "returned st" using assms(2) by (simp add: one_start_def returned_def)
  from started_once [OF assms(1) _ _ this] assms(2) show ?thesis
    by (simp add: start_calls_def lwip_calls_def http_main_def http_test_init_def http_test_netif_init_def
        http_init_default_netif_def)
qed

lemma ping_calls:
  assumes "(program_step Ping_client)\<^sup>*\<^sup>* system_start st" "returned st"
  shows "log st = lwip_calls (ping_test_init status link) (ping_main True)"
proof -
  obtain x where "one_start Ping_client st x" using program_steps_one assms(1) by blast
  then have "\<not> serving st" by (auto simp: one_start_def)
  with started_once [OF assms(1) _ _ assms(2)] show ?thesis
    by (simp add: start_calls_def lwip_calls_def ping_main_def ping_test_init_def ping_test_netif_init_def
        ping_init_default_netif_def)
qed

end
