(* ===== verification/Spec2Isabelle.thy ===== *)
theory Spec2Isabelle
  imports Xdp_Options Xdp_Text Ping Swrap_Data Swrap_Ctl Swrap_Resv Swrap_Threads Swrap_Race Swrap_Steps Swrap_Bind Lwip_Main
begin

text \<open>
  A verification development for ipxdp: packet input and output over AF_XDP sockets, an lwIP
  driver on top of them, and a socket wrapper that redirects an application's sockets.

  \<^bold>\<open>The program.\<close> \<open>src/xdpsock_user.c\<close> is a benchmark that shares four descriptor rings and a
  packet memory (UMEM) with the kernel; \<open>src/xdpsock_kern.c\<close> is the XDP program that steers
  packets of one queue to its socket. \<open>src/lwip/netif/af_xdp.c\<close> is a network driver for lwIP
  with copies of the same rings; \<open>src/lwip/ping.c\<close> is a ping client for lwIP.
  \<open>src/socket_wrapper/socket_wrapper.c\<close> overrides the socket calls of libc and maps internet
  sockets to Unix sockets in a directory, with a packet capture of what would have been sent.

  \<^bold>\<open>Theories and the code they model.\<close>
  \<^item> \<open>Prelude\<close>: machine integers, error numbers, results of system calls, word lemmas.
  \<^item> \<open>Xdp_Ring\<close>: the ring structures and the eight ring operations of xdpsock_user.c, indices as
    32-bit words. \<open>Xdp_Fifo\<close>: what they implement. The locales \<open>producer_fifo\<close> and
    \<open>consumer_fifo\<close> state the contract of a bounded queue under concurrent progress of the
    kernel; five interpretations discharge it for the five operations, and runs with the kernel
    (\<open>tx_run\<close>, \<open>rx_run\<close>) preserve order and content.
  \<^item> \<open>Xdp_Sock\<close>: UMEM, the socket record, completion, and one pass of each benchmark loop.
    \<open>Xdp_Setup\<close>: \<open>xdp_umem_configure\<close> and \<open>xsk_configure\<close>, every asserted call a value.
    \<open>Xdp_System\<close>: the socket together with the kernel; \<open>reachable\<close> states and the invariant that
    every frame has one owner. \<open>Xdp_Bench\<close>: packet contents and statistics. \<open>Xdp_Kern\<close>: the XDP
    program. \<open>Xdp_Main\<close>: command line, \<open>main\<close> up to the benchmark, signal handler.
    \<open>Xdp_Options\<close>: the option tables and \<open>getopt_long\<close> on them, from \<open>argv\<close> to the letters.
    \<open>Xdp_Text\<close>: what is printed about packets (\<open>hex_dump\<close>, with the rows it should have) and sockets.
  \<^item> \<open>Lwip\<close>, \<open>Af_Xdp\<close>, \<open>Ping\<close>: the driver (rings, set-up, output, receive thread, initialisation)
    and both builds of the ping client. pbufs, netif callbacks and checksums are parameters.
  \<^item> \<open>C_Lib\<close>: the parts of the C library the sources parse and print numbers with.
    \<open>Swrap_Base\<close>: \<open>socket_info\<close>, addresses, configuration from the environment.
    \<open>Swrap_Pcap\<close>: packets and file of the capture. \<open>Swrap_Pool\<close>: entries, reference counts, free
    list, descriptor table, and the calls that change them; the locales \<open>descriptor_table\<close> and
    \<open>sharing_table\<close> state the table's contract as a map and are interpreted on the model.
    \<open>Swrap_Addr\<close>: internet addresses as socket paths and back; the locale \<open>codec\<close>.
  \<^item> \<open>Swrap_Calls\<close>: the process (\<open>proc\<close>: the table and the static variables) and what it meets (\<open>libc\<close>);
    socket, automatic binding, connect, bind, bindresvport, listen, accept, names, options, ioctl, the
    calls that open files. \<open>Swrap_Msg\<close>: control messages and what precedes and follows every
    transfer. \<open>Swrap_Io\<close>: the eleven transfer calls; the messages handed to libc are part of their
    results. A call on a descriptor that is not wrapped has the outcome \<open>ToLibc\<close>.
  \<^item> \<open>Swrap_Run\<close>: \<open>lib_step\<close>, every call of the library as a step, and \<open>library_run\<close>; the invariant
    (\<open>proc_ok\<close>: the table is consistent, every entry well typed, the static variables in range) and
    the collection \<open>keeping\<close> of the operations that keep it. \<open>Swrap_Conn\<close>: creation, names and
    connections between processes. \<open>Swrap_Data\<close>: what the transfer calls send, refuse and return.
    \<open>Swrap_Ctl\<close>: control messages in the receiver's buffer. \<open>Swrap_Resv\<close>: reserved ports.
  \<^item> \<open>Swrap_Lock\<close>: the mutexes; what every function of the library does to them, as code with choices
    and loops, and a check that it takes them in one order only. \<open>Swrap_Threads\<close>: any number of
    threads that run such code; they cannot deadlock, unless in the child of a fork.
    \<open>Swrap_Bind\<close>: symbol binding, first of one thread (\<open>bindings\<close>), then of threads that race
    (\<open>race_step\<close>); the forwarding functions. \<open>Swrap_Start\<close>: the start of lwIP by \<open>socket\<close> and by
    \<open>main\<close> of \<open>http_server.c\<close> and \<open>ping.c\<close> as a step relation of two threads and, nested, of those
    the driver starts; \<open>Lwip_Main\<close>: the functions of these two files, which make the same calls. \<open>Swrap_Race\<close>: a call whose entry another thread closes and reuses.
  \<^item> \<open>Swrap_Steps\<close>: any number of threads that share the descriptor table. Each is in a \<open>phase\<close> of a
    call; a step of it (\<open>user_step\<close>) is a lookup, a section that holds the mutex of an entry
    (\<open>entry_section\<close>), a close, or one of the steps by which socket, accept and dup put a descriptor into the
    table. \<open>users_ok\<close> is the invariant; the calls of \<open>lib_step\<close> are sequences of such steps.

  \<^bold>\<open>Conventions.\<close> Each C function is a definition of the same name (with a suffix or a theory
  prefix where two files share one). State is passed and returned; fallible code returns a sum
  whose left side is the error. Results of libc, libbpf and lwIP, and what the kernel does to
  shared memory during a call, are arguments. Assertions that end the process are values.
  Memory errors are values (\<open>fault\<close>, \<open>StoreOutOfBounds\<close>, \<open>ReadOutOfBounds\<close>).

  \<^bold>\<open>Bounds.\<close> Loops over lists are structural; the endless benchmark loops are modelled one pass at
  a time and composed by the run relations; \<open>drain\<close> has fuel, and \<open>completion_drain\<close> shows that
  one more than the number of entries is enough. The searches for a port are bounded as in the
  code: 1024 tries for automatic binding, the ports 5001 to 9999, 424 reserved ports.

  \<^bold>\<open>Concurrency.\<close> \<open>lib_step\<close> makes a call of the library one step, \<open>user_step\<close> a critical section of
  a thread. The latter assumes that a socket is not closed while another thread duplicates its descriptor, that accept
  gets no descriptor with a stale entry, and that libc does not return a number it has given to a call
  that has not entered it yet; \<open>Swrap_Race\<close> and \<open>Swrap_Conn\<close> show what the first two prevent. The static
  variables change within the section that uses them; their own mutexes are in \<open>Swrap_Lock\<close>, which with
  \<open>Swrap_Threads\<close> keeps what concerns mutexes only, as the model of racing threads in \<open>Swrap_Bind\<close> does for symbols.

  \<^bold>\<open>Not modelled.\<close> Messages of progress (\<open>printf\<close> of a fixed text) and how floating point numbers are printed; the
  functions of lwIP, libbpf and libc themselves, among them the web server that \<open>http_server.c\<close> starts;
  code that is compiled out (\<open>check_addr_port_in_use\<close>, the wrappers of \<open>accept\<close> and \<open>pledge\<close> that
  \<open>config.h\<close> switches off). Of \<open>errno\<close> the model follows the value the caller sees, not what \<open>unlink\<close>
  leaves in it.
\<close>

end
